(* ===== verification/Hca_Prelude.thy ===== *)
theory Hca_Prelude
  imports Main "HOL-Library.Word"
begin

unbundle bit_operations_syntax

text \<open>
  Shared vocabulary of the development: the machine integers of the C++ code, its errors,
  the computations that every stateful function of the driver is translated to, the small
  logic used to reason about them, and generic facts on words and lists.
\<close>

section \<open>Types\<close>

type_synonym u8 = "8 word"
type_synonym u16 = "16 word"
type_synonym u32 = "32 word"
type_synonym u64 = "64 word"

text \<open>
  What ends a computation early. \<open>Runtime_error\<close> is a \<open>std::runtime_error\<close> with its
  message, \<open>Sys_error\<close> the exception of a failed \<open>L4Re::chksys\<close> or \<open>L4Re::chkcap\<close>,
  \<open>Terminate\<close> a bare \<open>throw;\<close> with no exception in flight (it calls
  \<open>std::terminate\<close>), \<open>Std_exception\<close> a plain \<open>std::exception\<close>, and \<open>Undefined\<close> a step
  the C++ language gives no meaning to: a null or dangling pointer, an index outside an
  array, an empty map node.
\<close>

datatype error =
    Runtime_error string
  | Sys_error string
  | Terminate
  | Std_exception
  | Undefined string

section \<open>Computations\<close>

text \<open>
  A computation reads and changes a state and ends with a value or an error. The state
  reached is kept in both cases, as the handlers of \<open>main.cc\<close> go on from it. \<open>None\<close>
  is a computation that does not return.
\<close>

type_synonym ('s, 'a) prog = "'s \<Rightarrow> ((error + 'a) \<times> 's) option"

definition ret :: "'a \<Rightarrow> ('s, 'a) prog" where
  "ret x = (\<lambda>s. Some (Inr x, s))"

definition throw :: "error \<Rightarrow> ('s, 'a) prog" where
  "throw e = (\<lambda>s. Some (Inl e, s))"

definition bnd :: "('s, 'a) prog \<Rightarrow> ('a \<Rightarrow> ('s, 'b) prog) \<Rightarrow> ('s, 'b) prog" where
  "bnd m f = (\<lambda>s. case m s of
       None \<Rightarrow> None
     | Some (Inl e, s') \<Rightarrow> Some (Inl e, s')
     | Some (Inr x, s') \<Rightarrow> f x s')"

definition andthen :: "('s, 'a) prog \<Rightarrow> ('s, 'b) prog \<Rightarrow> ('s, 'b) prog" where
  "andthen m k = bnd m (\<lambda>_. k)"

definition gets :: "('s \<Rightarrow> 'a) \<Rightarrow> ('s, 'a) prog" where
  "gets f = (\<lambda>s. Some (Inr (f s), s))"

definition modify :: "('s \<Rightarrow> 's) \<Rightarrow> ('s, unit) prog" where
  "modify f = (\<lambda>s. Some (Inr (), f s))"

text \<open>An operation that cannot fail, as a computation.\<close>

definition pure_op :: "('s \<Rightarrow> 'a \<times> 's) \<Rightarrow> ('s, 'a) prog" where
  "pure_op f = (\<lambda>s. Some (Inr (fst (f s)), snd (f s)))"

text \<open>A C++ \<open>for\<close> loop over a list of indices.\<close>

primrec for_each :: "('i \<Rightarrow> ('s, unit) prog) \<Rightarrow> 'i list \<Rightarrow> ('s, unit) prog" where
  "for_each body [] = ret ()"
| "for_each body (i # is) = andthen (body i) (for_each body is)"

text \<open>A \<open>for\<close> loop that carries local variables from one round to the next.\<close>

primrec fold_m :: "('i \<Rightarrow> 'a \<Rightarrow> ('s, 'a) prog) \<Rightarrow> 'i list \<Rightarrow> 'a \<Rightarrow> ('s, 'a) prog" where
  "fold_m body [] x = ret x"
| "fold_m body (i # is) x = bnd (body i x) (fold_m body is)"

text \<open>Reading and writing an array through a pointer to it: undefined outside its bounds.\<close>

definition read_word :: "'a list \<Rightarrow> nat \<Rightarrow> ('s, 'a) prog" where
  "read_word xs i = (if i < length xs then ret (xs ! i) else throw (Undefined ''array index''))"

definition write_word :: "'a list \<Rightarrow> nat \<Rightarrow> 'a \<Rightarrow> ('s, 'a list) prog" where
  "write_word xs i x = (if i < length xs then ret (xs[i := x]) else throw (Undefined ''array index''))"

text \<open>
  A \<open>while\<close> loop with a loop variable: the body either leaves the loop with a result
  (\<open>Inl\<close>) or goes on with the next value of the variable (\<open>Inr\<close>).
\<close>

partial_function (option) loop ::
  "('a \<Rightarrow> ('s, 'b + 'a) prog) \<Rightarrow> 'a \<Rightarrow> 's \<Rightarrow> ((error + 'b) \<times> 's) option" where
  "loop body x s = (case body x s of
       None \<Rightarrow> None
     | Some (Inl e, t) \<Rightarrow> Some (Inl e, t)
     | Some (Inr (Inl y), t) \<Rightarrow> Some (Inr y, t)
     | Some (Inr (Inr x'), t) \<Rightarrow> loop body x' t)"

text \<open>A computation on a part of the state.\<close>

definition zoom :: "('s \<Rightarrow> 't) \<Rightarrow> ('t \<Rightarrow> 's \<Rightarrow> 's) \<Rightarrow> ('t, 'a) prog \<Rightarrow> ('s, 'a) prog" where
  "zoom get put m = (\<lambda>s. case m (get s) of
       None \<Rightarrow> None
     | Some (r, t) \<Rightarrow> Some (r, put t s))"

named_theorems prog_simps "equations that run a computation"

lemma ret_run [prog_simps]: "ret x s = Some (Inr x, s)"
  by (simp add: ret_def)

lemma throw_run [prog_simps]: "throw e s = Some (Inl e, s)"
  by (simp add: throw_def)

lemma gets_run [prog_simps]: "gets f s = Some (Inr (f s), s)"
  by (simp add: gets_def)

lemma modify_run [prog_simps]: "modify f s = Some (Inr (), f s)"
  by (simp add: modify_def)

lemma pure_op_run [prog_simps]: "pure_op f s = Some (Inr (fst (f s)), snd (f s))"
  by (simp add: pure_op_def)

lemma bnd_Inr [prog_simps]: "m s = Some (Inr x, s') \<Longrightarrow> bnd m f s = f x s'"
  by (simp add: bnd_def)

lemma bnd_Inl [prog_simps]: "m s = Some (Inl e, s') \<Longrightarrow> bnd m f s = Some (Inl e, s')"
  by (simp add: bnd_def)

lemma bnd_None [prog_simps]: "m s = None \<Longrightarrow> bnd m f s = None"
  by (simp add: bnd_def)

lemma andthen_run [prog_simps]: "andthen m k s = bnd m (\<lambda>_. k) s"
  by (simp add: andthen_def)

lemma zoom_Some [prog_simps]: "m (get s) = Some (r, t) \<Longrightarrow> zoom get put m s = Some (r, put t s)"
  by (simp add: zoom_def)

lemma for_each_append [prog_simps]:
  "for_each body (is @ js) s = bnd (for_each body is) (\<lambda>_. for_each body js) s"
proof (induction "is" arbitrary: s)
  case (Cons i "is")
  then show ?case by (auto simp: andthen_def bnd_def split: option.splits sum.splits)
qed (simp add: prog_simps)

lemma fold_m_append [prog_simps]:
  "fold_m body (is @ js) x s = bnd (fold_m body is x) (fold_m body js) s"
proof (induction "is" arbitrary: x s)
  case (Cons i "is")
  then show ?case by (auto simp: bnd_def split: option.splits sum.splits)
qed (simp add: prog_simps)

lemma read_word_run [prog_simps]:
  "i < length xs \<Longrightarrow> read_word xs i s = Some (Inr (xs ! i), s)"
  by (simp add: read_word_def prog_simps)

lemma write_word_run [prog_simps]:
  "i < length xs \<Longrightarrow> write_word xs i x s = Some (Inr (xs[i := x]), s)"
  by (simp add: write_word_def prog_simps)

text \<open>Inversion: what a finished \<open>bnd\<close> has done.\<close>

lemma bnd_finished:
  assumes "bnd m f s = Some (r, t)"
  obtains (err) e where "m s = Some (Inl e, t)" "r = Inl e"
    | (ok) x u where "m s = Some (Inr x, u)" "f x u = Some (r, t)"
  using assms by (auto simp: bnd_def split: option.splits sum.splits)

lemma bnd_ok: "bnd m f s = Some (Inr y, t) \<longleftrightarrow> (\<exists>x u. m s = Some (Inr x, u) \<and> f x u = Some (Inr y, t))"
  by (auto simp: bnd_def split: option.splits sum.splits)

lemma zoom_finished:
  assumes "zoom get put m s = Some (r, t)"
  obtains u where "m (get s) = Some (r, u)" "t = put u s"
  using assms by (auto simp: zoom_def split: option.splits)

section \<open>Invariants and termination of computations\<close>

text \<open>
  \<open>keeps I m\<close>: wherever \<open>m\<close> ends, with a value or an error, it ends in \<open>I\<close>.
  \<open>returns I m\<close>: from \<open>I\<close>, \<open>m\<close> ends.
\<close>

definition keeps :: "('s \<Rightarrow> bool) \<Rightarrow> ('s, 'a) prog \<Rightarrow> bool" where
  "keeps I m \<longleftrightarrow> (\<forall>s r t. I s \<longrightarrow> m s = Some (r, t) \<longrightarrow> I t)"

definition returns :: "('s \<Rightarrow> bool) \<Rightarrow> ('s, 'a) prog \<Rightarrow> bool" where
  "returns I m \<longleftrightarrow> (\<forall>s. I s \<longrightarrow> m s \<noteq> None)"

named_theorems keeps_intros "rules that split an invariant proof over a computation"

lemma keepsI: "(\<And>s r t. I s \<Longrightarrow> m s = Some (r, t) \<Longrightarrow> I t) \<Longrightarrow> keeps I m"
  by (auto simp: keeps_def)

lemma keepsD: "keeps I m \<Longrightarrow> I s \<Longrightarrow> m s = Some (r, t) \<Longrightarrow> I t"
  by (auto simp: keeps_def)

lemma returnsI: "(\<And>s. I s \<Longrightarrow> \<exists>r t. m s = Some (r, t)) \<Longrightarrow> returns I m"
  by (force simp: returns_def)

lemma returnsD: "returns I m \<Longrightarrow> I s \<Longrightarrow> \<exists>r t. m s = Some (r, t)"
  by (force simp: returns_def)

lemma keeps_ret [keeps_intros]: "keeps I (ret x)"
  and keeps_throw [keeps_intros]: "keeps I (throw e)"
  and keeps_gets [keeps_intros]: "keeps I (gets f)"
  by (auto simp: keeps_def prog_simps)

lemma keeps_modify: "(\<And>s. I s \<Longrightarrow> I (f s)) \<Longrightarrow> keeps I (modify f)"
  by (auto simp: keeps_def prog_simps)

lemma keeps_pure_op: "(\<And>s. I s \<Longrightarrow> I (snd (f s))) \<Longrightarrow> keeps I (pure_op f)"
  by (auto simp: keeps_def prog_simps)

lemma keeps_bnd [keeps_intros]:
  "keeps I m \<Longrightarrow> (\<And>x. keeps I (f x)) \<Longrightarrow> keeps I (bnd m f)"
  by (rule keepsI) (erule bnd_finished; blast dest: keepsD)

lemma keeps_andthen [keeps_intros]: "keeps I m \<Longrightarrow> keeps I k \<Longrightarrow> keeps I (andthen m k)"
  by (simp add: andthen_def keeps_bnd)

lemma keeps_for_each [keeps_intros]:
  "(\<And>i. keeps I (body i)) \<Longrightarrow> keeps I (for_each body is)"
  by (induction "is") (auto intro: keeps_intros)

lemma keeps_fold_m [keeps_intros]:
  "(\<And>i x. keeps I (body i x)) \<Longrightarrow> keeps I (fold_m body is x)"
  by (induction "is" arbitrary: x) (auto intro: keeps_intros)

lemma keeps_array [keeps_intros]: "keeps I (read_word xs i)" "keeps I (write_word xs i x)"
  by (auto simp: read_word_def write_word_def intro: keeps_intros)

lemma keeps_if [keeps_intros]:
  "keeps I m \<Longrightarrow> keeps I k \<Longrightarrow> keeps I (if c then m else k)"
  by simp

lemma keeps_True [keeps_intros, simp]: "keeps (\<lambda>_. True) m"
  by (simp add: keeps_def)

lemma keeps_case [keeps_intros]:
  "keeps I m \<Longrightarrow> (\<And>x. keeps I (k x)) \<Longrightarrow> keeps I (case c of None \<Rightarrow> m | Some x \<Rightarrow> k x)"
  "(\<And>x y. keeps I (f x y)) \<Longrightarrow> keeps I (case xy of (x, y) \<Rightarrow> f x y)"
  "(\<And>e. keeps I (g e)) \<Longrightarrow> (\<And>x. keeps I (k x)) \<Longrightarrow> keeps I (case r of Inl e \<Rightarrow> g e | Inr x \<Rightarrow> k x)"
  by (auto split: option.splits prod.splits sum.splits)

lemma returns_case [keeps_intros]:
  "returns I m \<Longrightarrow> (\<And>x. returns I (k x)) \<Longrightarrow> returns I (case c of None \<Rightarrow> m | Some x \<Rightarrow> k x)"
  "(\<And>x y. returns I (f x y)) \<Longrightarrow> returns I (case xy of (x, y) \<Rightarrow> f x y)"
  "(\<And>e. returns I (g e)) \<Longrightarrow> (\<And>x. returns I (k x)) \<Longrightarrow> returns I (case r of Inl e \<Rightarrow> g e | Inr x \<Rightarrow> k x)"
  by (auto split: option.splits prod.splits sum.splits)

lemma returns_simple [keeps_intros]:
  "returns I (ret x)" "returns I (throw e)" "returns I (gets f)"
  "returns I (modify g)" "returns I (pure_op h)"
  by (auto simp: returns_def prog_simps)

lemma returns_bnd [keeps_intros]:
  assumes "returns I m" and "keeps I m" and "\<And>x. returns I (f x)"
  shows "returns I (bnd m f)"
proof (rule returnsI)
  fix s assume "I s"
  with assms(1) obtain r t where m: "m s = Some (r, t)" by (blast dest: returnsD)
  with assms(2) \<open>I s\<close> have "I t" by (blast dest: keepsD)
  with assms(3) m show "\<exists>r t. bnd m f s = Some (r, t)"
    by (cases r) (auto simp: prog_simps dest: returnsD)
qed

lemma returns_andthen [keeps_intros]:
  "returns I m \<Longrightarrow> keeps I m \<Longrightarrow> returns I k \<Longrightarrow> returns I (andthen m k)"
  by (simp add: andthen_def returns_bnd)

lemma returns_for_each [keeps_intros]:
  "(\<And>i. returns I (body i)) \<Longrightarrow> (\<And>i. keeps I (body i)) \<Longrightarrow> returns I (for_each body is)"
  by (induction "is") (auto intro: keeps_intros)

lemma returns_fold_m [keeps_intros]:
  "(\<And>i x. returns I (body i x)) \<Longrightarrow> (\<And>i x. keeps I (body i x)) \<Longrightarrow> returns I (fold_m body is x)"
  by (induction "is" arbitrary: x) (auto intro: keeps_intros)

lemma returns_array [keeps_intros]: "returns I (read_word xs i)" "returns I (write_word xs i x)"
  by (auto simp: read_word_def write_word_def intro: keeps_intros)

lemma returns_if [keeps_intros]:
  "returns I m \<Longrightarrow> returns I k \<Longrightarrow> returns I (if c then m else k)"
  by simp

lemma loop_leave [prog_simps]: "body x s = Some (Inr (Inl y), t) \<Longrightarrow> loop body x s = Some (Inr y, t)"
  and loop_again: "body x s = Some (Inr (Inr x'), t) \<Longrightarrow> loop body x s = loop body x' t"
  and loop_error [prog_simps]: "body x s = Some (Inl e, t) \<Longrightarrow> loop body x s = Some (Inl e, t)"
  by (simp_all add: loop.simps)

text \<open>Partial correctness of a loop: what holds of the exit holds of the result.\<close>

lemmas loop_finished_induct = loop.raw_induct [where xa = "((b, x), s)" for b x s, unfolded prod.case]

lemma loop_rule:
  assumes ret: "loop body x s = Some (r, t)" and start: "I x s"
    and again: "\<And>x s x' u. I x s \<Longrightarrow> body x s = Some (Inr (Inr x'), u) \<Longrightarrow> I x' u"
    and leave: "\<And>x s y u. I x s \<Longrightarrow> body x s = Some (Inr (Inl y), u) \<Longrightarrow> Q (Inr y) u"
    and error: "\<And>x s e u. I x s \<Longrightarrow> body x s = Some (Inl e, u) \<Longrightarrow> Q (Inl e) u"
  shows "Q r t"
proof -
  let ?P = "\<lambda>b x s rt. b = body \<longrightarrow> I x s \<longrightarrow> Q (fst rt) (snd rt)"
  have "?P body x s (r, t)"
  proof (rule loop_finished_induct [where P = ?P, OF _ ret], intro impI)
    fix f b x s rt
    assume IH: "\<And>b x s rt. f b x s = Some rt \<Longrightarrow> ?P b x s rt"
      and eq: "(case b x s of None \<Rightarrow> None | Some (Inl e, t) \<Rightarrow> Some (Inl e, t)
        | Some (Inr (Inl y), t) \<Rightarrow> Some (Inr y, t) | Some (Inr (Inr x'), t) \<Rightarrow> f b x' t) = Some rt"
      and b: "b = body" and I: "I x s"
    from eq obtain r u where run: "b x s = Some (r, u)" by (auto split: option.splits)
    show "Q (fst rt) (snd rt)"
    proof (cases r)
      case (Inl e)
      with eq run error [OF I] b show ?thesis by auto
    next
      case (Inr y)
      with eq run leave [OF I] again [OF I] IH b show ?thesis
        by (cases y) force+
    qed
  qed
  with start show ?thesis by simp
qed

text \<open>Termination of a loop: a measure that every further round decreases.\<close>

lemma loop_returns:
  assumes "I x s"
    and total: "\<And>x s. I x s \<Longrightarrow> body x s \<noteq> None"
    and again: "\<And>x s x' u. I x s \<Longrightarrow> body x s = Some (Inr (Inr x'), u) \<Longrightarrow>
                  I x' u \<and> f x' u < (f x s :: nat)"
  shows "\<exists>r t. loop body x s = Some (r, t)"
  using assms(1)
proof (induction "f x s" arbitrary: x s rule: less_induct)
  case less
  from total [OF less.prems] obtain r u where body: "body x s = Some (r, u)" by auto
  show ?case
  proof (cases r)
    case (Inl e) with body show ?thesis by (simp add: loop.simps)
  next
    case (Inr y)
    show ?thesis
    proof (cases y)
      case (Inl z) with body Inr show ?thesis by (simp add: loop.simps)
    next
      case (Inr x')
      with body \<open>r = Inr y\<close> have b: "body x s = Some (Inr (Inr x'), u)" by simp
      from again [OF less.prems b] have "I x' u" "f x' u < f x s" by auto
      then have "\<exists>r t. loop body x' u = Some (r, t)" using less.hyps by blast
      then show ?thesis by (simp add: loop_again [of body x s, OF b])
    qed
  qed
qed

lemma keeps_loop [keeps_intros]:
  assumes "\<And>x. keeps I (body x)" shows "keeps I (loop body x)"
proof (rule keepsI)
  fix s r t assume "I s" "loop body x s = Some (r, t)"
  then show "I t"
    using assms by (elim loop_rule [where I = "\<lambda>_. I" and Q = "\<lambda>_. I"]) (auto dest: keepsD)
qed

section \<open>Words and lists\<close>

text \<open>The address of the \<open>i\<close>-th 32-bit register of a structure at \<open>a\<close>.\<close>

definition reg :: "u64 \<Rightarrow> nat \<Rightarrow> u64" where
  "reg a i = a + 4 * of_nat i"

lemma reg_0 [simp]: "reg a 0 = a"
  by (simp add: reg_def)

lemma reg_reg [simp]: "reg (reg a i) j = reg a (i + j)"
  by (simp add: reg_def algebra_simps)

lemma reg_inj:
  assumes "i < 2 ^ 62" and "j < 2 ^ 62"
  shows "reg a i = reg a j \<longleftrightarrow> i = j"
proof -
  have "reg a i = reg a j \<longleftrightarrow> (of_nat (4 * i) :: u64) = of_nat (4 * j)"
    by (simp add: reg_def)
  also have "\<dots> \<longleftrightarrow> i = j"
    using assms by (subst word_of_nat_eq_iff) (simp add: take_bit_nat_eq_self)
  finally show ?thesis .
qed

text \<open>The words of an array a pointer leads to: \<open>n\<close> of them from the start.\<close>

definition words_at :: "(nat \<Rightarrow> 'a) \<Rightarrow> nat \<Rightarrow> 'a list" where
  "words_at f n = map f [0..<n]"

lemma length_words_at [simp]: "length (words_at f n) = n"
  by (simp add: words_at_def)

lemma nth_words_at [simp]: "i < n \<Longrightarrow> words_at f n ! i = f i"
  by (simp add: words_at_def)

lemma unat_ucast_32 [simp]: "unat (ucast (x :: u32) :: u64) = unat x"
proof -
  have "unat x < 2 ^ 32" using unsigned_less [of x] by simp
  then have "unat x < 2 ^ 64" by (rule less_trans) simp
  then show ?thesis by (simp only: unsigned_ucast_eq) (simp add: take_bit_nat_eq_self)
qed

lemma fold_upt_Suc: "fold f [0..<Suc n] s = f n (fold f [0..<n] s)"
  by simp

end
