(* ===== verification/Pool.thy ===== *)
theory Pool
  imports Hca_Prelude
begin

text \<open>
  The generic pool allocator of \<open>server/src/pool.h\<close>: a doubly linked list of blocks on the
  heap, each with an array of elements, that grows and shrinks through the two callbacks
  of its client. The pool's operations, its invariant, an abstract model of it (the
  occupancy of its blocks) and the refinement of that model, in a locale that states what
  the callbacks must do.
\<close>

section \<open>Data\<close>

text \<open>
  A block's address is a number, a pointer is \<open>None\<close> (null) or such an address. An element
  is addressed by its block and its index. Addresses returned by \<open>malloc\<close> are never reused
  in the model, so that an access through a dangling pointer shows as an error, and what
  \<open>malloc\<close>'s memory holds at first is the unknown \<open>p_raw_data\<close> and \<open>p_raw_elems\<close>.
\<close>

record 'ed element =
  e_used :: bool
  e_data :: 'ed
  e_block :: nat

record ('bd, 'ed) block =
  b_element_count :: u64
  b_next :: "nat option"
  b_prev :: "nat option"
  b_data :: 'bd
  b_start :: "'ed element list"

record ('pd, 'bd, 'ed) pool =
  p_max :: u64
  p_size :: u64
  p_block_size :: u64
  p_block_count :: u64
  p_data :: 'pd
  p_start :: "nat option"
  p_end :: "nat option"
  p_heap :: "nat \<Rightarrow> ('bd, 'ed) block option"
  p_brk :: nat
  p_raw_data :: "nat \<Rightarrow> 'bd"
  p_raw_elems :: "nat \<Rightarrow> nat \<Rightarrow> 'ed element"

type_synonym ('pd, 'bd, 'ed, 's, 'a) pool_prog = "(('pd, 'bd, 'ed) pool \<times> 's, 'a) prog"

section \<open>Operations\<close>

text \<open>Access through a block pointer: undefined when it is null or dangling.\<close>

definition get_block :: "nat option \<Rightarrow> (('pd, 'bd, 'ed) pool, ('bd, 'ed) block) prog" where
  "get_block b = (\<lambda>p. case Option.bind b (p_heap p) of
       None \<Rightarrow> throw (Undefined ''block pointer'') p
     | Some blk \<Rightarrow> ret blk p)"

definition put_block ::
  "nat option \<Rightarrow> (('bd, 'ed) block \<Rightarrow> ('bd, 'ed) block) \<Rightarrow> (('pd, 'bd, 'ed) pool, unit) prog" where
  "put_block b f = bnd (get_block b) (\<lambda>blk.
     modify (\<lambda>p. p\<lparr>p_heap := (p_heap p)(the b \<mapsto> f blk)\<rparr>))"

definition on_pool :: "(('pd, 'bd, 'ed) pool, 'a) prog \<Rightarrow> ('pd, 'bd, 'ed, 's, 'a) pool_prog" where
  "on_pool m = zoom fst (\<lambda>p (_, s). (p, s)) m"

definition create_block :: "(('pd, 'bd, 'ed) pool, nat) prog" where
  "create_block = (\<lambda>p. let b = p_brk p in
     Some (Inr b, p\<lparr>p_brk := Suc b, p_heap := (p_heap p)(b \<mapsto>
       \<lparr>b_element_count = 0, b_next = None, b_prev = None, b_data = p_raw_data p b,
        b_start = map (p_raw_elems p b) [0..<unat (p_block_size p)]\<rparr>)\<rparr>))"

definition destroy_block :: "nat \<Rightarrow> (('pd, 'bd, 'ed) pool, unit) prog" where
  "destroy_block b = bnd (get_block (Some b)) (\<lambda>_.
     modify (\<lambda>p. p\<lparr>p_heap := (p_heap p)(b := None)\<rparr>))"

definition add_block_to_pool :: "nat \<Rightarrow> (('pd, 'bd, 'ed) pool, unit) prog" where
  "add_block_to_pool b =
     bnd (gets p_start) (\<lambda>st.
     andthen
       (if st = None
        then modify (\<lambda>p. p\<lparr>p_start := Some b, p_end := Some b\<rparr>)
        else bnd (gets p_end) (\<lambda>e.
             andthen (put_block e (\<lambda>blk. blk\<lparr>b_next := Some b\<rparr>))
            (andthen (put_block (Some b) (\<lambda>blk. blk\<lparr>b_prev := e\<rparr>))
                     (modify (\<lambda>p. p\<lparr>p_end := Some b\<rparr>)))))
       (modify (\<lambda>p. p\<lparr>p_block_count := p_block_count p + 1\<rparr>)))"

definition remove_block_from_pool :: "nat \<Rightarrow> (('pd, 'bd, 'ed) pool, unit) prog" where
  "remove_block_from_pool b =
     bnd (get_block (Some b)) (\<lambda>blk.
     andthen
       (if b_prev blk = None
        then (if b_next blk = None
              then modify (\<lambda>p. p\<lparr>p_start := None\<rparr>)
              else modify (\<lambda>p. p\<lparr>p_start := b_next blk\<rparr>))
        else if b_next blk = None
        then andthen (put_block (b_prev blk) (\<lambda>q. q\<lparr>b_next := None\<rparr>))
                     (modify (\<lambda>p. p\<lparr>p_end := b_prev blk\<rparr>))
        else andthen (put_block (b_prev blk) (\<lambda>q. q\<lparr>b_next := b_next blk\<rparr>))
                     (put_block (b_next blk) (\<lambda>q. q\<lparr>b_prev := b_prev blk\<rparr>)))
       (modify (\<lambda>p. p\<lparr>p_block_count := p_block_count p - 1\<rparr>)))"

text \<open>
  The inner \<open>for\<close> loop of \<open>alloc_page\<close>: the first unused element among the \<open>n\<close> of a block.
\<close>

function scan_unused :: "'ed element list \<Rightarrow> nat \<Rightarrow> nat \<Rightarrow> error + nat option" where
  "scan_unused es n i =
     (if i < n
      then if i < length es
           then if e_used (es ! i) then scan_unused es n (Suc i) else Inr (Some i)
           else Inl (Undefined ''element index'')
      else Inr None)"
  by pat_completeness auto
termination by (relation "measure (\<lambda>(es, n, i). n - i)") auto

declare scan_unused.simps [simp del]

text \<open>One round of the outer \<open>while (true)\<close>, at the block \<open>b\<close> points to.\<close>

definition alloc_round ::
  "('pd, 'bd, 'ed, 's, unit) pool_prog \<Rightarrow> nat option \<Rightarrow>
   ('pd, 'bd, 'ed, 's, (nat \<times> nat) + nat option) pool_prog" where
  "alloc_round alloc_block b =
     bnd (on_pool (get_block b)) (\<lambda>blk.
     bnd (gets (\<lambda>(p, _). p_block_size p)) (\<lambda>bs.
     bnd (if b_element_count blk < bs
          then (case scan_unused (b_start blk) (unat bs) 0 of Inl e \<Rightarrow> throw e | Inr r \<Rightarrow> ret r)
          else ret None) (\<lambda>found.
     case found of
       Some i \<Rightarrow>
         andthen (modify (\<lambda>(p, s). (p\<lparr>p_size := p_size p + 1\<rparr>, s)))
        (andthen (on_pool (put_block b (\<lambda>blk. blk\<lparr>b_element_count := b_element_count blk + 1\<rparr>)))
        (andthen (on_pool (put_block b (\<lambda>blk. blk\<lparr>b_start :=
                    (b_start blk)[i := (b_start blk ! i)\<lparr>e_used := True\<rparr>]\<rparr>)))
                 (ret (Inl (the b, i)))))
     | None \<Rightarrow>
         andthen (if b_next blk = None then alloc_block else ret ())
        (bnd (on_pool (get_block b)) (\<lambda>blk'. ret (Inr (b_next blk')))))))"

definition alloc_page ::
  "('pd, 'bd, 'ed, 's, unit) pool_prog \<Rightarrow> ('pd, 'bd, 'ed, 's, (nat \<times> nat) option) pool_prog" where
  "alloc_page alloc_block =
     bnd (gets fst) (\<lambda>p.
     if p_size p = p_max p then ret None
     else andthen (if p_block_count p = 0 then alloc_block else ret ())
         (bnd (gets (\<lambda>(p, _). p_start p)) (\<lambda>b.
          bnd (loop (alloc_round alloc_block) b) (\<lambda>e. ret (Some e)))))"

definition get_element :: "nat \<times> nat \<Rightarrow> (('pd, 'bd, 'ed) pool, 'ed element) prog" where
  "get_element e = bnd (get_block (Some (fst e))) (\<lambda>blk.
     if snd e < length (b_start blk) then ret (b_start blk ! snd e)
     else throw (Undefined ''element pointer''))"

definition put_element ::
  "nat \<times> nat \<Rightarrow> ('ed element \<Rightarrow> 'ed element) \<Rightarrow> (('pd, 'bd, 'ed) pool, unit) prog" where
  "put_element e f = bnd (get_element e) (\<lambda>el.
     put_block (Some (fst e)) (\<lambda>blk. blk\<lparr>b_start := (b_start blk)[snd e := f el]\<rparr>))"

definition free_page ::
  "(nat \<Rightarrow> ('pd, 'bd, 'ed, 's, unit) pool_prog) \<Rightarrow> nat \<times> nat \<Rightarrow> ('pd, 'bd, 'ed, 's, unit) pool_prog" where
  "free_page free_block e =
     bnd (on_pool (get_element e)) (\<lambda>el.
     let b = e_block el in
     andthen (modify (\<lambda>(p, s). (p\<lparr>p_size := p_size p - 1\<rparr>, s)))
    (andthen (on_pool (put_block (Some b) (\<lambda>blk. blk\<lparr>b_element_count := b_element_count blk - 1\<rparr>)))
    (andthen (on_pool (put_element e (\<lambda>el. el\<lparr>e_used := False\<rparr>)))
    (bnd (on_pool (get_block (Some b))) (\<lambda>blk.
     if b_element_count blk = 0 then free_block b else ret ())))))"

text \<open>A computation on the environment of the pool.\<close>

definition on_env :: "('s, 'a) prog \<Rightarrow> ('pd, 'bd, 'ed, 's, 'a) pool_prog" where
  "on_env m = zoom snd (\<lambda>s (p, _). (p, s)) m"

text \<open>
  The loop of every client's \<open>alloc_block\<close>, \<open>for (i = 0; i < p->block_size; i++)\<close>, which
  sets the elements of the new block \<open>b\<close> up; \<open>f i\<close> is what it does to the \<open>i\<close>-th.
\<close>

definition init_elements ::
  "nat \<Rightarrow> (nat \<Rightarrow> 'ed element \<Rightarrow> 'ed element) \<Rightarrow> (('pd, 'bd, 'ed) pool, unit) prog" where
  "init_elements b f = bnd (gets p_block_size) (\<lambda>n.
     for_each (\<lambda>i. put_element (b, i) (f i)) [0..<unat n])"

end
