(* ===== verification/Pool_Invariant.thy ===== *)
theory Pool_Invariant
  imports Pool
begin

text \<open>
  The invariant of the pool of \<^theory_text>\<open>Pool\<close>: the doubly linked block list, the counters, and the
  abstract pool (the occupancy of the blocks) with its two operations. The lemmas say how
  each elementary change of the pool (linking a block in, taking and releasing an element,
  unlinking a block) acts on them.
\<close>

section \<open>Running the operations\<close>

lemma get_block_Some [prog_simps]:
  "p_heap p b = Some blk \<Longrightarrow> get_block (Some b) p = Some (Inr blk, p)"
  by (simp add: get_block_def prog_simps)

lemma get_block_dangling [prog_simps]:
  "p_heap p b = None \<Longrightarrow> get_block (Some b) p = Some (Inl (Undefined ''block pointer''), p)"
  by (simp add: get_block_def prog_simps)

lemma get_block_null [prog_simps]:
  "get_block None p = Some (Inl (Undefined ''block pointer''), p)"
  by (simp add: get_block_def prog_simps)

lemma put_block_Some [prog_simps]:
  "p_heap p b = Some blk \<Longrightarrow>
   put_block (Some b) f p = Some (Inr (), p\<lparr>p_heap := (p_heap p)(b \<mapsto> f blk)\<rparr>)"
  by (simp add: put_block_def prog_simps)

lemma put_block_dangling [prog_simps]:
  "p_heap p b = None \<Longrightarrow> put_block (Some b) f p = Some (Inl (Undefined ''block pointer''), p)"
  by (simp add: put_block_def prog_simps)

lemma on_pool_run [prog_simps]:
  "m p = Some (r, p') \<Longrightarrow> on_pool m (p, s) = Some (r, (p', s))"
  by (simp add: on_pool_def prog_simps)

lemma on_env_run [prog_simps]:
  "m s = Some (r, s') \<Longrightarrow> on_env m (p, s) = Some (r, (p, s'))"
  by (simp add: on_env_def prog_simps)

lemma get_element_Some [prog_simps]:
  "p_heap p b = Some blk \<Longrightarrow> i < length (b_start blk) \<Longrightarrow>
   get_element (b, i) p = Some (Inr (b_start blk ! i), p)"
  by (simp add: get_element_def prog_simps)

lemma put_element_Some [prog_simps]:
  "p_heap p b = Some blk \<Longrightarrow> i < length (b_start blk) \<Longrightarrow> put_element (b, i) f p =
   Some (Inr (), p\<lparr>p_heap := (p_heap p)(b \<mapsto> blk\<lparr>b_start := (b_start blk)[i := f (b_start blk ! i)]\<rparr>)\<rparr>)"
  by (simp add: put_element_def prog_simps)

lemma init_elements_run:
  assumes blk: "p_heap p b = Some blk" and len: "length (b_start blk) = unat (p_block_size p)"
  shows "init_elements b f p = Some (Inr (), p\<lparr>p_heap := (p_heap p)(b \<mapsto>
    blk\<lparr>b_start := map (\<lambda>i. f i (b_start blk ! i)) [0..<unat (p_block_size p)]\<rparr>)\<rparr>)"
proof -
  have "for_each (\<lambda>i. put_element (b, i) (f i)) [0..<n] p = Some (Inr (), p\<lparr>p_heap := (p_heap p)(b \<mapsto>
    blk\<lparr>b_start := map (\<lambda>i. f i (b_start blk ! i)) [0..<n] @ drop n (b_start blk)\<rparr>)\<rparr>)"
    if "n \<le> length (b_start blk)" for n
    using that
  proof (induction n)
    case 0
    with blk show ?case by (simp add: prog_simps fun_upd_idem)
  next
    case (Suc n)
    then have "drop n (b_start blk) = b_start blk ! n # drop (Suc n) (b_start blk)"
      by (simp add: Cons_nth_drop_Suc)
    with Suc show ?case by (simp add: prog_simps nth_append list_update_append fun_upd_def fun_eq_iff)
  qed
  from this [of "length (b_start blk)"] len show ?thesis
    by (simp add: init_elements_def prog_simps)
qed

lemma init_elements_new:
  assumes "p_heap p b = Some blk" and "b_start blk = map g [0..<unat (p_block_size p)]"
  shows "init_elements b f p = Some (Inr (), p\<lparr>p_heap := (p_heap p)(b \<mapsto>
    blk\<lparr>b_start := map (\<lambda>i. f i (g i)) [0..<unat (p_block_size p)]\<rparr>)\<rparr>)"
proof -
  have "map (\<lambda>i. f i (map g [0..<unat (p_block_size p)] ! i)) [0..<unat (p_block_size p)] =
      map (\<lambda>i. f i (g i)) [0..<unat (p_block_size p)]"
    by (rule map_cong) auto
  with assms show ?thesis using init_elements_run [of p b blk f] by (simp del: map_eq_conv)
qed

text \<open>The new block of \<open>create_block\<close>, set up by its client.\<close>

lemma create_block_run [prog_simps]:
  "create_block p = Some (Inr (p_brk p), p\<lparr>p_brk := Suc (p_brk p), p_heap := (p_heap p)(p_brk p \<mapsto>
     \<lparr>b_element_count = 0, b_next = None, b_prev = None, b_data = p_raw_data p (p_brk p),
      b_start = map (p_raw_elems p (p_brk p)) [0..<unat (p_block_size p)]\<rparr>)\<rparr>)"
  by (simp add: create_block_def Let_def)

lemma init_created_run [prog_simps]:
  "init_elements (p_brk p) f (p\<lparr>p_brk := Suc (p_brk p), p_heap := (p_heap p)(p_brk p \<mapsto>
     \<lparr>b_element_count = 0, b_next = None, b_prev = None, b_data = bd,
      b_start = map (p_raw_elems p (p_brk p)) [0..<unat (p_block_size p)]\<rparr>)\<rparr>) =
   Some (Inr (), p\<lparr>p_brk := Suc (p_brk p), p_heap := (p_heap p)(p_brk p \<mapsto>
     \<lparr>b_element_count = 0, b_next = None, b_prev = None, b_data = bd,
      b_start = map (\<lambda>i. f i (p_raw_elems p (p_brk p) i)) [0..<unat (p_block_size p)]\<rparr>)\<rparr>)"
  by (simp add: init_elements_new [where g = "p_raw_elems p (p_brk p)"])

section \<open>The block list\<close>

text \<open>
  The pointers of the blocks on the heap, and the list they make: \<open>chain l pr st bs e\<close> says
  that from the pointer \<open>st\<close> the \<open>next\<close> pointers run through the blocks \<open>bs\<close> to the
  pointer \<open>e\<close>, and that every \<open>prev\<close> pointer is the block before, \<open>pr\<close> for the first one.
\<close>

type_synonym links = "nat \<Rightarrow> (nat option \<times> nat option) option"

definition links :: "(nat \<Rightarrow> ('bd, 'ed) block option) \<Rightarrow> links" where
  "links h b = map_option (\<lambda>blk. (b_prev blk, b_next blk)) (h b)"

fun chain :: "links \<Rightarrow> nat option \<Rightarrow> nat option \<Rightarrow> nat list \<Rightarrow> nat option \<Rightarrow> bool" where
  "chain l pr st [] e = (st = e)"
| "chain l pr st (b # bs) e = (st = Some b \<and> (case l b of None \<Rightarrow> False
     | Some (q, nx) \<Rightarrow> q = pr \<and> chain l (Some b) nx bs e))"

definition last_or :: "nat option \<Rightarrow> nat list \<Rightarrow> nat option" where
  "last_or pr bs = (if bs = [] then pr else Some (last bs))"

lemma last_or_simps [simp]:
  "last_or pr [] = pr" "last_or pr (bs @ [b]) = Some b" "last_or pr (b # bs) = last_or (Some b) bs"
  by (simp_all add: last_or_def)

lemma links_upd [simp]:
  "links (h(b \<mapsto> blk)) = (links h)(b \<mapsto> (b_prev blk, b_next blk))"
  "links (h(b := None)) = (links h)(b := None)"
  by (auto simp: links_def)

lemma links_Some: "h b = Some blk \<Longrightarrow> links h b = Some (b_prev blk, b_next blk)"
  by (simp add: links_def)

lemma chain_upd [simp]: "b \<notin> set bs \<Longrightarrow> chain (l(b := x)) pr st bs e = chain l pr st bs e"
  by (induction bs arbitrary: pr st) (auto split: option.splits)

lemma chain_append:
  "chain l pr st (xs @ ys) e \<longleftrightarrow>
   (\<exists>m. chain l pr st xs m \<and> chain l (last_or pr xs) m ys e)"
  by (induction xs arbitrary: pr st) (auto split: option.splits)

lemma chain_start: "chain l pr st bs None \<Longrightarrow> st = (case bs of [] \<Rightarrow> None | b # _ \<Rightarrow> Some b)"
  by (cases bs) auto

lemma chain_allocated: "chain l pr st bs e \<Longrightarrow> b \<in> set bs \<Longrightarrow> l b \<noteq> None"
  by (induction bs arbitrary: pr st) (auto split: option.splits)

text \<open>The links of the block in the middle.\<close>

lemma chain_middle:
  "chain l pr st (xs @ b # ys) None \<Longrightarrow>
   l b = Some (last_or pr xs, case ys of [] \<Rightarrow> None | y # _ \<Rightarrow> Some y)"
  by (auto simp: chain_append split: option.splits dest: chain_start)

text \<open>Adding a block at the end; unlinking the last block, or one with a block on both sides.\<close>

lemma chain_snoc:
  assumes "chain l pr st bs None" "bs \<noteq> []" "distinct bs" "new \<notin> set bs"
  shows "chain (l(last bs \<mapsto> (fst (the (l (last bs))), Some new), new \<mapsto> (Some (last bs), None)))
           pr st (bs @ [new]) None"
proof -
  obtain zs a where "bs = zs @ [a]" using assms(2) by (cases bs rule: rev_cases) auto
  with assms show ?thesis by (auto simp: chain_append split: option.splits)
qed

lemma chain_unlink_last:
  assumes "chain l pr st (xs @ [b]) None" "xs \<noteq> []" "distinct (xs @ [b])"
  shows "chain (l(last xs \<mapsto> (fst (the (l (last xs))), None))) pr st xs None"
proof -
  obtain zs a where "xs = zs @ [a]" using assms(2) by (cases xs rule: rev_cases) auto
  with assms show ?thesis by (auto simp: chain_append split: option.splits)
qed

lemma chain_unlink_middle:
  assumes "chain l pr st (xs @ b # y # ys) None" "xs \<noteq> []" "distinct (xs @ b # y # ys)"
  shows "chain (l(last xs \<mapsto> (fst (the (l (last xs))), Some y), y \<mapsto> (Some (last xs), snd (the (l y)))))
           pr st (xs @ y # ys) None"
proof -
  obtain zs a where "xs = zs @ [a]" using assms(2) by (cases xs rule: rev_cases) auto
  with assms show ?thesis by (auto simp: chain_append split: option.splits)
qed

section \<open>The invariant\<close>

definition block_ok :: "u64 \<Rightarrow> nat \<Rightarrow> ('bd, 'ed) block \<Rightarrow> bool" where
  "block_ok n b blk \<longleftrightarrow> length (b_start blk) = unat n
     \<and> unat (b_element_count blk) = length (filter e_used (b_start blk))
     \<and> list_all (\<lambda>e. e_block e = b) (b_start blk)"

text \<open>The number of used elements of a block, and that the block is as it should be.\<close>

definition used_in :: "(nat \<Rightarrow> ('bd, 'ed) block option) \<Rightarrow> nat \<Rightarrow> nat" where
  "used_in h b = (case h b of None \<Rightarrow> 0 | Some blk \<Rightarrow> length (filter e_used (b_start blk)))"

definition block_at :: "u64 \<Rightarrow> (nat \<Rightarrow> ('bd, 'ed) block option) \<Rightarrow> nat \<Rightarrow> bool" where
  "block_at n h b \<longleftrightarrow> (case h b of None \<Rightarrow> False | Some blk \<Rightarrow> block_ok n b blk)"

lemma used_in_upd [simp]:
  "used_in (h(b \<mapsto> blk)) c = (if c = b then length (filter e_used (b_start blk)) else used_in h c)"
  "used_in (h(b := None)) c = (if c = b then 0 else used_in h c)"
  by (simp_all add: used_in_def)

lemma block_at_upd [simp]:
  "block_at n (h(b \<mapsto> blk)) c = (if c = b then block_ok n b blk else block_at n h c)"
  "block_at n (h(b := None)) c = (c \<noteq> b \<and> block_at n h c)"
  by (auto simp: block_at_def)

lemma used_in_Some: "h b = Some blk \<Longrightarrow> used_in h b = length (filter e_used (b_start blk))"
  and block_at_Some: "h b = Some blk \<Longrightarrow> block_at n h b = block_ok n b blk"
  by (simp_all add: used_in_def block_at_def)

lemma used_in_frame [simp]: "b \<notin> set bs \<Longrightarrow> map (used_in (h(b := x))) bs = map (used_in h) bs"
  by (auto simp: used_in_def)

lemma block_at_frame [simp]: "b \<notin> set bs \<Longrightarrow> list_all (block_at n (h(b := x))) bs = list_all (block_at n h) bs"
  by (auto simp: block_at_def list_all_iff)

text \<open>
  \<open>pool_wf pr p bs\<close>: the pool's blocks are the list \<open>bs\<close>, in order. \<open>pr\<close> is what the
  first block's \<open>prev\<close> pointer holds: null, or the address of a block that is gone.
\<close>

definition pool_wf :: "nat option \<Rightarrow> ('pd, 'bd, 'ed) pool \<Rightarrow> nat list \<Rightarrow> bool" where
  "pool_wf pr p bs \<longleftrightarrow>
     chain (links (p_heap p)) pr (p_start p) bs None \<and> distinct bs
   \<and> (bs \<noteq> [] \<longrightarrow> p_end p = Some (last bs))
   \<and> (bs = [] \<longrightarrow> pr = None)
   \<and> list_all (block_at (p_block_size p) (p_heap p)) bs
   \<and> (\<forall>b. p_brk p \<le> b \<longrightarrow> p_heap p b = None)
   \<and> (case pr of None \<Rightarrow> True | Some q \<Rightarrow> q < p_brk p \<and> p_heap p q = None)
   \<and> unat (p_block_count p) = length bs
   \<and> unat (p_size p) = sum_list (map (used_in (p_heap p)) bs)
   \<and> p_size p \<le> p_max p \<and> 0 < p_block_size p"

text \<open>Between two calls, every block of the pool holds an element in use.\<close>

definition pool_inv :: "nat option \<Rightarrow> ('pd, 'bd, 'ed) pool \<Rightarrow> nat list \<Rightarrow> bool" where
  "pool_inv pr p bs \<longleftrightarrow> pool_wf pr p bs \<and> list_all (\<lambda>b. 0 < used_in (p_heap p) b) bs"

text \<open>A pool as \<open>main.cc\<close> and \<open>driver.cc\<close> set it up.\<close>

definition empty_pool :: "u64 \<Rightarrow> u64 \<Rightarrow> 'pd \<Rightarrow> ('pd, 'bd, 'ed) pool \<Rightarrow> ('pd, 'bd, 'ed) pool" where
  "empty_pool mx bs d p = p\<lparr>p_max := mx, p_size := 0, p_block_size := bs, p_block_count := 0,
     p_data := d, p_start := None\<rparr>"

text \<open>A new block, all of its elements unused, and the pool with it at the end of the list.\<close>

definition fresh_block :: "u64 \<Rightarrow> nat \<Rightarrow> ('bd, 'ed) block \<Rightarrow> bool" where
  "fresh_block n b blk \<longleftrightarrow> b_element_count blk = 0 \<and> b_next blk = None \<and> b_prev blk = None
     \<and> length (b_start blk) = unat n \<and> list_all (\<lambda>e. \<not> e_used e \<and> e_block e = b) (b_start blk)"

definition grow :: "('bd, 'ed) block \<Rightarrow> ('pd, 'bd, 'ed) pool \<Rightarrow> ('pd, 'bd, 'ed) pool" where
  "grow blk p = (let b = p_brk p; h = (p_heap p)(b \<mapsto> blk) in
     if p_start p = None
     then p\<lparr>p_heap := h, p_brk := Suc b, p_start := Some b, p_end := Some b,
            p_block_count := p_block_count p + 1\<rparr>
     else let e = the (p_end p) in
       p\<lparr>p_heap := h(e \<mapsto> (the (p_heap p e))\<lparr>b_next := Some b\<rparr>, b \<mapsto> blk\<lparr>b_prev := Some e\<rparr>),
         p_brk := Suc b, p_end := Some b, p_block_count := p_block_count p + 1\<rparr>)"

text \<open>A block that was created and, because of an exception, never linked in.\<close>

definition leak :: "('bd, 'ed) block \<Rightarrow> ('pd, 'bd, 'ed) pool \<Rightarrow> ('pd, 'bd, 'ed) pool" where
  "leak blk p = p\<lparr>p_heap := (p_heap p)(p_brk p \<mapsto> blk), p_brk := Suc (p_brk p)\<rparr>"

text \<open>\<open>p->end\<close> points to a block wherever there is one.\<close>

definition end_ok :: "('pd, 'bd, 'ed) pool \<Rightarrow> bool" where
  "end_ok p \<longleftrightarrow> p_heap p (p_brk p) = None \<and>
     (p_start p = None \<or> Option.bind (p_end p) (p_heap p) \<noteq> None)"

lemma grow_first: "p_start p = None \<Longrightarrow> grow blk p = p\<lparr>p_heap := (p_heap p)(p_brk p \<mapsto> blk),
    p_brk := Suc (p_brk p), p_start := Some (p_brk p), p_end := Some (p_brk p),
    p_block_count := p_block_count p + 1\<rparr>"
  by (simp add: grow_def Let_def)

lemma grow_next: "p_start p \<noteq> None \<Longrightarrow> p_end p = Some e \<Longrightarrow> p_heap p e = Some eblk \<Longrightarrow> e \<noteq> p_brk p \<Longrightarrow>
  grow blk p = p\<lparr>p_heap := (p_heap p)(e \<mapsto> eblk\<lparr>b_next := Some (p_brk p)\<rparr>,
      p_brk p \<mapsto> blk\<lparr>b_prev := Some e\<rparr>),
    p_brk := Suc (p_brk p), p_end := Some (p_brk p), p_block_count := p_block_count p + 1\<rparr>"
  by (auto simp: grow_def Let_def fun_upd_twist [of e "p_brk p"])

lemma used_le: "unat n = length es \<Longrightarrow> length (filter e_used es) \<le> unat n"
  by (metis length_filter_le)

text \<open>Linking a new block in.\<close>

lemma add_block_run:
  assumes "end_ok p" and blk: "b_next blk = None" "b_prev blk = None"
  shows "add_block_to_pool (p_brk p) (p\<lparr>p_brk := Suc (p_brk p), p_heap := (p_heap p)(p_brk p \<mapsto> blk)\<rparr>) =
    Some (Inr (), grow blk p)"
proof (cases "p_start p")
  case None
  then show ?thesis by (simp add: add_block_to_pool_def prog_simps grow_first)
next
  case (Some st)
  with assms obtain e eblk where e: "p_end p = Some e" "p_heap p e = Some eblk"
    by (cases "p_end p") (auto simp: end_ok_def)
  with assms have "e \<noteq> p_brk p" by (auto simp: end_ok_def)
  note e = e this
  have "grow blk p = p\<lparr>p_heap := (p_heap p)(e \<mapsto> eblk\<lparr>b_next := Some (p_brk p)\<rparr>,
      p_brk p \<mapsto> blk\<lparr>b_prev := Some e\<rparr>),
    p_brk := Suc (p_brk p), p_end := Some (p_brk p), p_block_count := p_block_count p + 1\<rparr>"
    using Some e by (intro grow_next) auto
  then show ?thesis
    using Some e by (simp add: add_block_to_pool_def prog_simps fun_upd_twist [of e "p_brk p"])
qed

lemma wf_block: "pool_wf pr p bs \<Longrightarrow> b \<in> set bs \<Longrightarrow>
  \<exists>blk. p_heap p b = Some blk \<and> block_ok (p_block_size p) b blk"
  by (auto simp: pool_wf_def list_all_iff block_at_def split: option.splits)

lemma wf_below_brk: "pool_wf pr p bs \<Longrightarrow> b \<in> set bs \<Longrightarrow> b < p_brk p"
  by (metis wf_block leI option.distinct(1) pool_wf_def)

lemma wf_end_ok: "pool_wf pr p bs \<Longrightarrow> end_ok p"
proof -
  assume wf: "pool_wf pr p bs"
  then have "bs \<noteq> [] \<Longrightarrow> \<exists>blk. p_heap p (last bs) = Some blk" by (meson last_in_set wf_block)
  with wf show ?thesis by (cases bs) (auto simp: end_ok_def pool_wf_def)
qed

lemma wf_leak:
  assumes "pool_wf pr p bs" shows "pool_wf pr (leak blk p) bs"
proof -
  have "p_brk p \<notin> set bs" using wf_below_brk [OF assms] by blast
  with assms show ?thesis by (auto simp: pool_wf_def leak_def split: option.splits)
qed

lemma wf_grow:
  assumes wf: "pool_wf pr p bs" and blk: "fresh_block (p_block_size p) (p_brk p) blk"
    and len: "length bs + 1 < 2 ^ 64"
  shows "pool_wf pr (grow blk p) (bs @ [p_brk p])"
proof -
  have new: "p_brk p \<notin> set bs" using wf_below_brk [OF wf] by blast
  have none: "filter e_used (b_start blk) = []"
    using blk by (auto simp: fresh_block_def list_all_iff filter_empty_conv)
  have ok: "block_ok (p_block_size p) (p_brk p) blk"
    using blk none by (auto simp: fresh_block_def block_ok_def list_all_iff)
  have cnt: "unat (p_block_count p + 1) = length bs + 1"
    using wf len by (simp add: pool_wf_def unat_word_ariths)
  show ?thesis
  proof (cases "bs = []")
    case True
    with wf have "p_start p = None" by (simp add: pool_wf_def)
    with wf ok cnt none blk True show ?thesis
      by (auto simp: pool_wf_def grow_first fresh_block_def split: option.splits)
  next
    case False
    then obtain zs a where bs: "bs = zs @ [a]" by (cases bs rule: rev_cases) auto
    from wf bs have "a \<in> set bs" by simp
    with wf obtain ablk where a: "p_heap p a = Some ablk" "block_ok (p_block_size p) a ablk"
      using wf_block by blast
    have "chain ((links (p_heap p))(a \<mapsto> (b_prev ablk, Some (p_brk p)), p_brk p \<mapsto> (Some a, None)))
            pr (p_start p) (bs @ [p_brk p]) None"
      using chain_snoc [of "links (p_heap p)" pr "p_start p" bs "p_brk p"] wf new bs a
      by (simp add: pool_wf_def links_Some)
    moreover from wf False have "p_start p \<noteq> None" "p_end p = Some a"
      using bs by (auto simp: pool_wf_def dest: chain_start split: list.splits)
    moreover have "block_ok (p_block_size p) (p_brk p) (blk\<lparr>b_prev := Some a\<rparr>)"
      "block_ok (p_block_size p) a (ablk\<lparr>b_next := Some (p_brk p)\<rparr>)"
      using ok a by (simp_all add: block_ok_def)
    ultimately show ?thesis
      using wf cnt none blk bs a new
      by (auto simp: pool_wf_def grow_next fresh_block_def used_in_Some split: option.splits)
  qed
qed

lemma inv_empty_pool:
  "0 < n \<Longrightarrow> \<forall>b. p_brk p \<le> b \<longrightarrow> p_heap p b = None \<Longrightarrow> pool_inv None (empty_pool mx n d p) []"
  by (simp add: pool_inv_def pool_wf_def empty_pool_def)

section \<open>The abstract pool\<close>

text \<open>
  Abstractly, a pool is the occupancy of its blocks: a list of rows of flags. Allocation
  takes the first free slot of the first row that has one, or the first slot of a new row.
\<close>

fun first_unused :: "bool list \<Rightarrow> nat option" where
  "first_unused [] = None"
| "first_unused (u # us) = (if u then map_option Suc (first_unused us) else Some 0)"

fun find_slot :: "bool list list \<Rightarrow> (nat \<times> nat) option" where
  "find_slot [] = None"
| "find_slot (row # rows) = (case first_unused row of
       Some i \<Rightarrow> Some (0, i)
     | None \<Rightarrow> map_option (\<lambda>(k, i). (Suc k, i)) (find_slot rows))"

definition spec_alloc :: "nat \<Rightarrow> bool list list \<Rightarrow> bool list list \<times> (nat \<times> nat)" where
  "spec_alloc n rows = (case find_slot rows of
       Some (k, i) \<Rightarrow> (rows[k := (rows ! k)[i := True]], (k, i))
     | None \<Rightarrow> (rows @ [True # replicate (n - 1) False], (length rows, 0)))"

definition spec_free :: "nat \<Rightarrow> nat \<Rightarrow> bool list list \<Rightarrow> bool list list" where
  "spec_free k i rows = (let row = (rows ! k)[i := False] in
     if True \<in> set row then rows[k := row] else take k rows @ drop (Suc k) rows)"

definition row_of :: "(nat \<Rightarrow> ('bd, 'ed) block option) \<Rightarrow> nat \<Rightarrow> bool list" where
  "row_of h b = (case h b of None \<Rightarrow> [] | Some blk \<Rightarrow> map e_used (b_start blk))"

definition occupancy :: "('pd, 'bd, 'ed) pool \<Rightarrow> nat list \<Rightarrow> bool list list" where
  "occupancy p bs = map (row_of (p_heap p)) bs"

lemma row_of_upd [simp]:
  "row_of (h(b \<mapsto> blk)) c = (if c = b then map e_used (b_start blk) else row_of h c)"
  "row_of (h(b := None)) c = (if c = b then [] else row_of h c)"
  by (simp_all add: row_of_def)

lemma row_of_frame [simp]: "b \<notin> set bs \<Longrightarrow> map (row_of (h(b := x))) bs = map (row_of h) bs"
  by (auto simp: row_of_def)

lemma row_of_Some: "h b = Some blk \<Longrightarrow> row_of h b = map e_used (b_start blk)"
  by (simp add: row_of_def)

text \<open>The data of a block and of its elements, which the pool never looks at.\<close>

definition data_of :: "(nat \<Rightarrow> ('bd, 'ed) block option) \<Rightarrow> nat \<Rightarrow> ('bd \<times> 'ed list) option" where
  "data_of h b = map_option (\<lambda>blk. (b_data blk, map e_data (b_start blk))) (h b)"

lemma data_of_upd [simp]:
  "data_of (h(b \<mapsto> blk)) c = (if c = b then Some (b_data blk, map e_data (b_start blk)) else data_of h c)"
  "data_of (h(b := None)) c = (if c = b then None else data_of h c)"
  by (simp_all add: data_of_def)

lemma data_of_Some: "h b = Some blk \<Longrightarrow> data_of h b = Some (b_data blk, map e_data (b_start blk))"
  by (simp add: data_of_def)

lemma map_e_data_update [simp]: "map e_data (es[i := (es ! i)\<lparr>e_used := u\<rparr>]) = map e_data es"
  by (cases "i < length es") (simp_all add: map_update list_update_same_conv list_update_beyond)

lemma used_in_row: "used_in h b = count_list (row_of h b) True"
  by (simp add: used_in_def row_of_def count_list_eq_length_filter filter_map o_def split: option.splits)

lemma first_unused_None: "first_unused us = None \<longleftrightarrow> False \<notin> set us"
  by (induction us) auto

lemma first_unused_Some: "first_unused us = Some i \<Longrightarrow> i < length us \<and> \<not> us ! i"
  by (induction us arbitrary: i) (auto split: if_splits)

lemma find_slot_Some:
  "find_slot rows = Some (k, i) \<Longrightarrow> k < length rows \<and> i < length (rows ! k) \<and> \<not> rows ! k ! i"
  by (induction rows arbitrary: k) (auto split: option.splits dest: first_unused_Some)

lemma scan_unused_first:
  "n = length es \<Longrightarrow> i \<le> n \<Longrightarrow>
   scan_unused es n i = Inr (map_option ((+) i) (first_unused (map e_used (drop i es))))"
proof (induction es n i rule: scan_unused.induct)
  case (1 es n i)
  show ?case
  proof (cases "i < n")
    case True
    then have "drop i es = es ! i # drop (Suc i) es" using "1.prems" by (simp add: Cons_nth_drop_Suc)
    with True "1" show ?thesis
      by (subst scan_unused.simps) (auto simp: option.map_comp o_def)
  next
    case False
    with "1.prems" show ?thesis by (subst scan_unused.simps) simp
  qed
qed

section \<open>Taking an element\<close>

definition take_slot :: "nat \<Rightarrow> nat \<Rightarrow> ('pd, 'bd, 'ed) pool \<Rightarrow> ('pd, 'bd, 'ed) pool" where
  "take_slot b i p = (case p_heap p b of None \<Rightarrow> p | Some blk \<Rightarrow>
     p\<lparr>p_size := p_size p + 1, p_heap := (p_heap p)(b \<mapsto>
       blk\<lparr>b_element_count := b_element_count blk + 1,
           b_start := (b_start blk)[i := (b_start blk ! i)\<lparr>e_used := True\<rparr>]\<rparr>)\<rparr>)"

lemma take_slot_frame [simp]:
  "p_data (take_slot b i p) = p_data p" "p_max (take_slot b i p) = p_max p"
  "p_block_size (take_slot b i p) = p_block_size p" "p_brk (take_slot b i p) = p_brk p"
  "data_of (p_heap (take_slot b i p)) c = data_of (p_heap p) c"
  by (auto simp: take_slot_def data_of_Some split: option.splits)

lemma count_list_update:
  "i < length us \<Longrightarrow> \<not> us ! i \<Longrightarrow> count_list (us[i := True]) True = Suc (count_list us True)"
  "i < length us \<Longrightarrow> us ! i \<Longrightarrow> Suc (count_list (us[i := False]) True) = count_list us True"
  by (induction us arbitrary: i) (auto split: nat.splits)

lemma map_e_used_update: "map e_used (es[i := (es ! i)\<lparr>e_used := u\<rparr>]) = (map e_used es)[i := u]"
  by (simp add: map_update)

lemma count_used: "length (filter e_used es) = count_list (map e_used es) True"
  by (simp add: count_list_eq_length_filter filter_map o_def)

lemma sum_list_update_at:
  assumes "distinct bs" "b \<in> set bs" "\<And>c. c \<noteq> b \<Longrightarrow> g c = f c"
  shows "sum_list (map g bs) + f b = sum_list (map f bs) + (g b :: nat)"
proof -
  obtain xs ys where bs: "bs = xs @ b # ys" using assms(2) by (meson split_list)
  then have "b \<notin> set xs" "b \<notin> set ys" using assms(1) by auto
  then have "sum_list (map g xs) = sum_list (map f xs)" "sum_list (map g ys) = sum_list (map f ys)"
    using assms(3) by (metis map_cong)+
  then show ?thesis by (simp add: bs)
qed

lemma unat_less_64: "unat (x :: u64) < 2 ^ 64"
  using unsigned_less [of x] by simp

lemma wf_take_slot:
  assumes wf: "pool_wf pr p bs" and b: "b \<in> set bs" and blk: "p_heap p b = Some blk"
    and i: "i < length (b_start blk)" "\<not> e_used (b_start blk ! i)" and sz: "p_size p < p_max p"
  shows "pool_wf pr (take_slot b i p) bs"
proof -
  let ?es = "(b_start blk)[i := (b_start blk ! i)\<lparr>e_used := True\<rparr>]"
  let ?blk = "blk\<lparr>b_element_count := b_element_count blk + 1, b_start := ?es\<rparr>"
  let ?h = "(p_heap p)(b \<mapsto> ?blk)"
  from wf b blk have ok: "block_ok (p_block_size p) b blk" using wf_block by fastforce
  have cnt: "length (filter e_used ?es) = Suc (length (filter e_used (b_start blk)))"
    using i by (simp add: count_used map_e_used_update count_list_update del: list_update_id)
  have le: "length (filter e_used ?es) \<le> unat (p_block_size p)"
    using ok length_filter_le [of e_used ?es] by (simp add: block_ok_def)
  have ok': "block_ok (p_block_size p) b ?blk"
  proof -
    have "unat (b_element_count blk) + 1 < 2 ^ 64"
      using cnt le ok unat_less_64 [of "p_block_size p"] by (simp add: block_ok_def)
    then have "unat (b_element_count blk + 1) = length (filter e_used ?es)"
      using ok cnt by (simp add: block_ok_def unat_word_ariths)
    moreover have "list_all (\<lambda>e. e_block e = b) ?es"
      using ok i by (auto simp: block_ok_def list_all_length nth_list_update)
    ultimately show ?thesis using ok by (simp add: block_ok_def)
  qed
  have "sum_list (map (used_in ?h) bs) = Suc (sum_list (map (used_in (p_heap p)) bs))"
    using sum_list_update_at [of bs b "used_in ?h" "used_in (p_heap p)"] wf b cnt blk
    by (simp add: pool_wf_def used_in_Some)
  moreover have size: "unat (p_size p + 1) = Suc (unat (p_size p))"
    using sz unat_less_64 [of "p_max p"] by (simp add: word_less_nat_alt unat_word_ariths)
  moreover have "p_size p + 1 \<le> p_max p"
    using sz size by (simp add: word_less_nat_alt word_le_nat_alt)
  moreover have "links ?h = links (p_heap p)" using blk by (auto simp: links_def)
  moreover have "list_all (block_at (p_block_size p) ?h) bs"
    using wf ok' by (auto simp: pool_wf_def list_all_iff)
  ultimately show ?thesis
    using wf b blk wf_below_brk [OF wf b]
    by (auto simp: pool_wf_def take_slot_def split: option.splits)
qed

lemma occupancy_take_slot:
  assumes "distinct bs" "k < length bs" "p_heap p (bs ! k) = Some blk"
  shows "occupancy (take_slot (bs ! k) i p) bs = (occupancy p bs)[k := (occupancy p bs ! k)[i := True]]"
  using assms by (auto simp: occupancy_def take_slot_def row_of_Some map_e_used_update nth_list_update
      nth_eq_iff_index_eq intro!: nth_equalityI)

section \<open>Freeing\<close>

definition release_slot :: "nat \<Rightarrow> nat \<Rightarrow> ('pd, 'bd, 'ed) pool \<Rightarrow> ('pd, 'bd, 'ed) pool" where
  "release_slot b i p = (case p_heap p b of None \<Rightarrow> p | Some blk \<Rightarrow>
     p\<lparr>p_size := p_size p - 1, p_heap := (p_heap p)(b \<mapsto>
       blk\<lparr>b_element_count := b_element_count blk - 1,
           b_start := (b_start blk)[i := (b_start blk ! i)\<lparr>e_used := False\<rparr>]\<rparr>)\<rparr>)"

lemma release_slot_frame [simp]:
  "p_data (release_slot b i p) = p_data p" "p_max (release_slot b i p) = p_max p"
  "p_block_size (release_slot b i p) = p_block_size p" "p_brk (release_slot b i p) = p_brk p"
  "data_of (p_heap (release_slot b i p)) c = data_of (p_heap p) c"
  by (auto simp: release_slot_def data_of_Some split: option.splits)

lemma wf_release_slot:
  assumes wf: "pool_wf pr p bs" and b: "b \<in> set bs" and blk: "p_heap p b = Some blk"
    and i: "i < length (b_start blk)" "e_used (b_start blk ! i)"
  shows "pool_wf pr (release_slot b i p) bs"
proof -
  let ?es = "(b_start blk)[i := (b_start blk ! i)\<lparr>e_used := False\<rparr>]"
  let ?blk = "blk\<lparr>b_element_count := b_element_count blk - 1, b_start := ?es\<rparr>"
  let ?h = "(p_heap p)(b \<mapsto> ?blk)"
  from wf b blk have ok: "block_ok (p_block_size p) b blk" using wf_block by fastforce
  have cnt: "Suc (length (filter e_used ?es)) = length (filter e_used (b_start blk))"
    using i by (simp add: count_used map_e_used_update count_list_update del: list_update_id)
  have ok': "block_ok (p_block_size p) b ?blk"
  proof -
    have "1 \<le> b_element_count blk" using cnt ok by (simp add: block_ok_def word_le_nat_alt)
    then have "unat (b_element_count blk - 1) = length (filter e_used ?es)"
      using ok cnt by (simp add: block_ok_def unat_sub)
    moreover have "list_all (\<lambda>e. e_block e = b) ?es"
      using ok i by (auto simp: block_ok_def list_all_length nth_list_update)
    ultimately show ?thesis using ok by (simp add: block_ok_def)
  qed
  have sum: "Suc (sum_list (map (used_in ?h) bs)) = sum_list (map (used_in (p_heap p)) bs)"
    using sum_list_update_at [of bs b "used_in ?h" "used_in (p_heap p)"] wf b cnt blk
    by (simp add: pool_wf_def used_in_Some)
  then have "1 \<le> p_size p" using wf by (simp add: pool_wf_def word_le_nat_alt)
  then have "unat (p_size p - 1) = sum_list (map (used_in ?h) bs)" "p_size p - 1 \<le> p_max p"
    using wf sum by (auto simp: pool_wf_def unat_sub word_le_nat_alt)
  moreover have "links ?h = links (p_heap p)" using blk by (auto simp: links_def)
  moreover have "list_all (block_at (p_block_size p) ?h) bs"
    using wf ok' by (auto simp: pool_wf_def list_all_iff)
  ultimately show ?thesis
    using wf b blk wf_below_brk [OF wf b]
    by (auto simp: pool_wf_def release_slot_def split: option.splits)
qed

lemma occupancy_release_slot:
  assumes "distinct bs" "k < length bs" "p_heap p (bs ! k) = Some blk"
  shows "occupancy (release_slot (bs ! k) i p) bs = (occupancy p bs)[k := (occupancy p bs ! k)[i := False]]"
  using assms by (auto simp: occupancy_def release_slot_def row_of_Some map_e_used_update nth_list_update
      nth_eq_iff_index_eq intro!: nth_equalityI)

section \<open>Unlinking a block\<close>

text \<open>The pool once a block is unlinked and its memory given back.\<close>

definition unlink :: "nat list \<Rightarrow> nat \<Rightarrow> nat list \<Rightarrow> ('pd, 'bd, 'ed) pool \<Rightarrow> ('pd, 'bd, 'ed) pool" where
  "unlink xs b ys p = (let h = p_heap p in
     p\<lparr>p_block_count := p_block_count p - 1,
       p_start := (if xs = [] then (case ys of [] \<Rightarrow> None | y # _ \<Rightarrow> Some y) else p_start p),
       p_end := (if xs \<noteq> [] \<and> ys = [] then Some (last xs) else p_end p),
       p_heap := (if xs = [] then h else case ys of
           [] \<Rightarrow> h(last xs \<mapsto> (the (h (last xs)))\<lparr>b_next := None\<rparr>)
         | y # _ \<Rightarrow> h(last xs \<mapsto> (the (h (last xs)))\<lparr>b_next := Some y\<rparr>,
                      y \<mapsto> (the (h y))\<lparr>b_prev := Some (last xs)\<rparr>))\<rparr>)"

lemma remove_block_run:
  assumes wf: "pool_wf pr p (xs @ b # ys)" and pr: "xs = [] \<longrightarrow> pr = None"
  shows "remove_block_from_pool b p = Some (Inr (), unlink xs b ys p)"
proof -
  from wf have mid: "links (p_heap p) b = Some (last_or pr xs, case ys of [] \<Rightarrow> None | y # _ \<Rightarrow> Some y)"
    and d: "distinct (xs @ b # ys)"
    by (auto simp: pool_wf_def dest: chain_middle)
  then obtain blk where blk: "p_heap p b = Some blk" "b_prev blk = last_or pr xs"
      "b_next blk = (case ys of [] \<Rightarrow> None | y # _ \<Rightarrow> Some y)"
    by (auto simp: links_def)
  show ?thesis
  proof (cases "xs = []")
    case True
    with blk pr show ?thesis
      by (cases ys) (simp_all add: remove_block_from_pool_def prog_simps unlink_def Let_def)
  next
    case False
    then have "last xs \<in> set (xs @ b # ys)" by simp
    with wf obtain lb where lb: "p_heap p (last xs) = Some lb" using wf_block by blast
    have prev: "b_prev blk = Some (last xs)" using blk False by (simp add: last_or_def)
    show ?thesis
    proof (cases ys)
      case Nil
      with blk(1,3) prev lb False show ?thesis
        by (simp add: remove_block_from_pool_def prog_simps unlink_def Let_def)
    next
      case (Cons y zs)
      then obtain yb where "p_heap p y = Some yb" using wf wf_block [OF wf, of y] by auto
      moreover have "y \<noteq> last xs" using d Cons False by auto
      ultimately show ?thesis
        using blk(1,3) prev lb False Cons
        by (simp add: remove_block_from_pool_def prog_simps unlink_def Let_def)
    qed
  qed
qed

lemma unlink_frame [simp]:
  "p_size (unlink xs b ys p) = p_size p" "p_max (unlink xs b ys p) = p_max p"
  "p_block_size (unlink xs b ys p) = p_block_size p" "p_data (unlink xs b ys p) = p_data p"
  "p_brk (unlink xs b ys p) = p_brk p"
  by (simp_all add: unlink_def Let_def)

lemma wf_unlink:
  assumes wf: "pool_wf pr p (xs @ b # ys)" and pr: "xs = [] \<longrightarrow> pr = None" and none: "used_in (p_heap p) b = 0"
  defines "q \<equiv> unlink xs b ys p"
  shows "pool_wf (if xs = [] \<and> ys \<noteq> [] then Some b else pr)
           (q\<lparr>p_heap := (p_heap q)(b := None)\<rparr>) (xs @ ys)"
proof -
  have d: "distinct (xs @ b # ys)" and ch: "chain (links (p_heap p)) pr (p_start p) (xs @ b # ys) None"
    using wf by (simp_all add: pool_wf_def)
  have cnt: "unat (p_block_count p - 1) = length (xs @ ys)"
  proof -
    have c: "unat (p_block_count p) = Suc (length (xs @ ys))" using wf by (simp add: pool_wf_def)
    then have "1 \<le> p_block_count p" by (simp add: word_le_nat_alt)
    with c show ?thesis by (simp add: unat_sub)
  qed
  have b: "b < p_brk p" using wf_below_brk [OF wf, of b] by simp
  show ?thesis
  proof (cases "xs = []")
    case True
    with ch d have "chain (links (p_heap p)) (Some b) (case ys of [] \<Rightarrow> None | y # _ \<Rightarrow> Some y) ys None"
      by (auto split: option.splits) (frule chain_start, simp)
    with True wf pr none d cnt b show ?thesis
      by (auto simp: q_def unlink_def Let_def pool_wf_def split: list.splits)
  next
    case False
    then obtain zs a where xs: "xs = zs @ [a]" by (cases xs rule: rev_cases) auto
    from wf_block [OF wf, of a] xs obtain ab where a: "p_heap p a = Some ab" "block_ok (p_block_size p) a ab"
      by auto
    have start: "p_start p = (case xs @ b # ys of [] \<Rightarrow> None | c # _ \<Rightarrow> Some c)" using ch by (rule chain_start)
    show ?thesis
    proof (cases ys)
      case Nil
      have "chain ((links (p_heap p))(a \<mapsto> (b_prev ab, None))) pr (p_start p) xs None"
        using chain_unlink_last [of "links (p_heap p)" pr "p_start p" xs b] ch d Nil xs a
        by (simp add: links_Some)
      moreover have "block_ok (p_block_size p) a (ab\<lparr>b_next := None\<rparr>)"
        using a by (simp add: block_ok_def)
      ultimately show ?thesis using wf none d cnt b Nil xs a
        by (auto simp: q_def unlink_def Let_def pool_wf_def used_in_Some split: option.splits)
    next
      case (Cons y ws)
      from wf_block [OF wf, of y] Cons obtain yb
        where y: "p_heap p y = Some yb" "block_ok (p_block_size p) y yb" by auto
      have "chain ((links (p_heap p))(a \<mapsto> (b_prev ab, Some y), y \<mapsto> (Some a, b_next yb))) pr (p_start p) (xs @ y # ws) None"
        using chain_unlink_middle [of "links (p_heap p)" pr "p_start p" xs b y ws] ch d Cons xs a y
        by (simp add: links_Some)
      moreover have "block_ok (p_block_size p) a (ab\<lparr>b_next := Some y\<rparr>)"
        "block_ok (p_block_size p) y (yb\<lparr>b_prev := Some a\<rparr>)"
        using a y by (simp_all add: block_ok_def)
      moreover have "a \<noteq> y" using d xs Cons by auto
      ultimately show ?thesis using wf none d cnt b Cons xs a y
        by (auto simp: q_def unlink_def Let_def pool_wf_def used_in_Some split: option.splits)
    qed
  qed
qed

lemma row_of_unlink:
  assumes wf: "pool_wf pr p (xs @ b # ys)" and c: "c \<in> set (xs @ ys)"
  shows "row_of ((p_heap (unlink xs b ys p))(b := None)) c = row_of (p_heap p) c"
proof -
  have "\<exists>blk. p_heap p a = Some blk" if "a \<in> set (xs @ b # ys)" for a using wf_block [OF wf that] by blast
  moreover have "c \<noteq> b" using wf c by (auto simp: pool_wf_def)
  ultimately show ?thesis
    by (auto simp: unlink_def Let_def row_of_def split: list.splits option.splits)
      (metis last_in_set option.distinct(1) option.inject Un_iff set_append)+
qed

lemma data_of_unlink:
  assumes wf: "pool_wf pr p (xs @ b # ys)" and c: "c \<in> set (xs @ ys)"
  shows "data_of ((p_heap (unlink xs b ys p))(b := None)) c = data_of (p_heap p) c"
proof -
  have "\<exists>blk. p_heap p a = Some blk" if "a \<in> set (xs @ b # ys)" for a using wf_block [OF wf that] by blast
  moreover have "c \<noteq> b" using wf c by (auto simp: pool_wf_def)
  moreover have "xs \<noteq> [] \<Longrightarrow> last xs \<in> set (xs @ b # ys)" "ys = y # zs \<Longrightarrow> y \<in> set (xs @ b # ys)" for y zs
    by simp_all
  ultimately show ?thesis
    by (cases "xs = []"; cases ys) (fastforce simp: unlink_def Let_def data_of_def)+
qed

text \<open>
  The head block after a head block has gone: its \<open>prev\<close> pointer still leads to the freed
  block, so that unlinking it goes through a dangling pointer.
\<close>

lemma remove_stale_head:
  assumes wf: "pool_wf (Some q) p (b # ys)"
  shows "remove_block_from_pool b p = Some (Inl (Undefined ''block pointer''), p)"
proof -
  from wf have "links (p_heap p) b = Some (Some q, case ys of [] \<Rightarrow> None | y # _ \<Rightarrow> Some y)"
    using chain_middle [of "links (p_heap p)" "Some q" "p_start p" "[]"] by (simp add: pool_wf_def)
  then obtain blk where "p_heap p b = Some blk" "b_prev blk = Some q" by (auto simp: links_def)
  moreover from wf have "p_heap p q = None" by (simp add: pool_wf_def)
  ultimately show ?thesis by (auto simp: remove_block_from_pool_def prog_simps)
qed

end
