(* ===== verification/Pool_Correct.thy ===== *)
theory Pool_Correct
  imports Pool_Invariant
begin

text \<open>
  The correctness of the pool: the interface its callbacks have to meet, as a locale, and
  in it the contracts of \<open>alloc_page\<close> and \<open>free_page\<close>.
\<close>

section \<open>What the callbacks must do\<close>

text \<open>
  The interface the pool relies on: \<open>alloc_block\<close> always ends; it links a fresh block in
  at the end of the list, its data as the client wants it (\<open>data_ok\<close>, which may depend on
  the environment it was called in), or fails with an
  exception and leaves the list alone.
\<close>

locale block_allocator =
  fixes alloc_block :: "('pd, 'bd, 'ed, 's, unit) pool_prog"
    and data_ok :: "'s \<Rightarrow> 'pd \<Rightarrow> 'bd \<Rightarrow> 'ed list \<Rightarrow> bool"
  assumes alloc_block_ok: "end_ok p \<Longrightarrow> alloc_block (p, s) = Some (Inr u, (p', s')) \<Longrightarrow>
      \<exists>blk. fresh_block (p_block_size p) (p_brk p) blk \<and> p' = grow blk p
        \<and> data_ok s (p_data p) (b_data blk) (map e_data (b_start blk))"
    and alloc_block_error: "end_ok p \<Longrightarrow> alloc_block (p, s) = Some (Inl e, (p', s')) \<Longrightarrow>
      \<exists>blk. p' = leak blk p"
    and alloc_block_returns: "end_ok p \<Longrightarrow> alloc_block (p, s) \<noteq> None"

text \<open>
  \<open>free_block\<close> unlinks the block and then frees it; if an exception interrupts it, the
  block is unlinked or the unlinking itself has failed.
\<close>

locale block_provider = block_allocator +
  fixes free_block :: "nat \<Rightarrow> ('pd, 'bd, 'ed, 's, unit) pool_prog"
  assumes free_block_ok: "free_block b (p, s) = Some (Inr u, (p', s')) \<Longrightarrow>
      \<exists>q. remove_block_from_pool b p = Some (Inr (), q) \<and> p' = q\<lparr>p_heap := (p_heap q)(b := None)\<rparr>"
    and free_block_error: "free_block b (p, s) = Some (Inl e, (p', s')) \<Longrightarrow>
      remove_block_from_pool b p = Some (Inl e, p') \<or> remove_block_from_pool b p = Some (Inr (), p')"
    and free_block_returns: "remove_block_from_pool b p \<noteq> None \<Longrightarrow> free_block b (p, s) \<noteq> None"

section \<open>Allocation\<close>

lemma alloc_round_free:
  assumes wf: "pool_wf pr p bs" and b: "b \<in> set bs" and i: "first_unused (row_of (p_heap p) b) = Some i"
  shows "alloc_round ab (Some b) (p, s) = Some (Inr (Inl (b, i)), (take_slot b i p, s))"
proof -
  from wf b obtain blk where blk: "p_heap p b = Some blk" "block_ok (p_block_size p) b blk"
    using wf_block by blast
  from i blk have "i < length (b_start blk)" "\<not> e_used (b_start blk ! i)"
    by (auto simp: row_of_Some dest!: first_unused_Some)
  then have "length (filter e_used (b_start blk)) < length (b_start blk)"
    by (metis length_filter_less nth_mem)
  then have "b_element_count blk < p_block_size p"
    using blk by (simp add: block_ok_def word_less_nat_alt)
  moreover have "scan_unused (b_start blk) (unat (p_block_size p)) 0 = Inr (Some i)"
    using blk i by (simp add: scan_unused_first block_ok_def row_of_Some)
  ultimately show ?thesis
    using blk by (simp add: alloc_round_def prog_simps take_slot_def)
qed

lemma alloc_round_full:
  assumes wf: "pool_wf pr p bs" and b: "b \<in> set bs" and full: "first_unused (row_of (p_heap p) b) = None"
  shows "alloc_round ab (Some b) (p, s) =
    andthen (if b_next (the (p_heap p b)) = None then ab else ret ())
      (bnd (on_pool (get_block (Some b))) (\<lambda>blk'. ret (Inr (b_next blk')))) (p, s)"
proof -
  from wf b obtain blk where blk: "p_heap p b = Some blk" "block_ok (p_block_size p) b blk"
    using wf_block by blast
  from full blk have "filter e_used (b_start blk) = b_start blk"
    by (auto simp: row_of_Some first_unused_None)
  with blk have "\<not> b_element_count blk < p_block_size p"
    by (simp add: block_ok_def word_less_nat_alt)
  with blk show ?thesis by (simp add: alloc_round_def prog_simps)
qed

lemma wf_next:
  assumes wf: "pool_wf pr p (pre @ b # suf)"
  shows "\<exists>blk. p_heap p b = Some blk \<and> b_next blk = (case suf of [] \<Rightarrow> None | c # _ \<Rightarrow> Some c)"
proof -
  from wf have "links (p_heap p) b = Some (last_or pr pre, case suf of [] \<Rightarrow> None | c # _ \<Rightarrow> Some c)"
    by (auto simp: pool_wf_def dest: chain_middle)
  then show ?thesis by (auto simp: links_def)
qed

text \<open>The walk over the block list, when a slot is free and when none is.\<close>

lemma walk_found:
  assumes "pool_wf pr p (pre @ suf)" and "find_slot (map (row_of (p_heap p)) suf) = Some (k, i)"
  shows "loop (alloc_round ab) (Some (hd suf)) (p, s) = Some (Inr (suf ! k, i), (take_slot (suf ! k) i p, s))"
  using assms
proof (induction suf arbitrary: pre k)
  case (Cons b suf)
  show ?case
  proof (cases "first_unused (row_of (p_heap p) b)")
    case (Some j)
    with Cons.prems alloc_round_free [OF Cons.prems(1) _ Some, where ab = ab and s = s]
    show ?thesis by (simp add: loop_leave)
  next
    case None
    with Cons.prems obtain k' where k: "k = Suc k'"
      and f: "find_slot (map (row_of (p_heap p)) suf) = Some (k', i)" by auto
    then obtain c cs where suf: "suf = c # cs" by (cases suf) auto
    from wf_next [OF Cons.prems(1)] suf obtain blk where blk: "p_heap p b = Some blk" "b_next blk = Some c"
      by auto
    with alloc_round_full [OF Cons.prems(1) _ None, where ab = ab and s = s]
    have "alloc_round ab (Some b) (p, s) = Some (Inr (Inr (Some c)), (p, s))"
      by (simp add: prog_simps)
    then have "loop (alloc_round ab) (Some b) (p, s) = loop (alloc_round ab) (Some (hd suf)) (p, s)"
      using suf by (simp add: loop_again)
    with Cons.IH [of "pre @ [b]" k'] Cons.prems(1) f k show ?thesis by simp
  qed
qed simp

lemma first_unused_fresh:
  assumes "fresh_block n b blk" "0 < n"
  shows "first_unused (map e_used (b_start blk)) = Some 0"
    and "map e_used (b_start blk) = False # replicate (unat n - 1) False"
proof -
  have "map e_used (b_start blk) = replicate (unat n) False"
    using assms(1) by (auto simp: fresh_block_def list_all_length intro!: nth_equalityI)
  moreover have "unat n = Suc (unat n - 1)" using assms(2) by (simp add: unat_gt_0)
  ultimately show "map e_used (b_start blk) = False # replicate (unat n - 1) False"
    by (metis replicate_Suc)
  then show "first_unused (map e_used (b_start blk)) = Some 0" by simp
qed

lemma grow_frame [simp]:
  "p_size (grow blk p) = p_size p" "p_max (grow blk p) = p_max p"
  "p_block_size (grow blk p) = p_block_size p" "p_data (grow blk p) = p_data p"
  by (simp_all add: grow_def Let_def)

lemma row_of_grow:
  assumes "pool_wf pr p bs"
  shows "b \<in> set bs \<Longrightarrow> row_of (p_heap (grow blk p)) b = row_of (p_heap p) b"
    and "row_of (p_heap (grow blk p)) (p_brk p) = map e_used (b_start blk)"
proof -
  show "row_of (p_heap (grow blk p)) (p_brk p) = map e_used (b_start blk)"
    by (simp add: grow_def Let_def)
  assume b: "b \<in> set bs"
  with wf_below_brk [OF assms] have "b \<noteq> p_brk p" by blast
  moreover from b have "last bs \<in> set bs" by (metis last_in_set empty_iff set_empty)
  with assms have "p_heap p (last bs) \<noteq> None" "p_end p = Some (last bs)" "last bs \<noteq> p_brk p"
    using wf_block [OF assms, of "last bs"] wf_below_brk [OF assms, of "last bs"]
    by (auto simp: pool_wf_def)
  ultimately show "row_of (p_heap (grow blk p)) b = row_of (p_heap p) b"
    by (auto simp: grow_def Let_def row_of_Some)
qed

lemma data_of_grow:
  assumes "pool_wf pr p bs"
  shows "b \<in> set bs \<Longrightarrow> data_of (p_heap (grow blk p)) b = data_of (p_heap p) b"
    and "data_of (p_heap (grow blk p)) (p_brk p) = Some (b_data blk, map e_data (b_start blk))"
proof -
  show "data_of (p_heap (grow blk p)) (p_brk p) = Some (b_data blk, map e_data (b_start blk))"
    by (simp add: grow_def Let_def)
  assume b: "b \<in> set bs"
  with wf_below_brk [OF assms] have "b \<noteq> p_brk p" by blast
  moreover from b have "last bs \<in> set bs" by (metis last_in_set empty_iff set_empty)
  with assms have "p_heap p (last bs) \<noteq> None" "p_end p = Some (last bs)" "last bs \<noteq> p_brk p"
    using wf_block [OF assms, of "last bs"] wf_below_brk [OF assms, of "last bs"]
    by (auto simp: pool_wf_def)
  ultimately show "data_of (p_heap (grow blk p)) b = data_of (p_heap p) b"
    by (auto simp: grow_def Let_def data_of_Some)
qed

lemma grow_round:
  assumes wf: "pool_wf pr p bs" and blk: "fresh_block (p_block_size p) (p_brk p) blk"
    and len: "length bs + 1 < 2 ^ 64"
  shows "loop (alloc_round ab) (Some (p_brk p)) (grow blk p, s) =
     Some (Inr (p_brk p, 0), (take_slot (p_brk p) 0 (grow blk p), s))"
proof -
  have "0 < p_block_size p" using wf by (simp add: pool_wf_def)
  then have "find_slot (map (row_of (p_heap (grow blk p))) [p_brk p]) = Some (0, 0)"
    using row_of_grow(2) [OF wf, of blk] first_unused_fresh(1) [OF blk] by simp
  with wf_grow [OF wf blk len] show ?thesis
    using walk_found [of pr "grow blk p" bs "[p_brk p]" 0 0] by simp
qed

lemma used_le_size: "pool_inv pr p bs \<Longrightarrow> length bs \<le> unat (p_size p)"
proof -
  assume inv: "pool_inv pr p bs"
  have "list_all (\<lambda>b. 0 < f b) bs \<Longrightarrow> length bs \<le> sum_list (map f bs)" for f :: "nat \<Rightarrow> nat"
    by (induction bs) auto
  with inv show ?thesis by (simp add: pool_inv_def pool_wf_def)
qed

text \<open>
  The contract of \<open>alloc_page\<close>: what it returns, what becomes of the invariant, and that
  it implements the abstract allocation.
\<close>

definition data_kept :: "('pd, 'bd, 'ed) pool \<Rightarrow> ('pd, 'bd, 'ed) pool \<Rightarrow> nat list \<Rightarrow> bool" where
  "data_kept p p' bs \<longleftrightarrow> p_data p' = p_data p \<and> p_max p' = p_max p \<and> p_block_size p' = p_block_size p
     \<and> list_all (\<lambda>b. data_of (p_heap p') b = data_of (p_heap p) b) bs"

definition alloc_post :: "('pd \<Rightarrow> 'bd \<Rightarrow> 'ed list \<Rightarrow> bool) \<Rightarrow> nat option \<Rightarrow> ('pd, 'bd, 'ed) pool \<Rightarrow>
    nat list \<Rightarrow> error + (nat \<times> nat) option \<Rightarrow> ('pd, 'bd, 'ed) pool \<Rightarrow> bool" where
  "alloc_post D pr p bs r p' = (case r of
     Inl e \<Rightarrow> p_size p < p_max p \<and> pool_inv pr p' bs \<and> occupancy p' bs = occupancy p bs
       \<and> p_size p' = p_size p \<and> data_kept p p' bs
   | Inr None \<Rightarrow> p_size p = p_max p \<and> p' = p
   | Inr (Some e) \<Rightarrow> p_size p < p_max p \<and> p_size p' = p_size p + 1 \<and> data_kept p p' bs
       \<and> (\<exists>bs' k i. (bs' = bs \<or> bs' = bs @ [p_brk p] \<and>
             (\<exists>bd eds. data_of (p_heap p') (p_brk p) = Some (bd, eds) \<and> D (p_data p) bd eds))
           \<and> pool_inv pr p' bs' \<and> k < length bs' \<and> e = (bs' ! k, i)
           \<and> spec_alloc (unat (p_block_size p)) (occupancy p bs) = (occupancy p' bs', (k, i))))"

lemma size_take_slot: "p_heap p b \<noteq> None \<Longrightarrow> p_size (take_slot b i p) = p_size p + 1"
  by (auto simp: take_slot_def)

lemma used_in_occ: "list_all (\<lambda>b. 0 < used_in (p_heap p) b) bs \<longleftrightarrow> list_all (\<lambda>row. True \<in> set row) (occupancy p bs)"
  by (auto simp: occupancy_def list_all_iff used_in_row count_list_0_iff simp flip: neq0_conv)

lemma alloc_post_found:
  assumes inv: "pool_inv pr p bs" and sz: "p_size p < p_max p" and f: "find_slot (occupancy p bs) = Some (k, i)"
  shows "alloc_post D pr p bs (Inr (Some (bs ! k, i))) (take_slot (bs ! k) i p)"
proof -
  have wf: "pool_wf pr p bs" using inv by (simp add: pool_inv_def)
  from find_slot_Some [OF f] have k: "k < length bs" and i: "i < length (occupancy p bs ! k)" "\<not> occupancy p bs ! k ! i"
    by (auto simp: occupancy_def)
  from wf_block [OF wf] k obtain blk where blk: "p_heap p (bs ! k) = Some blk" by (meson nth_mem)
  have wf': "pool_wf pr (take_slot (bs ! k) i p) bs"
    using i k blk sz by (intro wf_take_slot [OF wf _ blk]) (auto simp: occupancy_def row_of_Some)
  have occ: "occupancy (take_slot (bs ! k) i p) bs = (occupancy p bs)[k := (occupancy p bs ! k)[i := True]]"
    using wf k blk by (intro occupancy_take_slot) (auto simp: pool_wf_def)
  have "list_all (\<lambda>row. True \<in> set row) ((occupancy p bs)[k := (occupancy p bs ! k)[i := True]])"
    using inv i k unfolding pool_inv_def used_in_occ
    by (auto simp: list_all_length nth_list_update set_update_memI occupancy_def)
  with wf' occ have "pool_inv pr (take_slot (bs ! k) i p) bs" by (simp add: pool_inv_def used_in_occ)
  moreover have "spec_alloc (unat (p_block_size p)) (occupancy p bs) =
      (occupancy (take_slot (bs ! k) i p) bs, (k, i))"
    using f occ by (simp add: spec_alloc_def)
  ultimately show ?thesis
    using k sz blk by (auto simp: alloc_post_def data_kept_def list_all_iff size_take_slot)
qed

lemma alloc_post_new:
  assumes inv: "pool_inv pr p bs" and sz: "p_size p < p_max p" and f: "find_slot (occupancy p bs) = None"
    and blk: "fresh_block (p_block_size p) (p_brk p) blk" and D: "D (p_data p) (b_data blk) (map e_data (b_start blk))"
  shows "alloc_post D pr p bs (Inr (Some (p_brk p, 0))) (take_slot (p_brk p) 0 (grow blk p))"
proof -
  let ?q = "take_slot (p_brk p) 0 (grow blk p)" and ?bs = "bs @ [p_brk p]"
  have wf: "pool_wf pr p bs" using inv by (simp add: pool_inv_def)
  have len: "length bs + 1 < 2 ^ 64"
    using sz used_le_size [OF inv] unat_less_64 [of "p_max p"] by (simp add: word_less_nat_alt)
  note wf1 = wf_grow [OF wf blk len] and fresh = first_unused_fresh [OF blk]
  have n: "0 < p_block_size p" using wf by (simp add: pool_wf_def)
  obtain nblk where nblk: "p_heap (grow blk p) (p_brk p) = Some nblk" "b_start nblk = b_start blk"
    by (cases "p_start p") (simp_all add: grow_def Let_def)
  have occ1: "occupancy (grow blk p) ?bs = occupancy p bs @ [False # replicate (unat (p_block_size p) - 1) False]"
    using row_of_grow [OF wf] fresh(2) [OF n] by (auto simp: occupancy_def)
  have i: "0 < length (b_start nblk)" "\<not> e_used (b_start nblk ! 0)"
    using fresh(2) [OF n] nblk by (cases "b_start blk"; auto)+
  have wf2: "pool_wf pr ?q ?bs"
    using i sz by (intro wf_take_slot [OF wf1 _ nblk(1)]) auto
  have "occupancy ?q ?bs = (occupancy (grow blk p) ?bs)[length bs := (occupancy (grow blk p) ?bs ! length bs)[0 := True]]"
    using occupancy_take_slot [of ?bs "length bs" "grow blk p" nblk 0] wf1 nblk by (simp add: pool_wf_def nth_append)
  then have occ: "occupancy ?q ?bs = occupancy p bs @ [True # replicate (unat (p_block_size p) - 1) False]"
    using occ1 by (simp add: occupancy_def nth_append list_update_append)
  with wf2 inv have "pool_inv pr ?q ?bs" by (simp add: pool_inv_def used_in_occ)
  moreover have "spec_alloc (unat (p_block_size p)) (occupancy p bs) = (occupancy ?q ?bs, (length bs, 0))"
    using f occ by (simp add: spec_alloc_def occupancy_def)
  moreover have "p_size ?q = p_size p + 1" using nblk by (simp add: size_take_slot)
  moreover have "data_kept p ?q bs"
    using data_of_grow(1) [OF wf] by (auto simp: data_kept_def list_all_iff)
  moreover have "data_of (p_heap ?q) (p_brk p) = Some (b_data blk, map e_data (b_start blk))"
    using data_of_grow(2) [OF wf] by simp
  ultimately show ?thesis
    using sz D unfolding alloc_post_def
    by (simp, intro exI [of _ ?bs] conjI exI [of _ "length bs"]) simp_all
qed

lemma alloc_post_error:
  assumes inv: "pool_inv pr p bs" and sz: "p_size p < p_max p"
  shows "alloc_post D pr p bs (Inl e) (leak blk p)"
proof -
  have wf: "pool_wf pr p bs" using inv by (simp add: pool_inv_def)
  have "p_brk p \<notin> set bs" using wf_below_brk [OF wf] by blast
  then have "occupancy (leak blk p) bs = occupancy p bs" "data_kept p (leak blk p) bs"
    by (auto simp add: occupancy_def leak_def data_kept_def list_all_iff)
  with inv sz wf_leak [OF wf] show ?thesis
    by (simp add: alloc_post_def pool_inv_def used_in_occ) (simp add: leak_def)
qed

context block_allocator
begin

lemma alloc_block_cases:
  assumes "end_ok p"
  obtains (linked) blk s' where "alloc_block (p, s) = Some (Inr (), (grow blk p, s'))"
      "fresh_block (p_block_size p) (p_brk p) blk" "data_ok s (p_data p) (b_data blk) (map e_data (b_start blk))"
    | (failed) e blk s' where "alloc_block (p, s) = Some (Inl e, (leak blk p, s'))"
proof -
  obtain r p' s' where run: "alloc_block (p, s) = Some (r, (p', s'))"
    using alloc_block_returns [OF assms] by (metis not_Some_eq prod.exhaust)
  show thesis
  proof (cases r)
    case (Inl e)
    with run alloc_block_error [OF assms] failed show thesis by metis
  next
    case (Inr u)
    with run alloc_block_ok [OF assms] linked show thesis by (metis old.unit.exhaust)
  qed
qed

lemma walk_full:
  assumes wf: "pool_wf pr p (pre @ suf)" and ne: "suf \<noteq> []"
    and full: "find_slot (map (row_of (p_heap p)) suf) = None"
    and len: "length (pre @ suf) + 1 < 2 ^ 64"
  shows "(\<exists>blk s'. fresh_block (p_block_size p) (p_brk p) blk \<and> data_ok s (p_data p) (b_data blk) (map e_data (b_start blk)) \<and>
            loop (alloc_round alloc_block) (Some (hd suf)) (p, s) =
            Some (Inr (p_brk p, 0), (take_slot (p_brk p) 0 (grow blk p), s')))
       \<or> (\<exists>e blk s'. loop (alloc_round alloc_block) (Some (hd suf)) (p, s) = Some (Inl e, (leak blk p, s'))
            \<and> alloc_block (p, s) = Some (Inl e, (leak blk p, s')))"
  using assms
proof (induction suf arbitrary: pre)
  case (Cons b suf)
  from Cons.prems have none: "first_unused (row_of (p_heap p) b) = None"
    and rest: "find_slot (map (row_of (p_heap p)) suf) = None"
    by (auto split: option.splits)
  note round = alloc_round_full [OF Cons.prems(1) _ none, where ab = alloc_block and s = s]
  from wf_next [OF Cons.prems(1)] obtain blk
    where blk: "p_heap p b = Some blk" "b_next blk = (case suf of [] \<Rightarrow> None | c # _ \<Rightarrow> Some c)"
    by blast
  show ?case
  proof (cases suf)
    case (Cons c cs)
    with blk round have "alloc_round alloc_block (Some b) (p, s) = Some (Inr (Inr (Some c)), (p, s))"
      by (simp add: prog_simps)
    then have "loop (alloc_round alloc_block) (Some b) (p, s) = loop (alloc_round alloc_block) (Some (hd suf)) (p, s)"
      using Cons by (simp add: loop_again)
    with Cons.IH [of "pre @ [b]"] Cons.prems rest Cons show ?thesis by simp
  next
    case Nil
    with blk round have round: "alloc_round alloc_block (Some b) (p, s) =
        andthen alloc_block (bnd (on_pool (get_block (Some b))) (\<lambda>blk'. ret (Inr (b_next blk')))) (p, s)"
      by simp
    from wf_end_ok [OF Cons.prems(1)] show ?thesis
    proof (cases rule: alloc_block_cases [where s = s])
      case (failed e blk' s')
      with round show ?thesis by (auto simp: prog_simps)
    next
      case (linked blk' s')
      have wf': "pool_wf pr (grow blk' p) ((pre @ [b]) @ [p_brk p])"
        using wf_grow [OF Cons.prems(1) linked(2) Cons.prems(4)] Nil by simp
      from wf_next [of pr "grow blk' p" pre b "[p_brk p]"] wf'
      have "alloc_round alloc_block (Some b) (p, s) = Some (Inr (Inr (Some (p_brk p))), (grow blk' p, s'))"
        using round linked(1) by (auto simp: prog_simps)
      then have "loop (alloc_round alloc_block) (Some b) (p, s) =
          loop (alloc_round alloc_block) (Some (p_brk p)) (grow blk' p, s')"
        by (rule loop_again)
      with grow_round [OF Cons.prems(1) linked(2) Cons.prems(4), where ab = alloc_block and s = s'] linked(2,3)
      show ?thesis by (intro disjI1) auto
    qed
  qed
qed simp

text \<open>
  What \<open>alloc_page\<close> does, in full: null when the pool is at its limit; else the first free
  slot; else the first slot of a new block, or the callback's exception.
\<close>

lemma alloc_page_full:
  "p_size p = p_max p \<Longrightarrow> alloc_page alloc_block (p, s) = Some (Inr None, (p, s))"
  by (simp add: alloc_page_def prog_simps)

lemma alloc_page_found:
  assumes inv: "pool_inv pr p bs" and sz: "p_size p \<noteq> p_max p"
    and f: "find_slot (occupancy p bs) = Some (k, i)"
  shows "alloc_page alloc_block (p, s) = Some (Inr (Some (bs ! k, i)), (take_slot (bs ! k) i p, s))"
proof -
  from f have "bs \<noteq> []" by (auto simp: occupancy_def)
  with inv have "p_block_count p \<noteq> 0" "p_start p = Some (hd bs)"
    by (auto simp: pool_inv_def pool_wf_def unat_eq_0 dest!: chain_start split: list.splits)
  moreover have "loop (alloc_round alloc_block) (Some (hd bs)) (p, s) =
      Some (Inr (bs ! k, i), (take_slot (bs ! k) i p, s))"
    using walk_found [of pr p "[]" bs k i] inv f by (simp add: pool_inv_def occupancy_def)
  ultimately show ?thesis using sz by (simp add: alloc_page_def prog_simps)
qed

lemma alloc_page_new:
  assumes inv: "pool_inv pr p bs" and sz: "p_size p \<noteq> p_max p"
    and f: "find_slot (occupancy p bs) = None"
  shows "(\<exists>blk s'. fresh_block (p_block_size p) (p_brk p) blk \<and> data_ok s (p_data p) (b_data blk) (map e_data (b_start blk)) \<and>
            alloc_page alloc_block (p, s) =
            Some (Inr (Some (p_brk p, 0)), (take_slot (p_brk p) 0 (grow blk p), s')))
       \<or> (\<exists>e blk s'. alloc_page alloc_block (p, s) = Some (Inl e, (leak blk p, s'))
            \<and> alloc_block (p, s) = Some (Inl e, (leak blk p, s')))"
proof -
  have wf: "pool_wf pr p bs" using inv by (simp add: pool_inv_def)
  have "p_size p < p_max p" using inv sz by (auto simp: pool_inv_def pool_wf_def intro: le_neq_trans)
  then have len: "length bs + 1 < 2 ^ 64"
    using used_le_size [OF inv] unat_less_64 [of "p_max p"] by (simp add: word_less_nat_alt)
  show ?thesis
  proof (cases "bs = []")
    case False
    with inv have "p_block_count p \<noteq> 0" "p_start p = Some (hd bs)"
      by (auto simp: pool_inv_def pool_wf_def unat_eq_0 dest!: chain_start split: list.splits)
    with walk_full [of pr p "[]" bs s] wf False f len sz show ?thesis
      by (auto simp: alloc_page_def prog_simps occupancy_def)
  next
    case True
    with wf have cnt: "p_block_count p = 0" "p_start p = None"
      by (auto simp: pool_wf_def unat_eq_0)
    from wf_end_ok [OF wf] show ?thesis
    proof (cases rule: alloc_block_cases [where s = s])
      case (failed e blk s')
      with cnt sz show ?thesis by (auto simp: alloc_page_def prog_simps)
    next
      case (linked blk s')
      moreover from cnt have "p_start (grow blk p) = Some (p_brk p)" by (simp add: grow_def Let_def)
      ultimately show ?thesis
        using cnt sz linked(3) grow_round [OF wf linked(2) len, where ab = alloc_block and s = s']
        by (intro disjI1 exI [of _ blk] exI [of _ s']) (simp add: alloc_page_def prog_simps)
    qed
  qed
qed

text \<open>An exception of \<open>alloc_page\<close> is the callback's.\<close>

lemma alloc_page_error:
  assumes inv: "pool_inv pr p bs" and err: "alloc_page alloc_block (p, s) = Some (Inl e, t)"
  shows "alloc_block (p, s) = Some (Inl e, t)"
proof (cases "p_size p = p_max p")
  case True
  with err alloc_page_full [OF True, of s] show ?thesis by simp
next
  case False
  show ?thesis
  proof (cases "find_slot (occupancy p bs)")
    case (Some ki)
    with alloc_page_found [OF inv False, of "fst ki" "snd ki" s] err show ?thesis by simp
  next
    case None
    with alloc_page_new [OF inv False None, of s] err show ?thesis by auto
  qed
qed

theorem alloc_page_correct:
  assumes inv: "pool_inv pr p bs"
  shows "\<exists>r p' s'. alloc_page alloc_block (p, s) = Some (r, (p', s')) \<and> alloc_post (data_ok s) pr p bs r p'"
proof (cases "p_size p = p_max p")
  case True
  with alloc_page_full [OF True, of s] show ?thesis by (auto simp: alloc_post_def)
next
  case False
  with inv have sz: "p_size p < p_max p" by (auto simp: pool_inv_def pool_wf_def intro: le_neq_trans)
  show ?thesis
  proof (cases "find_slot (occupancy p bs)")
    case (Some ki)
    then obtain k i where f: "find_slot (occupancy p bs) = Some (k, i)" by (cases ki) auto
    with alloc_page_found [OF inv False f, of s] alloc_post_found [OF inv sz f] show ?thesis by blast
  next
    case None
    with alloc_page_new [OF inv False None, of s] alloc_post_new [OF inv sz None] alloc_post_error [OF inv sz]
    show ?thesis by metis
  qed
qed

end

lemma free_page_run:
  assumes wf: "pool_wf pr p bs" and b: "b \<in> set bs" and i: "i < length (row_of (p_heap p) b)"
    and u: "row_of (p_heap p) b ! i"
  shows "free_page fb (b, i) (p, s) =
    (if used_in (p_heap (release_slot b i p)) b = 0 then fb b (release_slot b i p, s)
     else Some (Inr (), (release_slot b i p, s)))"
proof -
  from wf b obtain blk where blk: "p_heap p b = Some blk" "block_ok (p_block_size p) b blk"
    using wf_block by blast
  with i have i': "i < length (b_start blk)" by (simp add: row_of_Some)
  with blk have "e_block (b_start blk ! i) = b" by (simp add: block_ok_def list_all_length)
  moreover have ok: "block_ok (p_block_size p) b (the (p_heap (release_slot b i p) b))"
    if "e_used (b_start blk ! i)"
    using wf_block [OF wf_release_slot [OF wf b blk(1) i' that] b] by (auto simp: release_slot_def blk(1))
  ultimately show ?thesis using blk i' u
    by (auto simp: free_page_def get_element_def put_element_def prog_simps Let_def release_slot_def
        used_in_def row_of_Some block_ok_def unat_eq_0)
qed

section \<open>The contract of freeing\<close>

definition empties :: "('pd, 'bd, 'ed) pool \<Rightarrow> nat list \<Rightarrow> nat \<Rightarrow> nat \<Rightarrow> bool" where
  "empties p bs k i \<longleftrightarrow> True \<notin> set ((occupancy p bs ! k)[i := False])"

text \<open>What freeing element \<open>i\<close> of the \<open>k\<close>-th block leaves, where the code is defined.\<close>

definition free_post :: "nat option \<Rightarrow> ('pd, 'bd, 'ed) pool \<Rightarrow> nat list \<Rightarrow> nat \<Rightarrow> nat \<Rightarrow> ('pd, 'bd, 'ed) pool \<Rightarrow> bool" where
  "free_post pr p bs k i p' \<longleftrightarrow> p_size p' = p_size p - 1 \<and>
     (if empties p bs k i
      then let bs' = take k bs @ drop (Suc k) bs in data_kept p p' bs' \<and>
        pool_inv (if k = 0 \<and> bs' \<noteq> [] then Some (bs ! 0) else pr) p' bs'
        \<and> occupancy p' bs' = spec_free k i (occupancy p bs)
      else data_kept p p' bs \<and> pool_inv pr p' bs \<and> occupancy p' bs = spec_free k i (occupancy p bs))"

lemma used_at:
  assumes "pool_wf pr p bs" "k < length bs" "i < length (occupancy p bs ! k)" "occupancy p bs ! k ! i"
  obtains blk where "p_heap p (bs ! k) = Some blk" "i < length (b_start blk)" "e_used (b_start blk ! i)"
    "i < length (row_of (p_heap p) (bs ! k))" "row_of (p_heap p) (bs ! k) ! i"
  using assms wf_block [OF assms(1), of "bs ! k"] by (auto simp: occupancy_def row_of_Some)

lemma empties_used:
  assumes "pool_wf pr p bs" "k < length bs" "i < length (occupancy p bs ! k)" "occupancy p bs ! k ! i"
  shows "empties p bs k i \<longleftrightarrow> used_in (p_heap (release_slot (bs ! k) i p)) (bs ! k) = 0"
proof -
  from assms obtain blk where blk: "p_heap p (bs ! k) = Some blk" by (rule used_at)
  have "row_of (p_heap (release_slot (bs ! k) i p)) (bs ! k) = (occupancy p bs ! k)[i := False]"
    using occupancy_release_slot [of bs k p blk i] assms(1,2) blk
    by (auto simp: pool_wf_def occupancy_def dest: arg_cong [of _ _ "\<lambda>r. r ! k"])
  then show ?thesis by (simp add: empties_def used_in_row count_list_0_iff)
qed

lemma free_post_kept:
  assumes inv: "pool_inv pr p bs" and k: "k < length bs" and i: "i < length (occupancy p bs ! k)"
    and u: "occupancy p bs ! k ! i" and keep: "\<not> empties p bs k i"
  shows "free_post pr p bs k i (release_slot (bs ! k) i p)"
proof -
  have wf: "pool_wf pr p bs" using inv by (simp add: pool_inv_def)
  from wf k i u obtain blk where blk: "p_heap p (bs ! k) = Some blk" "i < length (b_start blk)" "e_used (b_start blk ! i)"
    by (rule used_at)
  have occ: "occupancy (release_slot (bs ! k) i p) bs = (occupancy p bs)[k := (occupancy p bs ! k)[i := False]]"
    using wf k blk by (intro occupancy_release_slot) (auto simp: pool_wf_def)
  moreover have "list_all (\<lambda>row. True \<in> set row) ((occupancy p bs)[k := (occupancy p bs ! k)[i := False]])"
    using inv keep k unfolding pool_inv_def used_in_occ
    by (auto simp: list_all_length nth_list_update empties_def occupancy_def)
  ultimately show ?thesis
    using wf_release_slot [OF wf _ blk] k keep blk(1)
    by (simp add: free_post_def pool_inv_def used_in_occ spec_free_def empties_def data_kept_def list_all_iff)
      (simp add: release_slot_def)
qed

lemma free_post_emptied:
  assumes inv: "pool_inv pr p bs" and k: "k < length bs" and i: "i < length (occupancy p bs ! k)"
    and u: "occupancy p bs ! k ! i" and emp: "empties p bs k i" and pr: "k = 0 \<longrightarrow> pr = None"
  defines "r \<equiv> release_slot (bs ! k) i p"
  defines "q \<equiv> unlink (take k bs) (bs ! k) (drop (Suc k) bs) r"
  shows "remove_block_from_pool (bs ! k) r = Some (Inr (), q)"
    and "free_post pr p bs k i (q\<lparr>p_heap := (p_heap q)(bs ! k := None)\<rparr>)"
proof -
  let ?b = "bs ! k" and ?xs = "take k bs" and ?ys = "drop (Suc k) bs"
  let ?q = "q\<lparr>p_heap := (p_heap q)(?b := None)\<rparr>"
  have wf: "pool_wf pr p bs" using inv by (simp add: pool_inv_def)
  from wf k i u obtain blk where blk: "p_heap p ?b = Some blk" "i < length (b_start blk)" "e_used (b_start blk ! i)"
    by (rule used_at)
  have wfr: "pool_wf pr r bs" unfolding r_def using wf_release_slot [OF wf _ blk] k by simp
  have bs: "bs = ?xs @ ?b # ?ys" using k by (simp add: id_take_nth_drop)
  have none: "used_in (p_heap r) ?b = 0" using empties_used [OF wf k i u] emp by (simp add: r_def)
  have wfr': "pool_wf pr r (?xs @ ?b # ?ys)" using wfr bs by simp
  have pr': "?xs = [] \<longrightarrow> pr = None" using pr k by auto
  show "remove_block_from_pool ?b r = Some (Inr (), q)"
    unfolding q_def by (rule remove_block_run [OF wfr' pr'])
  have wfq: "pool_wf (if ?xs = [] \<and> ?ys \<noteq> [] then Some ?b else pr) ?q (?xs @ ?ys)"
    unfolding q_def by (rule wf_unlink [OF wfr' pr' none])
  have d: "distinct bs" using wf by (simp add: pool_wf_def)
  have "occupancy r bs = (occupancy p bs)[k := (occupancy p bs ! k)[i := False]]"
    unfolding r_def using wf k blk by (intro occupancy_release_slot) (auto simp: pool_wf_def)
  then have "take k (occupancy r bs) @ drop (Suc k) (occupancy r bs) = spec_free k i (occupancy p bs)"
    using emp by (simp add: spec_free_def empties_def)
  moreover have "occupancy ?q (?xs @ ?ys) = take k (occupancy r bs) @ drop (Suc k) (occupancy r bs)"
    using row_of_unlink [OF wfr'] by (simp add: occupancy_def q_def take_map drop_map)
  ultimately have occ: "occupancy ?q (?xs @ ?ys) = spec_free k i (occupancy p bs)" by simp
  have "list_all (\<lambda>row. True \<in> set row) (spec_free k i (occupancy p bs))"
    using inv emp unfolding pool_inv_def used_in_occ
    by (auto simp: list_all_iff spec_free_def empties_def dest: in_set_takeD in_set_dropD)
  with wfq occ have "pool_inv (if ?xs = [] \<and> ?ys \<noteq> [] then Some ?b else pr) ?q (?xs @ ?ys)"
    unfolding pool_inv_def used_in_occ occ by blast
  moreover have "data_kept p ?q (?xs @ ?ys)"
    using data_of_unlink [OF wfr'] by (simp add: data_kept_def list_all_iff q_def r_def)
  moreover have "?xs = [] \<longleftrightarrow> k = 0" using k by auto
  ultimately show "free_post pr p bs k i ?q"
    using occ emp blk(1) k by (cases "k = 0") (auto simp: free_post_def Let_def q_def r_def release_slot_def)
qed

context block_provider
begin

theorem free_page_correct:
  assumes inv: "pool_inv pr p bs" and k: "k < length bs" and i: "i < length (occupancy p bs ! k)"
    and u: "occupancy p bs ! k ! i" and pr: "k = 0 \<and> empties p bs k i \<longrightarrow> pr = None"
    and run: "free_page free_block (bs ! k, i) (p, s) = Some (Inr (), (p', s'))"
  shows "free_post pr p bs k i p'"
proof -
  have wf: "pool_wf pr p bs" using inv by (simp add: pool_inv_def)
  have "i < length (row_of (p_heap p) (bs ! k))" "row_of (p_heap p) (bs ! k) ! i"
    using k i u by (simp_all add: occupancy_def)
  note free = free_page_run [OF wf nth_mem [OF k] this, of free_block s]
  show ?thesis
  proof (cases "empties p bs k i")
    case False
    with free run empties_used [OF wf k i u] have "p' = release_slot (bs ! k) i p" by simp
    with free_post_kept [OF inv k i u False] show ?thesis by simp
  next
    case True
    with pr have "k = 0 \<longrightarrow> pr = None" by simp
    note post = free_post_emptied [OF inv k i u True this]
    from free run empties_used [OF wf k i u] True
    have "free_block (bs ! k) (release_slot (bs ! k) i p, s) = Some (Inr (), (p', s'))" by simp
    from free_block_ok [OF this] post show ?thesis by auto
  qed
qed

theorem free_page_stale_head:
  assumes inv: "pool_inv (Some q) p bs" and i: "i < length (occupancy p bs ! 0)"
    and u: "occupancy p bs ! 0 ! i" and emp: "empties p bs 0 i"
  shows "\<exists>t. free_page free_block (bs ! 0, i) (p, s) = Some (Inl (Undefined ''block pointer''), t)"
proof -
  have wf: "pool_wf (Some q) p bs" using inv by (simp add: pool_inv_def)
  then have "bs \<noteq> []" by (auto simp: pool_wf_def)
  then obtain b ys where bs: "bs = b # ys" by (cases bs) auto
  then have k: "0 < length bs" by simp
  from wf k i u obtain blk where blk: "p_heap p (bs ! 0) = Some blk" "i < length (b_start blk)"
      "e_used (b_start blk ! i)" "i < length (row_of (p_heap p) (bs ! 0))" "row_of (p_heap p) (bs ! 0) ! i"
    by (rule used_at)
  let ?r = "release_slot (bs ! 0) i p"
  have "pool_wf (Some q) ?r bs" using wf_release_slot [OF wf _ blk(1-3)] k by simp
  then have stale: "remove_block_from_pool b ?r = Some (Inl (Undefined ''block pointer''), ?r)"
    using remove_stale_head bs by auto
  have "free_page free_block (bs ! 0, i) (p, s) = free_block b (?r, s)"
    using free_page_run [OF wf nth_mem [OF k] blk(4,5), of free_block s] empties_used [OF wf k i u] emp bs by simp
  moreover obtain x p' s' where run: "free_block b (?r, s) = Some (x, (p', s'))"
    using free_block_returns [of b ?r s] stale by (metis not_Some_eq option.distinct(1) prod.exhaust)
  moreover have "x = Inl (Undefined ''block pointer'')"
  proof (cases x)
    case (Inl e)
    with free_block_error run stale show ?thesis by fastforce
  next
    case (Inr v)
    with free_block_ok [of b ?r s v p' s'] run stale show ?thesis by auto
  qed
  ultimately show ?thesis by simp
qed

end

section \<open>The elements in use\<close>

definition used_slots :: "('pd, 'bd, 'ed) pool \<Rightarrow> nat list \<Rightarrow> (nat \<times> nat) set" where
  "used_slots p bs = {(b, i). b \<in> set bs \<and> i < length (row_of (p_heap p) b) \<and> row_of (p_heap p) b ! i}"

lemma used_slots_nth:
  "(b, i) \<in> used_slots p bs \<longleftrightarrow>
   (\<exists>k<length bs. b = bs ! k \<and> i < length (occupancy p bs ! k) \<and> occupancy p bs ! k ! i)"
  by (auto simp: used_slots_def occupancy_def in_set_conv_nth)

lemma used_slots_at:
  "distinct bs \<Longrightarrow> k < length bs \<Longrightarrow>
   (bs ! k, i) \<in> used_slots p bs \<longleftrightarrow> i < length (occupancy p bs ! k) \<and> occupancy p bs ! k ! i"
  by (auto simp: used_slots_nth nth_eq_iff_index_eq)

lemma used_slots_ext:
  assumes "S \<subseteq> set bs \<times> UNIV" and "\<And>k i. k < length bs \<Longrightarrow> (bs ! k, i) \<in> used_slots p bs \<longleftrightarrow> (bs ! k, i) \<in> S"
  shows "used_slots p bs = S"
proof -
  have "used_slots p bs \<subseteq> set bs \<times> UNIV" by (auto simp: used_slots_def)
  with assms show ?thesis by (auto simp: set_eq_iff in_set_conv_nth subset_iff)
qed

lemma used_slots_in: "x \<in> used_slots p bs \<Longrightarrow> fst x \<in> set bs"
  by (auto simp: used_slots_def)

lemma inv_distinct: "pool_inv pr p bs \<Longrightarrow> distinct bs"
  by (simp add: pool_inv_def pool_wf_def)

lemma length_occupancy [simp]: "length (occupancy p bs) = length bs"
  by (simp add: occupancy_def)

text \<open>Allocation adds one element to those in use, freeing takes one away.\<close>

lemma alloc_post_used:
  assumes inv: "pool_inv pr p bs" and post: "alloc_post D pr p bs (Inr (Some e)) p'"
  obtains bs' where "pool_inv pr p' bs'" "e \<notin> used_slots p bs" "used_slots p' bs' = insert e (used_slots p bs)"
    "bs' = bs \<or> bs' = bs @ [p_brk p] \<and> (\<exists>bd eds. data_of (p_heap p') (p_brk p) = Some (bd, eds) \<and> D (p_data p) bd eds)"
proof -
  from post obtain bs' k i where inv': "pool_inv pr p' bs'" and k: "k < length bs'" and e: "e = (bs' ! k, i)"
    and bs': "bs' = bs \<or> bs' = bs @ [p_brk p] \<and> (\<exists>bd eds. data_of (p_heap p') (p_brk p) = Some (bd, eds) \<and> D (p_data p) bd eds)"
    and spec: "spec_alloc (unat (p_block_size p)) (occupancy p bs) = (occupancy p' bs', (k, i))"
    by (auto simp: alloc_post_def)
  have "e \<notin> used_slots p bs \<and> used_slots p' bs' = insert e (used_slots p bs)"
  proof (cases "find_slot (occupancy p bs)")
    case (Some ki)
    with spec have f: "find_slot (occupancy p bs) = Some (k, i)"
      and occ: "occupancy p' bs' = (occupancy p bs)[k := (occupancy p bs ! k)[i := True]]"
      by (auto simp: spec_alloc_def split: option.splits prod.splits)
    from occ have "length bs' = length bs" by (metis length_list_update length_occupancy)
    with bs' have bs: "bs' = bs" by auto
    from find_slot_Some [OF f] have fs: "k < length bs" "i < length (occupancy p bs ! k)" "\<not> occupancy p bs ! k ! i"
      by simp_all
    note d = inv_distinct [OF inv]
    have "used_slots p' bs' = insert e (used_slots p bs)"
    proof (rule used_slots_ext)
      show "insert e (used_slots p bs) \<subseteq> set bs' \<times> UNIV" using fs e bs by (auto dest: used_slots_in)
      fix m j assume m: "m < length bs'"
      then show "(bs' ! m, j) \<in> used_slots p' bs' \<longleftrightarrow> (bs' ! m, j) \<in> insert e (used_slots p bs)"
        using fs d e bs occ by (auto simp: used_slots_at nth_eq_iff_index_eq nth_list_update)
    qed
    moreover have "e \<notin> used_slots p bs"
      using fs inv_distinct [OF inv] e bs by (auto simp: used_slots_nth nth_eq_iff_index_eq)
    ultimately show ?thesis by blast
  next
    case None
    let ?row = "True # replicate (unat (p_block_size p) - 1) False"
    from None spec have occ: "occupancy p' bs' = occupancy p bs @ [?row]" "k = length bs" "i = 0"
      by (auto simp: spec_alloc_def)
    from occ(1) have "length bs' = Suc (length bs)" by (metis length_append_singleton length_occupancy)
    with bs' have bs: "bs' = bs @ [p_brk p]" by auto
    note d = inv_distinct [OF inv] and d' = inv_distinct [OF inv']
    have n: "0 < unat (p_block_size p)" using inv by (auto simp: pool_inv_def pool_wf_def word_less_nat_alt)
    have "used_slots p' bs' = insert e (used_slots p bs)"
    proof (rule used_slots_ext)
      show "insert e (used_slots p bs) \<subseteq> set bs' \<times> UNIV" using e bs occ(2) by (auto dest: used_slots_in)
      fix m j assume m: "m < length bs'"
      show "(bs' ! m, j) \<in> used_slots p' bs' \<longleftrightarrow> (bs' ! m, j) \<in> insert e (used_slots p bs)"
      proof (cases "m < length bs")
        case True
        with d d' bs have "bs' ! m \<noteq> p_brk p" "bs' ! m = bs ! m" by (auto simp: nth_append dest: nth_mem)
        with True e bs occ used_slots_at [OF d' m, of j p'] used_slots_at [OF d True, of j p]
        show ?thesis by (auto simp: nth_append)
      next
        case False
        with m bs have "m = length bs" by simp
        moreover have "(p_brk p, j) \<notin> used_slots p bs" using d' bs by (auto dest: used_slots_in)
        ultimately show ?thesis
          using used_slots_at [OF d' m, of j p'] e occ bs n by (cases j) (auto simp: nth_append)
      qed
    qed
    moreover have "e \<notin> used_slots p bs"
      using e occ bs d' by (auto dest: used_slots_in)
    ultimately show ?thesis by blast
  qed
  with that inv' bs' show thesis by blast
qed

lemma free_post_used:
  assumes inv: "pool_inv pr p bs" and k: "k < length bs" and i: "i < length (occupancy p bs ! k)"
    and post: "free_post pr p bs k i p'"
  defines "bs' \<equiv> (if empties p bs k i then take k bs @ drop (Suc k) bs else bs)"
  shows "used_slots p' bs' = used_slots p bs - {(bs ! k, i)}"
    and "\<exists>pr'. pool_inv pr' p' bs'" and "data_kept p p' bs'"
proof -
  show "\<exists>pr'. pool_inv pr' p' bs'" "data_kept p p' bs'"
    using post by (auto simp: free_post_def Let_def bs'_def)
  have occ: "occupancy p' bs' = spec_free k i (occupancy p bs)"
    using post by (auto simp: free_post_def Let_def bs'_def)
  have d: "distinct bs" by (rule inv_distinct [OF inv])
  show "used_slots p' bs' = used_slots p bs - {(bs ! k, i)}"
  proof (cases "empties p bs k i")
    case False
    then have "occupancy p' bs = (occupancy p bs)[k := (occupancy p bs ! k)[i := False]]" "bs' = bs"
      using occ by (simp_all add: spec_free_def empties_def bs'_def)
    then show ?thesis
      using k i d by (intro used_slots_ext)
        (auto simp: used_slots_at nth_list_update nth_eq_iff_index_eq split: if_splits dest: used_slots_in)
  next
    case True
    then have o: "occupancy p' bs' = take k (occupancy p bs) @ drop (Suc k) (occupancy p bs)"
      and bs: "bs' = take k bs @ drop (Suc k) bs"
      using occ by (simp_all add: spec_free_def empties_def bs'_def)
    have rows: "row_of (p_heap p') b = row_of (p_heap p) b" if "b \<in> set bs'" for b
    proof -
      from o bs have "map (row_of (p_heap p')) bs' = map (row_of (p_heap p)) bs'"
        by (simp add: occupancy_def take_map drop_map)
      with that show ?thesis by simp
    qed
    have only: "row_of (p_heap p) (bs ! k) ! j \<Longrightarrow> j < length (row_of (p_heap p) (bs ! k)) \<Longrightarrow> j = i" for j
      using True k unfolding empties_def occupancy_def
      by (auto simp: in_set_conv_nth) (metis nth_list_update_neq)
    have bs_eq: "bs = take k bs @ bs ! k # drop (Suc k) bs" using k by (simp add: id_take_nth_drop)
    then have "set bs = insert (bs ! k) (set bs')" "bs ! k \<notin> set bs'"
      using d bs by (metis set_append list.set(2) Un_insert_right) (metis bs bs_eq d distinct_append distinct.simps(2) Un_iff set_append disjoint_insert(2) list.simps(15))
    then show ?thesis
      using rows only by (auto simp: used_slots_def)
  qed
qed

end
