(* ===== verification/Device_IO.thy ===== *)
theory Device_IO
  imports Hca_Prelude
begin

text \<open>
  The memory the driver shares with the device and its access functions: the inline
  functions of \<open>server/src/device.h\<close>.
\<close>

section \<open>The machine\<close>

text \<open>
  \<open>mem\<close> is the memory the driver addresses by 32-bit registers (DMA memory and the mapped
  BAR), \<open>clock\<close> the time in milliseconds that \<open>high_resolution_clock\<close> reads, and \<open>hw\<close>
  the rest of the outside world, the operating system and the device, whose code is not
  part of the repository.
\<close>

record 'h machine =
  mem :: "u64 \<Rightarrow> u32"
  clock :: nat
  hw :: 'h

text \<open>
  The functions of the outside world the driver calls, as parameters. \<open>elapse n\<close> lets at
  least \<open>n\<close> milliseconds pass, in which the device runs; the others are the L4Re services
  (capability slots, memory, address space, DMA space) with their result code, negative
  on failure, and \<open>superpage_shift\<close> is L4Re's \<open>L4_SUPERPAGESHIFT\<close>. \<open>stack_junk\<close> is what a
  stack array holds before it is written, and \<open>malloc_words n\<close> the memory a \<open>malloc\<close> of \<open>n\<close>
  32-bit words returns, which holds anything and may be larger than asked for.
\<close>

record 'h platform =
  elapse :: "nat \<Rightarrow> 'h machine \<Rightarrow> 'h machine"
  make_shared_cap :: "'h machine \<Rightarrow> u64 option \<times> 'h machine"
  mem_alloc :: "u64 \<Rightarrow> u64 \<Rightarrow> 'h machine \<Rightarrow> int \<times> 'h machine"
  rm_attach :: "u64 \<Rightarrow> u64 \<Rightarrow> 'h machine \<Rightarrow> (int \<times> u64) \<times> 'h machine"
  dma_map :: "u64 \<Rightarrow> u64 \<Rightarrow> 'h machine \<Rightarrow> (int \<times> u64) \<times> 'h machine"
  dma_unmap :: "u64 \<Rightarrow> u64 \<Rightarrow> 'h machine \<Rightarrow> int \<times> 'h machine"
  cap_release :: "u64 \<Rightarrow> 'h machine \<Rightarrow> 'h machine"
  superpage_shift :: nat
  stack_junk :: "'h machine \<Rightarrow> nat \<Rightarrow> u32"
  malloc_words :: "nat \<Rightarrow> u32 list"

text \<open>
  The one law of time: a sleep lasts at least as long as asked for (the contract of
  \<open>std::this_thread::sleep_for\<close> on a steady clock).
\<close>

definition sleeps :: "'h platform \<Rightarrow> bool" where
  "sleeps E \<longleftrightarrow> (\<forall>n m. clock m + n \<le> clock (elapse E n m))"

text \<open>\<open>malloc\<close> returns at least the memory asked for, or exactly that.\<close>

definition malloc_enough :: "'h platform \<Rightarrow> bool" where
  "malloc_enough E \<longleftrightarrow> (\<forall>n. n \<le> length (malloc_words E n))"

definition malloc_exact :: "'h platform \<Rightarrow> bool" where
  "malloc_exact E \<longleftrightarrow> (\<forall>n. length (malloc_words E n) = n)"

text \<open>\<open>L4Re::chksys\<close> and \<open>L4Re::chkcap\<close>: a failed call becomes an exception.\<close>

definition chksys :: "string \<Rightarrow> int \<Rightarrow> ('s, unit) prog" where
  "chksys msg r = (if r < 0 then throw (Sys_error msg) else ret ())"

definition chkcap :: "string \<Rightarrow> u64 option \<Rightarrow> ('s, u64) prog" where
  "chkcap msg c = (case c of None \<Rightarrow> throw (Sys_error msg) | Some x \<Rightarrow> ret x)"

lemma chk_rules [keeps_intros]:
  "keeps I (chksys msg r)" "returns I (chksys msg r)" "keeps I (chkcap msg c)" "returns I (chkcap msg c)"
  by (auto simp: chksys_def chkcap_def intro!: keeps_intros)

section \<open>Register access\<close>

text \<open>The bytes of a word, least significant first, and the word of such a list.\<close>

definition bytes_of :: "u32 \<Rightarrow> u8 list" where
  "bytes_of u = map (\<lambda>k. ucast (drop_bit (8 * k) u)) [0..<4]"

definition of_bytes :: "u8 list \<Rightarrow> u32" where
  "of_bytes bs = foldr (\<lambda>b acc. ucast b OR push_bit 8 acc) bs 0"

definition swap_endian :: "u32 \<Rightarrow> u32" where
  "swap_endian u = of_bytes (map (\<lambda>k. bytes_of u ! (4 - k - 1)) [0..<4])"

definition iowrite32be :: "u64 \<Rightarrow> u32 \<Rightarrow> 'h machine \<Rightarrow> 'h machine" where
  "iowrite32be addr value m = m\<lparr>mem := (mem m)(addr := swap_endian value)\<rparr>"

definition ioread32be :: "u64 \<Rightarrow> 'h machine \<Rightarrow> u32" where
  "ioread32be addr m = swap_endian (mem m addr)"

definition iowrite32 :: "u64 \<Rightarrow> u32 \<Rightarrow> 'h machine \<Rightarrow> 'h machine" where
  "iowrite32 addr value m = m\<lparr>mem := (mem m)(addr := value)\<rparr>"

definition ioread32 :: "u64 \<Rightarrow> 'h machine \<Rightarrow> u32" where
  "ioread32 addr m = mem m addr"

lemma upt_4: "[0..<4] = [0, 1, 2, 3 :: nat]"
  by (simp add: upt_rec)

lemma swap_endian_eq:
  "swap_endian u = ucast (ucast (drop_bit 24 u) :: u8) OR push_bit 8 (ucast (ucast (drop_bit 16 u) :: u8)
     OR push_bit 8 (ucast (ucast (drop_bit 8 u) :: u8) OR push_bit 8 (ucast (ucast u :: u8))))"
  by (simp add: swap_endian_def of_bytes_def bytes_of_def upt_4)

lemma bit_swap_endian: "bit (swap_endian u) n \<longleftrightarrow> n < 32 \<and> bit u (24 + n mod 8 - n div 8 * 8)"
proof -
  consider "n < 8" | "8 \<le> n" "n < 16" | "16 \<le> n" "n < 24" | "24 \<le> n" "n < 32" | "32 \<le> n"
    by linarith
  then show ?thesis
  proof cases
    case 1
    then have "n div 8 = 0" "n mod 8 = n" by auto
    with 1 show ?thesis by (simp add: swap_endian_eq bit_simps)
  next
    case 2
    then have "n div 8 = 1" "n mod 8 = n - 8" by (auto simp: mod_if div_if)
    with 2 show ?thesis by (auto simp add: swap_endian_eq bit_simps)
  next
    case 3
    then have "n div 8 = 2" "n mod 8 = n - 16" by (auto simp: mod_if div_if)
    with 3 show ?thesis by (auto simp add: swap_endian_eq bit_simps)
  next
    case 4
    then have "n div 8 = 3" "n mod 8 = n - 24" by (auto simp: mod_if div_if)
    with 4 show ?thesis by (auto simp add: swap_endian_eq bit_simps)
  next
    case 5
    then show ?thesis by (auto simp: bit_imp_le_length dest: bit_imp_le_length)
  qed
qed

lemma swap_endian_swap_endian [simp]: "swap_endian (swap_endian u) = u"
proof (rule bit_word_eqI)
  fix n assume n: "n < LENGTH(32)"
  define q r where "q = n div 8" and "r = n mod 8"
  have n_eq: "n = q * 8 + r" by (simp add: q_def r_def)
  have q: "q \<le> 3" and r: "r < 8" using n by (auto simp: q_def r_def)
  define k where "k = 24 + r - q * 8"
  have k: "k = (3 - q) * 8 + r" using q by (simp add: k_def algebra_simps)
  have "k mod 8 = r" "k div 8 = 3 - q" using r by (simp_all add: k)
  then have "24 + k mod 8 - k div 8 * 8 = n" using q by (simp add: n_eq)
  moreover have "k < 32" using q r by (simp add: k_def)
  ultimately show "bit (swap_endian (swap_endian u)) n = bit u n"
    using n by (simp add: bit_swap_endian k_def q_def r_def)
qed
section \<open>Register files\<close>

text \<open>
  What the rest of the driver relies on when it lays out a structure register by register:
  a register read back gives the value written, and no other register changes.
\<close>

locale register_file =
  fixes rd :: "u64 \<Rightarrow> 'm \<Rightarrow> u32" and wr :: "u64 \<Rightarrow> u32 \<Rightarrow> 'm \<Rightarrow> 'm"
  assumes rd_wr: "rd a (wr b v m) = (if a = b then v else rd a m)"
begin

lemma rd_wr_same [simp]: "rd a (wr a v m) = v"
  by (simp add: rd_wr)

lemma rd_wr_other: "a \<noteq> b \<Longrightarrow> rd a (wr b v m) = rd a m"
  by (simp add: rd_wr)

lemma rd_wr_reg:
  "i < 2 ^ 62 \<Longrightarrow> j < 2 ^ 62 \<Longrightarrow> rd (reg a i) (wr (reg a j) v m) = (if i = j then v else rd (reg a i) m)"
  by (simp add: rd_wr reg_inj)

text \<open>A loop that writes the registers \<open>p i\<close> for \<open>i < n\<close>.\<close>

lemma rd_writes_frame:
  assumes "\<And>i. i < n \<Longrightarrow> a \<noteq> p i"
  shows "rd a (fold (\<lambda>i. wr (p i) (f i)) [0..<n] m) = rd a m"
  using assms by (induction n) (simp_all add: rd_wr_other)

lemma rd_writes:
  assumes "i < n" and "inj_on p {..<n}"
  shows "rd (p i) (fold (\<lambda>i. wr (p i) (f i)) [0..<n] m) = f i"
  using assms
proof (induction n)
  case (Suc n)
  show ?case
  proof (cases "i = n")
    case False
    with Suc.prems have "i < n" "p i \<noteq> p n" by (auto simp: inj_on_def)
    moreover from Suc.prems have "inj_on p {..<n}" by (auto simp: inj_on_def)
    ultimately show ?thesis using Suc.IH by (simp add: rd_wr_other)
  qed simp
qed simp

lemma rd_write_block:
  assumes "i < n" and "n \<le> 2 ^ 62"
  shows "rd (reg a i) (fold (\<lambda>i. wr (reg a i) (f i)) [0..<n] m) = f i"
  using assms by (intro rd_writes) (auto simp: inj_on_def reg_inj)

end

interpretation be: register_file ioread32be iowrite32be
  by unfold_locales (simp add: ioread32be_def iowrite32be_def)

interpretation le: register_file ioread32 iowrite32
  by unfold_locales (simp add: ioread32_def iowrite32_def)

text \<open>Register access changes the memory only.\<close>

lemma io_frame [simp]:
  "clock (iowrite32be a v m) = clock m" "hw (iowrite32be a v m) = hw m"
  "clock (iowrite32 a v m) = clock m" "hw (iowrite32 a v m) = hw m"
  by (simp_all add: iowrite32be_def iowrite32_def)

end
