(* ===== verification/Mem.thy ===== *)
theory Mem
  imports Pool_Correct Device_IO
begin

text \<open>
  DMA memory and the pool of memory pages lent to the device: \<open>server/src/mem.h\<close> and
  \<open>mem.cc\<close>. The pool is the generic one of \<^theory_text>\<open>Pool\<close> with a block of DMA memory per block
  and an index from physical addresses to pages.
\<close>

section \<open>DMA memory\<close>

abbreviation (input) HCA_PAGE_SIZE :: u64 where
  "HCA_PAGE_SIZE \<equiv> 4096"

record DMA_MEM =
  dm_cap :: u64
  dm_virt :: u64
  dm_phys :: u64

text \<open>The size \<open>alloc_dma_mem\<close> allocates for a request: whole superpages.\<close>

definition round_superpage :: "nat \<Rightarrow> u64 \<Rightarrow> u64" where
  "round_superpage sh sz =
     (if sz mod push_bit sh 1 \<noteq> 0 then push_bit sh (drop_bit sh sz + 1) else sz)"

text \<open>
  The C++ function fills the caller's \<open>DMA_MEM\<close> in; here it is the result. When it throws, the
  parts filled in before are not in the model: its callers do not catch the exception.
\<close>

definition alloc_dma_mem :: "'h platform \<Rightarrow> u64 \<Rightarrow> ('h machine, DMA_MEM) prog" where
  "alloc_dma_mem E sz =
     bnd (pure_op (make_shared_cap E)) (\<lambda>c.
     bnd (chkcap ''Failed to allocate DMA Dataspace'' c) (\<lambda>cap.
     let rsz = round_superpage (superpage_shift E) sz in
     bnd (pure_op (mem_alloc E rsz cap)) (\<lambda>r.
     andthen (chksys ''Failed to allocate DMA memory.'' r)
    (bnd (pure_op (rm_attach E rsz cap)) (\<lambda>(r, virt).
     andthen (chksys ''Failed to attach DMA memory'' r)
    (bnd (pure_op (dma_map E cap rsz)) (\<lambda>(r, phys).
     andthen (chksys ''Failed to setup memory region for DMA.'' r)
             (ret \<lparr>dm_cap = cap, dm_virt = virt, dm_phys = phys\<rparr>))))))))"

definition free_dma_mem :: "'h platform \<Rightarrow> u64 \<Rightarrow> DMA_MEM \<Rightarrow> ('h machine, unit) prog" where
  "free_dma_mem E sz dm =
     bnd (pure_op (dma_unmap E (dm_phys dm) sz)) (\<lambda>r.
     andthen (chksys '''' r)
             (modify (cap_release E (dm_cap dm))))"

section \<open>The page pool\<close>

record MEM_ED =
  me_virt :: u64
  me_phys :: u64

text \<open>
  The pool's data is the index of the pages in use by physical address; a block's data is
  its DMA memory.
\<close>

type_synonym MEM_PD = "u64 \<Rightarrow> (nat \<times> nat) option"
type_synonym MEM_Page_Pool = "(MEM_PD, DMA_MEM, MEM_ED) pool"
type_synonym ('h, 'a) mem_prog = "(MEM_PD, DMA_MEM, MEM_ED, 'h machine, 'a) pool_prog"

text \<open>The \<open>i\<close>-th page of a block of DMA memory.\<close>

definition mem_page :: "DMA_MEM \<Rightarrow> nat \<Rightarrow> MEM_ED" where
  "mem_page dm i = \<lparr>me_virt = dm_virt dm + of_nat i * HCA_PAGE_SIZE,
                    me_phys = dm_phys dm + of_nat i * HCA_PAGE_SIZE\<rparr>"

definition mem_alloc_block :: "'h platform \<Rightarrow> ('h, unit) mem_prog" where
  "mem_alloc_block E =
     bnd (on_pool create_block) (\<lambda>mpb.
     bnd (gets (\<lambda>(p, _). p_block_size p)) (\<lambda>n.
     bnd (on_env (alloc_dma_mem E (HCA_PAGE_SIZE * n))) (\<lambda>dm.
     andthen (on_pool (put_block (Some mpb) (\<lambda>blk. blk\<lparr>b_data := dm\<rparr>)))
    (andthen (on_pool (init_elements mpb (\<lambda>i mp.
                mp\<lparr>e_used := False, e_block := mpb, e_data := mem_page dm i\<rparr>)))
             (on_pool (add_block_to_pool mpb))))))"

definition mem_free_block :: "'h platform \<Rightarrow> nat \<Rightarrow> ('h, unit) mem_prog" where
  "mem_free_block E mpb =
     andthen (on_pool (remove_block_from_pool mpb))
    (bnd (gets (\<lambda>(p, _). p_block_size p)) (\<lambda>n.
     bnd (on_pool (get_block (Some mpb))) (\<lambda>blk.
     andthen (on_env (free_dma_mem E (HCA_PAGE_SIZE * n) (b_data blk)))
             (on_pool (destroy_block mpb)))))"

definition mem_alloc_page :: "'h platform \<Rightarrow> ('h, nat \<times> nat) mem_prog" where
  "mem_alloc_page E =
     bnd (alloc_page (mem_alloc_block E)) (\<lambda>mp.
     case mp of
       None \<Rightarrow> throw (Undefined ''null page'')
     | Some e \<Rightarrow>
         bnd (on_pool (get_element e)) (\<lambda>el.
         andthen (modify (\<lambda>(p, s). (p\<lparr>p_data := (p_data p)(me_phys (e_data el) \<mapsto> e)\<rparr>, s)))
                 (ret e)))"

definition mem_free_page :: "'h platform \<Rightarrow> u64 \<Rightarrow> ('h, unit) mem_prog" where
  "mem_free_page E phys =
     bnd (gets (\<lambda>(p, _). p_data p phys)) (\<lambda>n.
     andthen (modify (\<lambda>(p, s). (p\<lparr>p_data := (p_data p)(phys := None)\<rparr>, s)))
    (case n of
       None \<Rightarrow> throw (Undefined ''empty map node'')
     | Some e \<Rightarrow> free_page (mem_free_block E) e))"

section \<open>The pool's callbacks meet their interface\<close>

text \<open>
  A block's pages are those of its DMA memory (\<open>pages_of\<close>), which \<open>alloc_dma_mem\<close> returned
  when the block was made.
\<close>

definition pages_of :: "DMA_MEM \<Rightarrow> MEM_ED list \<Rightarrow> bool" where
  "pages_of dm eds \<longleftrightarrow> eds = map (mem_page dm) [0..<length eds]"

definition mem_block_ok :: "'h platform \<Rightarrow> 'h machine \<Rightarrow> MEM_PD \<Rightarrow> DMA_MEM \<Rightarrow> MEM_ED list \<Rightarrow> bool" where
  "mem_block_ok E m pd dm eds \<longleftrightarrow> pages_of dm eds
     \<and> (\<exists>m'. alloc_dma_mem E (HCA_PAGE_SIZE * of_nat (length eds)) m = Some (Inr dm, m'))"

lemma alloc_dma_mem_returns: "\<exists>r m'. alloc_dma_mem E sz m = Some (r, m')"
proof -
  have "returns (\<lambda>_. True) (alloc_dma_mem E sz)"
    unfolding alloc_dma_mem_def Let_def by (intro keeps_intros)
  then show ?thesis by (simp add: returns_def)
qed

lemma end_ok_none: "end_ok p \<Longrightarrow> p_heap p (p_brk p) = None"
  by (simp add: end_ok_def)

lemma mem_alloc_block_run:
  assumes "end_ok p"
  shows "(\<exists>dm m'. alloc_dma_mem E (HCA_PAGE_SIZE * p_block_size p) m = Some (Inr dm, m') \<and>
            (\<exists>blk. fresh_block (p_block_size p) (p_brk p) blk \<and> b_data blk = dm
               \<and> map e_data (b_start blk) = map (mem_page dm) [0..<unat (p_block_size p)]
               \<and> mem_alloc_block E (p, m) = Some (Inr (), (grow blk p, m'))))
       \<or> (\<exists>e m' blk. alloc_dma_mem E (HCA_PAGE_SIZE * p_block_size p) m = Some (Inl e, m')
            \<and> mem_alloc_block E (p, m) = Some (Inl e, (leak blk p, m')))"
proof -
  obtain r m' where dma: "alloc_dma_mem E (HCA_PAGE_SIZE * p_block_size p) m = Some (r, m')"
    using alloc_dma_mem_returns by blast
  let ?b = "p_brk p" and ?n = "unat (p_block_size p)"
  let ?raw = "\<lparr>b_element_count = 0, b_next = None, b_prev = None, b_data = p_raw_data p ?b,
        b_start = map (p_raw_elems p ?b) [0..<?n]\<rparr> :: (DMA_MEM, MEM_ED) block"
  show ?thesis
  proof (cases r)
    case (Inl e)
    with dma have "mem_alloc_block E (p, m) = Some (Inl e, (leak ?raw p, m'))"
      by (simp add: mem_alloc_block_def prog_simps leak_def)
    with dma Inl show ?thesis by blast
  next
    case (Inr dm)
    let ?blk = "?raw\<lparr>b_data := dm, b_start := map (\<lambda>i. (p_raw_elems p ?b i)
        \<lparr>e_used := False, e_block := ?b, e_data := mem_page dm i\<rparr>) [0..<?n]\<rparr>"
    have "mem_alloc_block E (p, m) = Some (Inr (), (grow ?blk p, m'))"
      using dma Inr add_block_run [OF assms, of ?blk]
      by (simp add: mem_alloc_block_def prog_simps leak_def)
    moreover have "fresh_block (p_block_size p) ?b ?blk"
      by (simp add: fresh_block_def list_all_iff)
    moreover have "map e_data (b_start ?blk) = map (mem_page dm) [0..<?n]"
      by simp
    ultimately show ?thesis using dma Inr
      by (intro disjI1 exI [of _ dm] exI [of _ m'] conjI exI [of _ ?blk]) simp_all
  qed
qed

lemma mem_free_block_finished:
  assumes "mem_free_block E b (p, m) = Some (r, (p', m'))"
  shows "(\<exists>e. r = Inl e \<and> remove_block_from_pool b p = Some (Inl e, p'))
       \<or> (\<exists>e. r = Inl e \<and> remove_block_from_pool b p = Some (Inr (), p'))
       \<or> (\<exists>q. r = Inr () \<and> remove_block_from_pool b p = Some (Inr (), q)
            \<and> p' = q\<lparr>p_heap := (p_heap q)(b := None)\<rparr>)"
  using assms unfolding mem_free_block_def andthen_def destroy_block_def
  by (auto elim!: bnd_finished zoom_finished simp: on_pool_def on_env_def gets_def modify_def
      get_block_def ret_def throw_def split: option.splits)

lemma mem_free_block_returns:
  assumes "remove_block_from_pool b p \<noteq> None" shows "mem_free_block E b (p, m) \<noteq> None"
proof -
  have fr: "free_dma_mem E x dm m \<noteq> None" for x dm m
    by (simp add: free_dma_mem_def chksys_def prog_simps)
  from assms show ?thesis
    by (auto simp: mem_free_block_def andthen_def destroy_block_def bnd_def zoom_def on_pool_def on_env_def
        gets_def modify_def get_block_def ret_def throw_def fr split: option.splits sum.splits prod.splits)
qed

interpretation mem_pool: block_provider "mem_alloc_block E" "mem_block_ok E" "mem_free_block E" for E
proof
  fix p :: MEM_Page_Pool and s u p' s'
  assume "end_ok p" "mem_alloc_block E (p, s) = Some (Inr u, (p', s'))"
  with mem_alloc_block_run [of p E s]
  show "\<exists>blk. fresh_block (p_block_size p) (p_brk p) blk \<and> p' = grow blk p \<and>
      mem_block_ok E s (p_data p) (b_data blk) (map e_data (b_start blk))"
    by (fastforce simp: mem_block_ok_def pages_of_def fresh_block_def)
next
  fix p :: MEM_Page_Pool and s e p' s'
  assume "end_ok p" "mem_alloc_block E (p, s) = Some (Inl e, (p', s'))"
  with mem_alloc_block_run [of p E s] show "\<exists>blk. p' = leak blk p" by auto
next
  fix p :: MEM_Page_Pool and s
  assume "end_ok p"
  with mem_alloc_block_run [of p E s] show "mem_alloc_block E (p, s) \<noteq> None" by auto
next
  fix b and p :: MEM_Page_Pool and s u p' s'
  assume "mem_free_block E b (p, s) = Some (Inr u, (p', s'))"
  then show "\<exists>q. remove_block_from_pool b p = Some (Inr (), q) \<and> p' = q\<lparr>p_heap := (p_heap q)(b := None)\<rparr>"
    by (auto dest: mem_free_block_finished)
next
  fix b and p :: MEM_Page_Pool and s e p' s'
  assume "mem_free_block E b (p, s) = Some (Inl e, (p', s'))"
  then show "remove_block_from_pool b p = Some (Inl e, p') \<or> remove_block_from_pool b p = Some (Inr (), p')"
    by (auto dest: mem_free_block_finished)
next
  fix b and p :: MEM_Page_Pool and s
  assume "remove_block_from_pool b p \<noteq> None"
  then show "mem_free_block E b (p, s) \<noteq> None" by (rule mem_free_block_returns)
qed

section \<open>Rounding to superpages\<close>

lemma unat_2_power: "sh < 64 \<Longrightarrow> unat (2 ^ sh :: u64) = 2 ^ sh"
proof -
  assume sh: "sh < 64"
  have "unat (2 ^ sh :: u64) = unat (push_bit sh 1 :: u64)" by (simp add: push_bit_eq_mult)
  also have "\<dots> = take_bit 64 (push_bit sh 1)" by (simp only: unsigned_push_bit_eq unsigned_1) simp
  also have "\<dots> = 2 ^ sh"
  proof -
    have "(2 :: nat) ^ sh < 2 ^ 64" using sh by (rule power_strict_increasing) simp
    then show ?thesis by (simp add: push_bit_eq_mult take_bit_eq_mod)
  qed
  finally show ?thesis .
qed

lemma round_superpage_spec:
  assumes "sh < 64" and "unat sz + 2 ^ sh < 2 ^ 64"
  shows "unat (round_superpage sh sz) = (unat sz + 2 ^ sh - 1) div 2 ^ sh * 2 ^ sh"
proof -
  let ?s = "2 ^ sh :: nat"
  have s: "1 \<le> ?s" "0 < ?s" by simp_all
  have md: "sz mod push_bit sh 1 = 0 \<longleftrightarrow> unat sz mod ?s = 0"
    by (simp add: unat_eq_0 [symmetric] unat_mod_distrib unat_2_power [OF assms(1)] push_bit_eq_mult)
  show ?thesis
  proof (cases "unat sz mod ?s = 0")
    case True
    then obtain k where k: "unat sz = k * ?s" by (metis mod_0_imp_dvd dvd_def mult.commute)
    have "(k * ?s + ?s - 1) div ?s = k"
    proof -
      have "k * ?s + ?s - 1 = (?s - 1) + k * ?s" by simp
      then show ?thesis using s by (simp only: div_mult_self1) simp
    qed
    with True md k show ?thesis by (simp add: round_superpage_def)
  next
    case False
    define k r where "k = unat sz div ?s" and "r = unat sz mod ?s"
    have sz: "unat sz = k * ?s + r" and r: "0 < r" "r < ?s" using False s
      by (simp_all add: k_def r_def div_mult_mod_eq)
    have "(k * ?s + r + ?s - 1) div ?s = k + 1"
      using r by (intro div_nat_eqI) (auto simp: algebra_simps)
    moreover have "(k + 1) * ?s < 2 ^ 64" using assms(2) sz r by (simp add: algebra_simps)
    moreover have k1: "unat (drop_bit sh sz + 1) = k + 1"
    proof -
      have "k < 2 ^ 64 - 1"
        using \<open>(k + 1) * ?s < 2 ^ 64\<close> s by (metis add_lessD1 le_add2 le_less_trans less_diff_conv mult.right_neutral mult_le_mono2 nat_mult_1 Suc_leI One_nat_def)
      then show ?thesis by (simp add: unat_word_ariths unsigned_drop_bit_eq drop_bit_eq_div k_def unat_2_power [OF assms(1)])
    qed
    ultimately show ?thesis
      using False md sz by (simp add: round_superpage_def push_bit_eq_mult unat_word_ariths(2) k1 unat_2_power [OF assms(1)])
  qed
qed

end
