(* ===== verification/Queue.thy ===== *)
theory Queue
  imports Mem
begin

text \<open>
  The ring buffers the driver shares with the device: \<open>struct Queue\<close> and \<open>enqueue\<close> of
  \<open>server/src/queue.h\<close> and \<open>queue.cc\<close>. The pool of queue objects is \<^theory_text>\<open>Queue_Pool\<close>.
\<close>

record Queue =
  q_start :: u64
  q_size :: u64
  q_head :: u32
  q_dma_mem :: DMA_MEM

text \<open>\<open>if (++q.head >= q.size) q.head = 0\<close>: a 32-bit head against a 64-bit size.\<close>

definition enqueue :: "'a Queue_scheme \<Rightarrow> u32 \<times> 'a Queue_scheme" where
  "enqueue q = (let slot = q_head q; h = slot + 1 in
     (slot, q\<lparr>q_head := (if q_size q \<le> ucast h then 0 else h)\<rparr>))"

text \<open>The slots of \<open>n\<close> successive calls.\<close>

primrec enqueues :: "nat \<Rightarrow> 'a Queue_scheme \<Rightarrow> u32 list \<times> 'a Queue_scheme" where
  "enqueues 0 q = ([], q)"
| "enqueues (Suc n) q = (let (slot, q') = enqueue q; (slots, q'') = enqueues n q' in (slot # slots, q''))"

text \<open>A ring: the head is one of its slots, and every slot fits the 32-bit head.\<close>

definition ring_ok :: "'a Queue_scheme \<Rightarrow> bool" where
  "ring_ok q \<longleftrightarrow> unat (q_head q) < unat (q_size q) \<and> unat (q_size q) < 2 ^ 32"

lemma enqueue_ring:
  assumes "ring_ok q" and "enqueue q = (slot, q')"
  shows "unat slot = unat (q_head q)" and "unat (q_head q') = (unat (q_head q) + 1) mod unat (q_size q)"
    and "q_size q' = q_size q" and "ring_ok q'"
proof -
  from assms(2) have slot: "slot = q_head q" and q': "q' = q\<lparr>q_head := (if q_size q \<le> ucast (q_head q + 1) then 0 else q_head q + 1)\<rparr>"
    by (auto simp: enqueue_def Let_def)
  show "unat slot = unat (q_head q)" "q_size q' = q_size q" using slot q' by simp_all
  have h: "unat (q_head q + 1) = unat (q_head q) + 1"
    using assms(1) by (simp add: ring_ok_def unat_word_ariths)
  have le: "q_size q \<le> ucast (q_head q + 1) \<longleftrightarrow> unat (q_size q) \<le> unat (q_head q) + 1"
    by (simp add: word_le_nat_alt h)
  show mod: "unat (q_head q') = (unat (q_head q) + 1) mod unat (q_size q)"
    using assms(1) le h by (auto simp: q' ring_ok_def mod_if)
  show "ring_ok q'" using assms(1) mod q' by (auto simp: ring_ok_def)
qed

lemma enqueues_ring:
  assumes "ring_ok q" and "enqueues n q = (slots, q')"
  shows "map unat slots = map (\<lambda>i. (unat (q_head q) + i) mod unat (q_size q)) [0..<n]"
    and "unat (q_head q') = (unat (q_head q) + n) mod unat (q_size q)"
    and "q_size q' = q_size q" and "ring_ok q'"
proof -
  have "map unat slots = map (\<lambda>i. (unat (q_head q) + i) mod unat (q_size q)) [0..<n]
      \<and> unat (q_head q') = (unat (q_head q) + n) mod unat (q_size q)
      \<and> q_size q' = q_size q \<and> ring_ok q'"
    using assms
  proof (induction n arbitrary: q slots q')
    case 0
    then show ?case by (auto simp: ring_ok_def)
  next
    case (Suc n)
    obtain s q1 where e: "enqueue q = (s, q1)" by (cases "enqueue q")
    obtain ss q2 where es: "enqueues n q1 = (ss, q2)" by (cases "enqueues n q1")
    from Suc.prems e es have eq: "slots = s # ss" "q' = q2" by simp_all
    note r = enqueue_ring [OF Suc.prems(1) e]
    from Suc.IH [OF r(4) es] have IH: "map unat ss = map (\<lambda>i. (unat (q_head q1) + i) mod unat (q_size q1)) [0..<n]"
      "unat (q_head q2) = (unat (q_head q1) + n) mod unat (q_size q1)" "q_size q2 = q_size q1" "ring_ok q2"
      by simp_all
    have "unat (q_head q) = (unat (q_head q) + 0) mod unat (q_size q)"
      using Suc.prems(1) by (simp add: ring_ok_def)
    moreover have "[0..<Suc n] = 0 # map Suc [0..<n]" by (simp add: upt_conv_Cons map_Suc_upt del: upt_Suc)
    ultimately show ?case using IH eq r by (simp add: mod_add_left_eq del: upt_Suc)
  qed
  then show "map unat slots = map (\<lambda>i. (unat (q_head q) + i) mod unat (q_size q)) [0..<n]"
    "unat (q_head q') = (unat (q_head q) + n) mod unat (q_size q)" "q_size q' = q_size q" "ring_ok q'"
    by simp_all
qed

text \<open>Fewer calls than there are slots never return a slot twice.\<close>

lemma enqueues_distinct:
  assumes "ring_ok q" and "enqueues n q = (slots, q')" and "n \<le> unat (q_size q)"
  shows "distinct slots"
proof -
  let ?h = "unat (q_head q)" and ?s = "unat (q_size q)"
  have "i = j" if "i < n" "j < n" "(?h + i) mod ?s = (?h + j) mod ?s" for i j
  proof -
    have le: "a = b" if "a \<le> b" "b < n" "(?h + a) mod ?s = (?h + b) mod ?s" for a b
    proof -
      from that have "?s dvd b - a" using mod_eq_dvd_iff_nat [of "?h + a" "?h + b" ?s] by simp
      with that assms(3) show ?thesis by (auto dest: dvd_imp_le)
    qed
    from that le [of i j] le [of j i] show ?thesis by (cases "i \<le> j") auto
  qed
  then have "distinct (map unat slots)"
    unfolding enqueues_ring(1) [OF assms(1,2)] by (auto simp: distinct_map inj_on_def)
  then show ?thesis by (simp add: distinct_map)
qed

end
