(* ===== verification/Opcode.thy ===== *)
theory Opcode
  imports Hca_Prelude
begin

text \<open>The enumerations of \<open>server/src/cmd.h\<close>: the opcodes of the commands and the status codes.\<close>

datatype (plugins only: code) OPCODE =
    QUERY_HCA_CAP
  | QUERY_ADAPTER
  | INIT_HCA
  | TEARDOWN_HCA
  | ENABLE_HCA
  | DISABLE_HCA
  | QUERY_PAGES
  | MANAGE_PAGES
  | SET_HCA_CAP
  | QUERY_ISSI
  | SET_ISSI
  | SET_DRIVER_VERSION
  | CREATE_MKEY
  | QUERY_MKEY
  | DESTROY_MKEY
  | QUERY_SPECIAL_CONTEXTS
  | CREATE_EQ
  | DESTROY_EQ
  | QUERY_EQ
  | GEN_EQE
  | CREATE_CQ
  | DESTROY_CQ
  | QUERY_CQ
  | MODIFY_CQ
  | QUERY_VPORT_STATE
  | MODIFY_VPORT_STATE
  | QUERY_NIC_VPORT_CONTEXT
  | MODIFY_NIC_VPORT_CONTEXT
  | QUERY_VPORT_COUNTER
  | ALLOC_PD
  | DEALLOC_PD
  | ALLOC_UAR
  | DEALLOC_UAR
  | CONFIG_INT_MODERATION
  | ACCESS_REG
  | NOP
  | ALLOC_TRANSPORT_DOMAIN
  | DEALLOC_TRANSPORT_DOMAIN
  | SET_L2_TABLE_ENTRY
  | QUERY_L2_TABLE_ENTRY
  | DELETE_L2_TABLE_ENTRY
  | CREATE_TIR
  | MODIFY_TIR
  | DESTROY_TIR
  | QUERY_TIR
  | CREATE_SQ
  | MODIFY_SQ
  | DESTROY_SQ
  | QUERY_SQ
  | CREATE_RQ
  | MODIFY_RQ
  | DESTROY_RQ
  | QUERY_RQ
  | CREATE_RMP
  | MODIFY_RMP
  | DESTROY_RMP
  | QUERY_RMP
  | CREATE_TIS
  | MODIFY_TIS
  | DESTROY_TIS
  | QUERY_TIS
  | CREATE_RQT
  | MODIFY_RQT
  | DESTROY_RQT
  | QUERY_RQT
  | SET_FLOW_TABLE_ROOT
  | CREATE_FLOW_TABLE
  | DESTROY_FLOW_TABLE
  | QUERY_FLOW_TABLE
  | CREATE_FLOW_GROUP
  | DESTROY_FLOW_GROUP
  | QUERY_FLOW_GROUP
  | SET_FLOW_TABLE_ENTRY
  | QUERY_FLOW_TABLE_ENTRY
  | DELETE_FLOW_TABLE_ENTRY
  | ALLOC_FLOW_COUNTER
  | DEALLOC_FLOW_COUNTER
  | QUERY_FLOW_COUNTER
  | MODIFY_FLOW_TABLE

primrec opcode_word :: "OPCODE \<Rightarrow> u32" where
    "opcode_word QUERY_HCA_CAP = 0x100"
  | "opcode_word QUERY_ADAPTER = 0x101"
  | "opcode_word INIT_HCA = 0x102"
  | "opcode_word TEARDOWN_HCA = 0x103"
  | "opcode_word ENABLE_HCA = 0x104"
  | "opcode_word DISABLE_HCA = 0x105"
  | "opcode_word QUERY_PAGES = 0x107"
  | "opcode_word MANAGE_PAGES = 0x108"
  | "opcode_word SET_HCA_CAP = 0x109"
  | "opcode_word QUERY_ISSI = 0x10a"
  | "opcode_word SET_ISSI = 0x10b"
  | "opcode_word SET_DRIVER_VERSION = 0x10d"
  | "opcode_word CREATE_MKEY = 0x200"
  | "opcode_word QUERY_MKEY = 0x201"
  | "opcode_word DESTROY_MKEY = 0x202"
  | "opcode_word QUERY_SPECIAL_CONTEXTS = 0x203"
  | "opcode_word CREATE_EQ = 0x301"
  | "opcode_word DESTROY_EQ = 0x302"
  | "opcode_word QUERY_EQ = 0x303"
  | "opcode_word GEN_EQE = 0x304"
  | "opcode_word CREATE_CQ = 0x400"
  | "opcode_word DESTROY_CQ = 0x401"
  | "opcode_word QUERY_CQ = 0x402"
  | "opcode_word MODIFY_CQ = 0x403"
  | "opcode_word QUERY_VPORT_STATE = 0x750"
  | "opcode_word MODIFY_VPORT_STATE = 0x751"
  | "opcode_word QUERY_NIC_VPORT_CONTEXT = 0x754"
  | "opcode_word MODIFY_NIC_VPORT_CONTEXT = 0x755"
  | "opcode_word QUERY_VPORT_COUNTER = 0x770"
  | "opcode_word ALLOC_PD = 0x800"
  | "opcode_word DEALLOC_PD = 0x801"
  | "opcode_word ALLOC_UAR = 0x802"
  | "opcode_word DEALLOC_UAR = 0x803"
  | "opcode_word CONFIG_INT_MODERATION = 0x804"
  | "opcode_word ACCESS_REG = 0x805"
  | "opcode_word NOP = 0x80d"
  | "opcode_word ALLOC_TRANSPORT_DOMAIN = 0x816"
  | "opcode_word DEALLOC_TRANSPORT_DOMAIN = 0x817"
  | "opcode_word SET_L2_TABLE_ENTRY = 0x829"
  | "opcode_word QUERY_L2_TABLE_ENTRY = 0x82a"
  | "opcode_word DELETE_L2_TABLE_ENTRY = 0x82b"
  | "opcode_word CREATE_TIR = 0x900"
  | "opcode_word MODIFY_TIR = 0x901"
  | "opcode_word DESTROY_TIR = 0x902"
  | "opcode_word QUERY_TIR = 0x903"
  | "opcode_word CREATE_SQ = 0x904"
  | "opcode_word MODIFY_SQ = 0x905"
  | "opcode_word DESTROY_SQ = 0x906"
  | "opcode_word QUERY_SQ = 0x907"
  | "opcode_word CREATE_RQ = 0x908"
  | "opcode_word MODIFY_RQ = 0x909"
  | "opcode_word DESTROY_RQ = 0x90a"
  | "opcode_word QUERY_RQ = 0x90b"
  | "opcode_word CREATE_RMP = 0x90c"
  | "opcode_word MODIFY_RMP = 0x90d"
  | "opcode_word DESTROY_RMP = 0x90e"
  | "opcode_word QUERY_RMP = 0x90f"
  | "opcode_word CREATE_TIS = 0x912"
  | "opcode_word MODIFY_TIS = 0x913"
  | "opcode_word DESTROY_TIS = 0x914"
  | "opcode_word QUERY_TIS = 0x915"
  | "opcode_word CREATE_RQT = 0x916"
  | "opcode_word MODIFY_RQT = 0x917"
  | "opcode_word DESTROY_RQT = 0x918"
  | "opcode_word QUERY_RQT = 0x919"
  | "opcode_word SET_FLOW_TABLE_ROOT = 0x92f"
  | "opcode_word CREATE_FLOW_TABLE = 0x930"
  | "opcode_word DESTROY_FLOW_TABLE = 0x931"
  | "opcode_word QUERY_FLOW_TABLE = 0x932"
  | "opcode_word CREATE_FLOW_GROUP = 0x933"
  | "opcode_word DESTROY_FLOW_GROUP = 0x934"
  | "opcode_word QUERY_FLOW_GROUP = 0x935"
  | "opcode_word SET_FLOW_TABLE_ENTRY = 0x936"
  | "opcode_word QUERY_FLOW_TABLE_ENTRY = 0x937"
  | "opcode_word DELETE_FLOW_TABLE_ENTRY = 0x938"
  | "opcode_word ALLOC_FLOW_COUNTER = 0x939"
  | "opcode_word DEALLOC_FLOW_COUNTER = 0x93a"
  | "opcode_word QUERY_FLOW_COUNTER = 0x93b"
  | "opcode_word MODIFY_FLOW_TABLE = 0x93c"

datatype (plugins only: code) CMD_STATUS =
    CMD_STATUS_OK
  | CMD_STATUS_INT_ERR
  | CMD_STATUS_BAD_OP_ERR
  | CMD_STATUS_BAD_PARAM_ERR
  | CMD_STATUS_BAD_SYS_STATE_ERR
  | CMD_STATUS_BAD_RES_ERR
  | CMD_STATUS_RES_BUSY
  | CMD_STATUS_LIM_ERR
  | CMD_STATUS_BAD_RES_STATE_ERR
  | CMD_STATUS_IX_ERR
  | CMD_STATUS_NO_RES_ERR
  | CMD_STATUS_BAD_INP_LEN_ERR
  | CMD_STATUS_BAD_OUTP_LEN_ERR
  | CMD_STATUS_BAD_QP_STATE_ERR
  | CMD_STATUS_BAD_PKT_ERR
  | CMD_STATUS_BAD_SIZE_OUTS_CQES_ERR

primrec cmd_status_word :: "CMD_STATUS \<Rightarrow> u32" where
    "cmd_status_word CMD_STATUS_OK = 0x0"
  | "cmd_status_word CMD_STATUS_INT_ERR = 0x1"
  | "cmd_status_word CMD_STATUS_BAD_OP_ERR = 0x2"
  | "cmd_status_word CMD_STATUS_BAD_PARAM_ERR = 0x3"
  | "cmd_status_word CMD_STATUS_BAD_SYS_STATE_ERR = 0x4"
  | "cmd_status_word CMD_STATUS_BAD_RES_ERR = 0x5"
  | "cmd_status_word CMD_STATUS_RES_BUSY = 0x6"
  | "cmd_status_word CMD_STATUS_LIM_ERR = 0x8"
  | "cmd_status_word CMD_STATUS_BAD_RES_STATE_ERR = 0x9"
  | "cmd_status_word CMD_STATUS_IX_ERR = 0xa"
  | "cmd_status_word CMD_STATUS_NO_RES_ERR = 0xf"
  | "cmd_status_word CMD_STATUS_BAD_INP_LEN_ERR = 0x50"
  | "cmd_status_word CMD_STATUS_BAD_OUTP_LEN_ERR = 0x51"
  | "cmd_status_word CMD_STATUS_BAD_QP_STATE_ERR = 0x10"
  | "cmd_status_word CMD_STATUS_BAD_PKT_ERR = 0x30"
  | "cmd_status_word CMD_STATUS_BAD_SIZE_OUTS_CQES_ERR = 0x40"

datatype (plugins only: code) CQE_STATUS =
    CQE_STATUS_OK
  | CQE_STATUS_BAD_SIG
  | CQE_STATUS_BAD_TOKEN
  | CQE_STATUS_BAD_BNUM
  | CQE_STATUS_BAD_OUT_PTR
  | CQE_STATUS_BAD_IN_PTR
  | CQE_STATUS_INTERNAL_ERR
  | CQE_STATUS_IN_LEN_ERR
  | CQE_STATUS_OUT_LEN_ERR
  | CQE_STATUS_PAD_NOT_ZERO
  | CQE_STATUS_BAD_TYPE

primrec cqe_status_word :: "CQE_STATUS \<Rightarrow> u32" where
    "cqe_status_word CQE_STATUS_OK = 0x0"
  | "cqe_status_word CQE_STATUS_BAD_SIG = 0x1"
  | "cqe_status_word CQE_STATUS_BAD_TOKEN = 0x2"
  | "cqe_status_word CQE_STATUS_BAD_BNUM = 0x3"
  | "cqe_status_word CQE_STATUS_BAD_OUT_PTR = 0x4"
  | "cqe_status_word CQE_STATUS_BAD_IN_PTR = 0x5"
  | "cqe_status_word CQE_STATUS_INTERNAL_ERR = 0x6"
  | "cqe_status_word CQE_STATUS_IN_LEN_ERR = 0x7"
  | "cqe_status_word CQE_STATUS_OUT_LEN_ERR = 0x8"
  | "cqe_status_word CQE_STATUS_PAD_NOT_ZERO = 0x9"
  | "cqe_status_word CQE_STATUS_BAD_TYPE = 0x10"

section \<open>Decoding\<close>

text \<open>
  Every enumeration as the list of its values, and the value a word stands for. Both status
  switches of \<open>cmd.cc\<close> treat every value but the first one alike.
\<close>

definition opcodes :: "OPCODE list" where
  "opcodes = 
    [QUERY_HCA_CAP, QUERY_ADAPTER, INIT_HCA, TEARDOWN_HCA, ENABLE_HCA, DISABLE_HCA, QUERY_PAGES,
     MANAGE_PAGES, SET_HCA_CAP, QUERY_ISSI, SET_ISSI, SET_DRIVER_VERSION, CREATE_MKEY,
     QUERY_MKEY, DESTROY_MKEY, QUERY_SPECIAL_CONTEXTS, CREATE_EQ, DESTROY_EQ, QUERY_EQ, GEN_EQE,
     CREATE_CQ, DESTROY_CQ, QUERY_CQ, MODIFY_CQ, QUERY_VPORT_STATE, MODIFY_VPORT_STATE,
     QUERY_NIC_VPORT_CONTEXT, MODIFY_NIC_VPORT_CONTEXT, QUERY_VPORT_COUNTER, ALLOC_PD,
     DEALLOC_PD, ALLOC_UAR, DEALLOC_UAR, CONFIG_INT_MODERATION, ACCESS_REG, NOP,
     ALLOC_TRANSPORT_DOMAIN, DEALLOC_TRANSPORT_DOMAIN, SET_L2_TABLE_ENTRY, QUERY_L2_TABLE_ENTRY,
     DELETE_L2_TABLE_ENTRY, CREATE_TIR, MODIFY_TIR, DESTROY_TIR, QUERY_TIR, CREATE_SQ, MODIFY_SQ,
     DESTROY_SQ, QUERY_SQ, CREATE_RQ, MODIFY_RQ, DESTROY_RQ, QUERY_RQ, CREATE_RMP, MODIFY_RMP,
     DESTROY_RMP, QUERY_RMP, CREATE_TIS, MODIFY_TIS, DESTROY_TIS, QUERY_TIS, CREATE_RQT,
     MODIFY_RQT, DESTROY_RQT, QUERY_RQT, SET_FLOW_TABLE_ROOT, CREATE_FLOW_TABLE,
     DESTROY_FLOW_TABLE, QUERY_FLOW_TABLE, CREATE_FLOW_GROUP, DESTROY_FLOW_GROUP,
     QUERY_FLOW_GROUP, SET_FLOW_TABLE_ENTRY, QUERY_FLOW_TABLE_ENTRY, DELETE_FLOW_TABLE_ENTRY,
     ALLOC_FLOW_COUNTER, DEALLOC_FLOW_COUNTER, QUERY_FLOW_COUNTER, MODIFY_FLOW_TABLE]"

definition opcode_of :: "u32 \<Rightarrow> OPCODE option" where
  "opcode_of w = map_of (map (\<lambda>x. (opcode_word x, x)) opcodes) w"

text \<open>An opcode fits the 16 bits it has in a command, and determines the command.\<close>

lemma opcode_fits: "opcode_word opc < 0x10000"
  by (cases opc) simp_all

lemma opcode_of_word: "opcode_of (opcode_word opc) = Some opc"
  by (cases opc) (simp_all add: opcode_of_def opcodes_def)

end
