(* ===== verification/Cmd.thy ===== *)
theory Cmd
  imports Queue Opcode
begin

text \<open>
  The command interface of the device: \<open>server/src/cmd.h\<close> and \<open>cmd.cc\<close>. A command is
  written to a 64-byte entry of the command queue, its input and output beyond 16 bytes to
  chains of mailbox blocks; the driver rings the doorbell and polls the entry.
\<close>

section \<open>Layout\<close>

abbreviation (input) CQE_MAILBOX_MASK :: u32 where "CQE_MAILBOX_MASK \<equiv> NOT 0x1ff"
abbreviation (input) CQE_TYPE_MASK :: u32 where "CQE_TYPE_MASK \<equiv> 0xff000000"
abbreviation (input) CQE_STATUS_MASK :: u32 where "CQE_STATUS_MASK \<equiv> 0x000000fe"
abbreviation (input) CQE_OWNERSHIP_MASK :: u32 where "CQE_OWNERSHIP_MASK \<equiv> 0x00000001"
abbreviation (input) CID_OPCODE_MASK :: u32 where "CID_OPCODE_MASK \<equiv> 0xffff0000"
abbreviation (input) CID_OP_MOD_MASK :: u32 where "CID_OP_MOD_MASK \<equiv> 0x0000ffff"
abbreviation (input) COD_STATUS_MASK :: u32 where "COD_STATUS_MASK \<equiv> 0xff000000"
abbreviation (input) CQE_TYPE_OFFSET :: nat where "CQE_TYPE_OFFSET \<equiv> 24"
abbreviation (input) CQE_STATUS_OFFSET :: nat where "CQE_STATUS_OFFSET \<equiv> 1"
abbreviation (input) CID_OPCODE_OFFSET :: nat where "CID_OPCODE_OFFSET \<equiv> 16"
abbreviation (input) COD_STATUS_OFFSET :: nat where "COD_STATUS_OFFSET \<equiv> 24"
abbreviation (input) MAILBOX_ALIGN_SIZE :: u32 where "MAILBOX_ALIGN_SIZE \<equiv> 0x1000"
abbreviation (input) IMB_MAX_DATA :: u32 where "IMB_MAX_DATA \<equiv> 128 * 50"
abbreviation (input) OMB_MAX_DATA :: u32 where "OMB_MAX_DATA \<equiv> 128 * 50"
abbreviation (input) CMD_TIMEOUT_MS :: nat where "CMD_TIMEOUT_MS \<equiv> 5000"

text \<open>
  The registers of a command queue entry (\<open>CQE\<close>), which holds the input data \<open>CID\<close> and the
  output data \<open>COD\<close>, and of a mailbox block (\<open>MBB\<close>), in 32-bit words from its start.
\<close>

definition cqe_type :: nat where "cqe_type = 0"
definition cqe_input_length :: nat where "cqe_input_length = 1"
definition cqe_input_mailbox_msb :: nat where "cqe_input_mailbox_msb = 2"
definition cqe_input_mailbox_lsb :: nat where "cqe_input_mailbox_lsb = 3"
definition cid_opcode :: nat where "cid_opcode = 4"
definition cid_op_mod :: nat where "cid_op_mod = 5"
definition cid_data :: "nat \<Rightarrow> nat" where "cid_data i = 6 + i"
definition cod_status :: nat where "cod_status = 8"
definition cod_syndrome :: nat where "cod_syndrome = 9"
definition cod_output :: "nat \<Rightarrow> nat" where "cod_output i = 10 + i"
definition cqe_output_mailbox_msb :: nat where "cqe_output_mailbox_msb = 12"
definition cqe_output_mailbox_lsb :: nat where "cqe_output_mailbox_lsb = 13"
definition cqe_output_length :: nat where "cqe_output_length = 14"
definition cqe_ctrl :: nat where "cqe_ctrl = 15"

definition mbb_data :: "nat \<Rightarrow> nat" where "mbb_data i = i"
definition mbb_next_pointer_msb :: nat where "mbb_next_pointer_msb = 140"
definition mbb_next_pointer_lsb :: nat where "mbb_next_pointer_lsb = 141"
definition mbb_block_number :: nat where "mbb_block_number = 142"
definition mbb_ctrl :: nat where "mbb_ctrl = 143"

named_theorems layout_defs "register numbers of the shared structures"

lemmas cqe_layout [layout_defs] = cqe_type_def cqe_input_length_def cqe_input_mailbox_msb_def
  cqe_input_mailbox_lsb_def cid_opcode_def cid_op_mod_def cid_data_def cod_status_def
  cod_syndrome_def cod_output_def cqe_output_mailbox_msb_def cqe_output_mailbox_lsb_def
  cqe_output_length_def cqe_ctrl_def

lemmas mbb_layout [layout_defs] = mbb_data_def mbb_next_pointer_msb_def mbb_next_pointer_lsb_def
  mbb_block_number_def mbb_ctrl_def

section \<open>State\<close>

text \<open>\<open>CMD_Args\<close>, all that is needed to execute commands, and the machine they run on.\<close>

record 'h CMD_Args =
  mach :: "'h machine"
  cq :: Queue
  dbv :: u64
  imb_mem :: DMA_MEM
  omb_mem :: DMA_MEM

definition on_mach :: "('h machine, 'a) prog \<Rightarrow> (('h, 'z) CMD_Args_scheme, 'a) prog" where
  "on_mach m = zoom mach (\<lambda>x a. a\<lparr>mach := x\<rparr>) m"

text \<open>\<open>&((CQE*)q.start)[slot]\<close>\<close>

definition cqe_at :: "'q Queue_scheme \<Rightarrow> u32 \<Rightarrow> u64" where
  "cqe_at q slot = q_start q + ucast slot * 64"

section \<open>Polling and status checks\<close>

definition poll_ownership :: "'h platform \<Rightarrow> u64 \<Rightarrow> ('h machine, unit) prog" where
  "poll_ownership E cqe =
     bnd (gets clock) (\<lambda>start.
     loop (\<lambda>_.
       bnd (gets (\<lambda>m. ucast (ioread32be (reg cqe cqe_ctrl) m AND CQE_OWNERSHIP_MASK) :: u8)) (\<lambda>res.
       if res = 0 then ret (Inl ())
       else bnd (gets clock) (\<lambda>now.
            if now - start \<ge> CMD_TIMEOUT_MS then throw (Runtime_error ''CMD Timeout'')
            else andthen (modify (elapse E 20)) (ret (Inr ()))))) ())"

definition check_cqe_status :: "u64 \<Rightarrow> ('h machine, unit) prog" where
  "check_cqe_status cqe =
     bnd (gets (\<lambda>m. drop_bit CQE_STATUS_OFFSET (ioread32be (reg cqe cqe_ctrl) m AND CQE_STATUS_MASK))) (\<lambda>status.
     if status = cqe_status_word CQE_STATUS_OK then ret () else throw (Runtime_error ''CQE Error''))"

text \<open>\<open>cod\<close> is the address of the entry, of which the output data is a part.\<close>

definition check_cod_status :: "u64 \<Rightarrow> ('h machine, unit) prog" where
  "check_cod_status cqe =
     bnd (gets (\<lambda>m. drop_bit COD_STATUS_OFFSET (ioread32be (reg cqe cod_status) m AND COD_STATUS_MASK))) (\<lambda>status.
     if status = cmd_status_word CMD_STATUS_OK then ret () else throw (Runtime_error ''COD Error''))"

section \<open>Mailboxes\<close>

definition prepare_mbb :: "u64 \<Rightarrow> u64 \<Rightarrow> u32 \<Rightarrow> 'h machine \<Rightarrow> 'h machine" where
  "prepare_mbb mbb phys_addr block_number m =
     (let m = iowrite32be (reg mbb mbb_next_pointer_msb) (ucast (drop_bit 32 phys_addr)) m;
          m = iowrite32be (reg mbb mbb_next_pointer_lsb) (ucast phys_addr) m;
          m = iowrite32be (reg mbb mbb_block_number) block_number m
      in iowrite32be (reg mbb mbb_ctrl) 0 m)"

text \<open>
  \<open>offset_in_bytes\<close>, a product in 32 bits that is stored in an \<open>int\<close> and sign-extended when
  it is added to a 64-bit address.
\<close>

definition mbb_offset :: "u32 \<Rightarrow> u64" where
  "mbb_offset i = scast (MAILBOX_ALIGN_SIZE * i)"

definition tie_mail_together :: "DMA_MEM \<Rightarrow> u32 \<Rightarrow> 'h machine \<Rightarrow> 'h machine" where
  "tie_mail_together mailbox mailbox_counter m =
     (let m = fold (\<lambda>i. prepare_mbb (dm_virt mailbox + mbb_offset (of_nat i))
                     (dm_phys mailbox + mbb_offset (of_nat i) + ucast MAILBOX_ALIGN_SIZE) (of_nat i))
                [0..<unat mailbox_counter] m
      in prepare_mbb (dm_virt mailbox + mbb_offset mailbox_counter) 0 mailbox_counter m)"

text \<open>
  The local variables of the loops of \<open>pack_mail\<close> and \<open>unpack_mail\<close>: the block being filled
  or read (\<open>package\<close>), \<open>data_counter\<close> and \<open>mailbox_counter\<close>; a new block is started after 128
  words. A payload is the array from the pointer passed on.
\<close>

definition next_word :: "DMA_MEM \<Rightarrow> u64 \<times> u32 \<times> u32 \<Rightarrow> u64 \<times> u32 \<times> u32" where
  "next_word mailbox = (\<lambda>(package, data_counter, mailbox_counter).
     if data_counter = 128
     then (dm_virt mailbox + mbb_offset (mailbox_counter + 1), 0, mailbox_counter + 1)
     else (package, data_counter, mailbox_counter))"

definition pack_mail :: "DMA_MEM \<Rightarrow> u32 list \<Rightarrow> u32 \<Rightarrow> ('h machine, unit) prog" where
  "pack_mail mailbox payload len =
     bnd (fold_m (\<lambda>i vars.
            let (package, data_counter, mailbox_counter) = next_word mailbox vars in
            bnd (read_word payload i) (\<lambda>w.
            andthen (modify (iowrite32be (reg package (mbb_data (unat data_counter))) w))
                    (ret (package, data_counter + 1, mailbox_counter))))
          [0..<unat len] (dm_virt mailbox, 0, 0)) (\<lambda>(_, _, mailbox_counter).
     modify (tie_mail_together mailbox mailbox_counter))"

definition unpack_mail :: "DMA_MEM \<Rightarrow> u32 list \<Rightarrow> u32 \<Rightarrow> ('h machine, u32 list) prog" where
  "unpack_mail mailbox payload len =
     bnd (fold_m (\<lambda>i (payload, vars).
            let (package, data_counter, mailbox_counter) = next_word mailbox vars in
            bnd (gets (ioread32be (reg package (mbb_data (unat data_counter))))) (\<lambda>w.
            bnd (write_word payload i w) (\<lambda>payload.
            ret (payload, package, data_counter + 1, mailbox_counter))))
          [0..<unat len] (payload, dm_virt mailbox, 0, 0)) (\<lambda>(payload, _).
     ret payload)"

section \<open>Commands\<close>

text \<open>\<open>create_cqe\<close> in the order of the code: the input, then opcode and output, then the slot.\<close>

definition put :: "u64 \<Rightarrow> nat \<Rightarrow> u32 \<Rightarrow> (('h, 'z) CMD_Args_scheme, unit) prog" where
  "put cqe r v = on_mach (modify (iowrite32be (reg cqe r) v))"

definition put_input :: "u64 \<Rightarrow> u32 \<Rightarrow> u32 list \<Rightarrow> u32 \<Rightarrow> (('h, 'z) CMD_Args_scheme, unit) prog" where
  "put_input cqe input_length payload payload_length =
     (if input_length > 8
      then bnd (read_word payload 0) (\<lambda>w0.
           andthen (put cqe (cid_data 0) w0)
           (if input_length > 12
            then bnd (read_word payload 1) (\<lambda>w1.
                 andthen (put cqe (cid_data 1) w1)
                 (if input_length > 16
                  then bnd (gets imb_mem) (\<lambda>imb.
                       andthen (on_mach (pack_mail imb (drop 2 payload) (payload_length - 2)))
                      (andthen (put cqe cqe_input_mailbox_msb (ucast (drop_bit 32 (dm_phys imb))))
                               (put cqe cqe_input_mailbox_lsb (ucast (dm_phys imb) AND CQE_MAILBOX_MASK))))
                  else ret ()))
            else ret ()))
      else ret ())"

definition put_output :: "u64 \<Rightarrow> u32 \<Rightarrow> (('h, 'z) CMD_Args_scheme, unit) prog" where
  "put_output cqe output_length =
     (if output_length > 16
      then bnd (gets omb_mem) (\<lambda>omb.
           let mbb_bytes = 128 * 4; omb_length = output_length - 16;
               mailbox_counter = (if omb_length > mbb_bytes
                 then (let n = omb_length div mbb_bytes in if omb_length mod mbb_bytes = 0 then n - 1 else n)
                 else 0) in
           andthen (on_mach (modify (tie_mail_together omb mailbox_counter)))
          (andthen (put cqe cqe_output_mailbox_msb (ucast (drop_bit 32 (dm_phys omb))))
                   (put cqe cqe_output_mailbox_lsb (ucast (dm_phys omb) AND CQE_MAILBOX_MASK))))
      else ret ())"

definition create_cqe :: "OPCODE \<Rightarrow> u32 \<Rightarrow> u32 list \<Rightarrow> u32 \<Rightarrow> u32 \<Rightarrow> (('h, 'z) CMD_Args_scheme, u32) prog" where
  "create_cqe opcode op_mod payload payload_length output_length0 =
     (let output_length = (output_length0 + 2) * 4 in
     bnd (gets (\<lambda>a. cqe_at (cq a) (q_head (cq a)))) (\<lambda>cqe.
     andthen (on_mach (modify (fold (\<lambda>i. iowrite32be (reg cqe i) 0) [0..<16])))
    (let input_length = (payload_length + 2) * 4 in
     andthen (put cqe cqe_type (CQE_TYPE_MASK AND push_bit CQE_TYPE_OFFSET 7))
    (andthen (put cqe cqe_input_length input_length)
    (andthen (put_input cqe input_length payload payload_length)
    (andthen (put cqe cid_opcode (CID_OPCODE_MASK AND push_bit CID_OPCODE_OFFSET (opcode_word opcode)))
    (andthen (put cqe cid_op_mod (CID_OP_MOD_MASK AND op_mod))
    (andthen (put_output cqe output_length)
    (andthen (put cqe cqe_output_length output_length)
    (andthen (put cqe cqe_ctrl 1)
    (bnd (gets (\<lambda>a. enqueue (cq a))) (\<lambda>(slot, q).
     andthen (modify (\<lambda>a. a\<lparr>cq := q\<rparr>)) (ret slot)))))))))))))"

text \<open>The words of the output the command returned, stored to the array \<open>out\<close>.\<close>

definition get_cmd_output :: "u32 \<Rightarrow> u32 list \<Rightarrow> u32 \<Rightarrow> (('h, 'z) CMD_Args_scheme, u32 list) prog" where
  "get_cmd_output slot out output_length =
     bnd (gets (\<lambda>a. cqe_at (cq a) slot)) (\<lambda>cqe.
     if output_length = 0 then ret out
     else bnd (on_mach (gets (ioread32be (reg cqe (cod_output 0))))) (\<lambda>w0.
          bnd (write_word out 0 w0) (\<lambda>out.
          if output_length > 1
          then bnd (on_mach (gets (ioread32be (reg cqe (cod_output 1))))) (\<lambda>w1.
               bnd (write_word out 1 w1) (\<lambda>out.
               if output_length > 2
               then bnd (gets omb_mem) (\<lambda>omb.
                    bnd (on_mach (unpack_mail omb (drop 2 out) (output_length - 2))) (\<lambda>rest.
                    ret (take 2 out @ rest)))
               else ret out))
          else ret out)))"

text \<open>The sum of \<open>1 << slots[i]\<close>; a shift of an \<open>int\<close> by 32 or more is undefined.\<close>

definition ring_doorbell :: "u64 \<Rightarrow> u32 list \<Rightarrow> int \<Rightarrow> ('h machine, unit) prog" where
  "ring_doorbell db slots count =
     bnd (fold_m (\<lambda>i dbr.
            bnd (read_word slots i) (\<lambda>s.
            if unat s < 32 then ret (dbr + push_bit (unat s) 1)
            else throw (Undefined ''shift count'')))
          [0..<nat count] (0 :: u32)) (\<lambda>dbr.
     modify (iowrite32be db dbr))"

definition validate_cqe :: "'h platform \<Rightarrow> 'q Queue_scheme \<Rightarrow> u32 list \<Rightarrow> int \<Rightarrow> ('h machine, unit) prog" where
  "validate_cqe E q slots count =
     for_each (\<lambda>i.
       bnd (read_word slots i) (\<lambda>s.
       andthen (poll_ownership E (cqe_at q s))
      (andthen (check_cqe_status (cqe_at q s))
               (check_cod_status (cqe_at q s)))))
     [0..<nat count]"

end
