(* ===== verification/Cmd_Mail.thy ===== *)
theory Cmd_Mail
  imports Cmd
begin

text \<open>
  Mailboxes: what \<open>pack_mail\<close> leaves in memory, that the device finds the payload by
  following the chain, and that \<open>unpack_mail\<close> reads it back.
\<close>

section \<open>Where the words of a mailbox are\<close>

text \<open>The register of a mailbox block, and that of the \<open>i\<close>-th word of the payload.\<close>

definition block_reg :: "u64 \<Rightarrow> nat \<Rightarrow> nat \<Rightarrow> u64" where
  "block_reg virt k j = reg virt (1024 * k + j)"

definition mail_reg :: "u64 \<Rightarrow> nat \<Rightarrow> u64" where
  "mail_reg virt i = block_reg virt (i div 128) (mbb_data (i mod 128))"

lemma mbb_offset_eq: "k < 2 ^ 19 \<Longrightarrow> mbb_offset (of_nat k) = 4096 * of_nat k"
proof -
  assume k: "k < 2 ^ 19"
  have u: "unat (4096 * of_nat k :: u32) = 4096 * k"
    using k by (simp add: unat_word_ariths unsigned_of_nat take_bit_nat_eq_self)
  have "\<not> bit (unat (4096 * of_nat k :: u32)) 31"
    using k by (simp only: u) (simp add: bit_iff_odd)
  then have "\<not> bit (4096 * of_nat k :: u32) 31" by (simp add: bit_unsigned_iff)
  moreover have "n = 31" if "31 \<le> n" "bit w n" for n and w :: u32
    using bit_imp_le_length [OF that(2)] that(1) by simp
  ultimately have "(scast (4096 * of_nat k :: u32) :: u64) = ucast (4096 * of_nat k :: u32)"
    by (intro bit_word_eqI) (auto simp: bit_simps min_def)
  also have "\<dots> = of_nat (4096 * k)" using u by (metis of_nat_unat)
  finally show ?thesis by (simp add: mbb_offset_def)
qed

lemma block_reg_eq: "k < 2 ^ 19 \<Longrightarrow> reg (virt + mbb_offset (of_nat k)) j = block_reg virt k j"
  by (simp add: mbb_offset_eq block_reg_def reg_def)

lemma block_reg_inj:
  assumes "k < 2 ^ 19" "k' < 2 ^ 19" "j < 1024" "j' < 1024"
  shows "block_reg virt k j = block_reg virt k' j' \<longleftrightarrow> k = k' \<and> j = j'"
proof -
  have "block_reg virt k j = block_reg virt k' j' \<longleftrightarrow> 1024 * k + j = 1024 * k' + j'"
    using assms unfolding block_reg_def by (intro reg_inj) auto
  also have "\<dots> \<longleftrightarrow> k = k' \<and> j = j'"
    using assms(3,4) by (metis add.commute div_mult_self2 mod_mult_self2 div_less mod_less add_0 zero_neq_numeral)
  finally show ?thesis .
qed

lemma mail_reg_inj: "i < 2 ^ 26 \<Longrightarrow> i' < 2 ^ 26 \<Longrightarrow> mail_reg virt i = mail_reg virt i' \<longleftrightarrow> i = i'"
proof -
  assume "i < 2 ^ 26" "i' < 2 ^ 26"
  then have "i div 128 < 2 ^ 19" "i' div 128 < 2 ^ 19" by auto
  then have "mail_reg virt i = mail_reg virt i' \<longleftrightarrow> i div 128 = i' div 128 \<and> i mod 128 = i' mod 128"
    unfolding mail_reg_def mbb_data_def by (intro block_reg_inj) (auto intro: less_trans [OF mod_less_divisor])
  then show ?thesis by (metis div_mult_mod_eq)
qed

section \<open>The loops\<close>

text \<open>The local variables after \<open>n\<close> words, and the number of the last block.\<close>

definition last_block :: "nat \<Rightarrow> nat" where
  "last_block n = (n - 1) div 128"

definition word_vars :: "DMA_MEM \<Rightarrow> nat \<Rightarrow> u64 \<times> u32 \<times> u32" where
  "word_vars mailbox n = (dm_virt mailbox + mbb_offset (of_nat (last_block n)),
     if n = 0 then 0 else of_nat ((n - 1) mod 128) + 1, of_nat (last_block n))"

lemma word_vars_0: "word_vars mailbox 0 = (dm_virt mailbox, 0, 0)"
  by (simp add: word_vars_def last_block_def mbb_offset_def)

lemma next_word_vars:
  assumes "n < 2 ^ 26"
  shows "next_word mailbox (word_vars mailbox n) =
    (dm_virt mailbox + mbb_offset (of_nat (n div 128)), of_nat (n mod 128), of_nat (n div 128))"
proof (cases n)
  case 0
  then show ?thesis by (simp add: word_vars_0 next_word_def mbb_offset_def)
next
  case (Suc k)
  have cnt: "(of_nat (k mod 128) + 1 :: u32) = 128 \<longleftrightarrow> k mod 128 = 127"
  proof -
    have "unat (of_nat (k mod 128) + 1 :: u32) = k mod 128 + 1"
      by (simp add: unat_word_ariths unsigned_of_nat take_bit_nat_eq_self)
    then show ?thesis by (auto simp: word_unat_eq_iff)
  qed
  show ?thesis
  proof (cases "k mod 128 = 127")
    case True
    then have "Suc k div 128 = k div 128 + 1" "Suc k mod 128 = 0" by (auto simp: div_Suc mod_Suc)
    with Suc True cnt show ?thesis by (simp add: next_word_def word_vars_def last_block_def add.commute)
  next
    case False
    then have "Suc k div 128 = k div 128" "Suc k mod 128 = k mod 128 + 1" by (auto simp: div_Suc mod_Suc)
    with Suc False cnt show ?thesis by (simp add: next_word_def word_vars_def last_block_def add.commute)
  qed
qed

lemma word_vars_Suc:
  "word_vars mailbox (Suc n) =
    (dm_virt mailbox + mbb_offset (of_nat (n div 128)), of_nat (n mod 128) + 1, of_nat (n div 128))"
  by (simp add: word_vars_def last_block_def)

lemma unat_mod_128: "unat (of_nat (n mod 128) :: u32) = n mod 128"
  by (simp add: unsigned_of_nat take_bit_nat_eq_self)

lemma word_reg: "n < 2 ^ 26 \<Longrightarrow>
  reg (dm_virt mb + mbb_offset (of_nat (n div 128))) (mbb_data (unat (of_nat (n mod 128) :: u32))) = mail_reg (dm_virt mb) n"
  by (simp add: unat_mod_128 block_reg_eq mail_reg_def)

definition write_words :: "u64 \<Rightarrow> u32 list \<Rightarrow> nat \<Rightarrow> 'h machine \<Rightarrow> 'h machine" where
  "write_words virt payload n m = fold (\<lambda>i. iowrite32be (mail_reg virt i) (payload ! i)) [0..<n] m"

lemma pack_mail_run:
  assumes "unat len \<le> length payload" and "unat len \<le> 2 ^ 26"
  shows "pack_mail mb payload len m = Some (Inr (),
    tie_mail_together mb (of_nat (last_block (unat len))) (write_words (dm_virt mb) payload (unat len) m))"
proof -
  have "fold_m (\<lambda>i vars.
            let (package, data_counter, mailbox_counter) = next_word mb vars in
            bnd (read_word payload i) (\<lambda>w.
            andthen (modify (iowrite32be (reg package (mbb_data (unat data_counter))) w))
                    (ret (package, data_counter + 1, mailbox_counter))))
          [0..<n] (word_vars mb 0) m = Some (Inr (word_vars mb n), write_words (dm_virt mb) payload n m)"
    if "n \<le> length payload" "n \<le> 2 ^ 26" for n
    using that
  proof (induction n)
    case (Suc n)
    then show ?case
      by (simp add: prog_simps next_word_vars word_vars_Suc word_reg write_words_def)
  qed (simp add: prog_simps write_words_def)
  from this [OF assms] show ?thesis
    by (simp add: pack_mail_def prog_simps word_vars_0 [symmetric]) (simp add: word_vars_def prog_simps)
qed

lemma unpack_mail_run:
  assumes "unat len \<le> length out" and "unat len \<le> 2 ^ 26"
  shows "unpack_mail mb out len m = Some (Inr
    (map (\<lambda>i. ioread32be (mail_reg (dm_virt mb) i) m) [0..<unat len] @ drop (unat len) out), m)"
proof -
  have "fold_m (\<lambda>i (payload, vars).
            let (package, data_counter, mailbox_counter) = next_word mb vars in
            bnd (gets (ioread32be (reg package (mbb_data (unat data_counter))))) (\<lambda>w.
            bnd (write_word payload i w) (\<lambda>payload.
            ret (payload, package, data_counter + 1, mailbox_counter))))
          [0..<n] (out, word_vars mb 0) m =
      Some (Inr (map (\<lambda>i. ioread32be (mail_reg (dm_virt mb) i) m) [0..<n] @ drop n out, word_vars mb n), m)"
    if "n \<le> length out" "n \<le> 2 ^ 26" for n
    using that
  proof (induction n)
    case (Suc n)
    then have "drop n out = out ! n # drop (Suc n) out" by (simp add: Cons_nth_drop_Suc)
    with Suc show ?case
      by (simp add: prog_simps next_word_vars word_vars_Suc word_reg list_update_append nth_append)
  qed (simp add: prog_simps)
  from this [OF assms] show ?thesis
    by (simp add: unpack_mail_def prog_simps word_vars_0 [symmetric])
qed


section \<open>The chain of blocks\<close>

lemma prepare_mbb_read:
  "ioread32be a (prepare_mbb mbb phys n m) =
    (if a = reg mbb mbb_ctrl then 0
     else if a = reg mbb mbb_block_number then n
     else if a = reg mbb mbb_next_pointer_lsb then ucast phys
     else if a = reg mbb mbb_next_pointer_msb then ucast (drop_bit 32 phys)
     else ioread32be a m)"
  by (simp add: prepare_mbb_def Let_def be.rd_wr)

text \<open>The pointer to the block after the \<open>k\<close>-th of blocks \<open>0\<close> to \<open>mc\<close>.\<close>

definition next_pointer :: "DMA_MEM \<Rightarrow> nat \<Rightarrow> nat \<Rightarrow> u64" where
  "next_pointer mb mc k = (if k = mc then 0 else dm_phys mb + 4096 * of_nat (Suc k))"

lemma tie_run:
  assumes "mc < 2 ^ 19"
  shows "tie_mail_together mb (of_nat mc) m =
    fold (\<lambda>k. prepare_mbb (block_reg (dm_virt mb) k 0) (next_pointer mb mc k) (of_nat k)) [0..<Suc mc] m"
proof -
  have b: "dm_virt mb + mbb_offset (of_nat k) = block_reg (dm_virt mb) k 0" if "k \<le> mc" for k
    using block_reg_eq [of k "dm_virt mb" 0] that assms by simp
  have p: "dm_phys mb + mbb_offset (of_nat k) + ucast MAILBOX_ALIGN_SIZE = next_pointer mb mc k" if "k < mc" for k
  proof -
    have "mbb_offset (of_nat k) = 4096 * of_nat k" using that assms by (intro mbb_offset_eq) linarith
    with that show ?thesis by (simp add: next_pointer_def distrib_left)
  qed
  have "unat (of_nat mc :: u32) = mc" using assms by (simp add: unsigned_of_nat take_bit_nat_eq_self)
  moreover have "fold (\<lambda>i. prepare_mbb (dm_virt mb + mbb_offset (of_nat i))
          (dm_phys mb + mbb_offset (of_nat i) + ucast MAILBOX_ALIGN_SIZE) (of_nat i)) [0..<mc] m =
      fold (\<lambda>k. prepare_mbb (block_reg (dm_virt mb) k 0) (next_pointer mb mc k) (of_nat k)) [0..<mc] m"
    using b p by (intro fold_cong refl) auto
  ultimately show ?thesis
    using b [of mc] by (simp add: tie_mail_together_def next_pointer_def)
qed

lemma tie_read:
  assumes mc: "mc < 2 ^ 19" and k: "k \<le> mc"
  shows "ioread32be (block_reg (dm_virt mb) k mbb_next_pointer_msb) (tie_mail_together mb (of_nat mc) m) =
           ucast (drop_bit 32 (next_pointer mb mc k))"
    and "ioread32be (block_reg (dm_virt mb) k mbb_next_pointer_lsb) (tie_mail_together mb (of_nat mc) m) =
           ucast (next_pointer mb mc k)"
    and "ioread32be (block_reg (dm_virt mb) k mbb_block_number) (tie_mail_together mb (of_nat mc) m) = of_nat k"
    and "ioread32be (block_reg (dm_virt mb) k mbb_ctrl) (tie_mail_together mb (of_nat mc) m) = 0"
proof -
  let ?f = "\<lambda>k. prepare_mbb (block_reg (dm_virt mb) k 0) (next_pointer mb mc k) (of_nat k)"
  have rg: "reg (block_reg v k' 0) j = block_reg v k' j" for v k' j by (simp add: block_reg_def)
  have "ioread32be (block_reg (dm_virt mb) k j) (fold ?f [0..<n] m) =
      (if j = 143 then 0 else if j = 142 then of_nat k else if j = 141 then ucast (next_pointer mb mc k)
       else ucast (drop_bit 32 (next_pointer mb mc k)))"
    if "k < n" "n \<le> Suc mc" "140 \<le> j" "j < 144" for n j
    using that
  proof (induction n)
    case (Suc n)
    have inj: "block_reg (dm_virt mb) k j = block_reg (dm_virt mb) n j' \<longleftrightarrow> k = n \<and> j = j'" if "j' < 1024" for j'
      using Suc.prems mc k that by (intro block_reg_inj) auto
    note inj = inj [of 140, simplified] inj [of 141, simplified] inj [of 142, simplified] inj [of 143, simplified]
    have step: "ioread32be (block_reg (dm_virt mb) k j) (?f n m') = (if k = n \<and> j = 143 then 0
        else if k = n \<and> j = 142 then of_nat n else if k = n \<and> j = 141 then ucast (next_pointer mb mc n)
        else if k = n \<and> j = 140 then ucast (drop_bit 32 (next_pointer mb mc n))
        else ioread32be (block_reg (dm_virt mb) k j) m')" for m' :: "'a machine"
      by (simp only: prepare_mbb_read rg mbb_layout inj)
    show ?case
      unfolding fold_upt_Suc step using Suc.IH Suc.prems by (cases "k = n") auto
  qed simp
  from this [of "Suc mc"] k show
    "ioread32be (block_reg (dm_virt mb) k mbb_next_pointer_msb) (tie_mail_together mb (of_nat mc) m) =
           ucast (drop_bit 32 (next_pointer mb mc k))"
    "ioread32be (block_reg (dm_virt mb) k mbb_next_pointer_lsb) (tie_mail_together mb (of_nat mc) m) =
           ucast (next_pointer mb mc k)"
    "ioread32be (block_reg (dm_virt mb) k mbb_block_number) (tie_mail_together mb (of_nat mc) m) = of_nat k"
    "ioread32be (block_reg (dm_virt mb) k mbb_ctrl) (tie_mail_together mb (of_nat mc) m) = 0"
    by (simp_all add: tie_run [OF mc] mbb_layout del: upt_Suc)
qed

lemma tie_frame:
  assumes mc: "mc < 2 ^ 19" and a: "\<And>k j. k \<le> mc \<Longrightarrow> 140 \<le> j \<Longrightarrow> j < 144 \<Longrightarrow> a \<noteq> block_reg (dm_virt mb) k j"
  shows "ioread32be a (tie_mail_together mb (of_nat mc) m) = ioread32be a m"
proof -
  let ?f = "\<lambda>k. prepare_mbb (block_reg (dm_virt mb) k 0) (next_pointer mb mc k) (of_nat k)"
  have rg: "reg (block_reg v k' 0) j = block_reg v k' j" for v k' j by (simp add: block_reg_def)
  have "ioread32be a (fold ?f [0..<n] m) = ioread32be a m" if "n \<le> Suc mc" for n
    using that a by (induction n) (simp_all add: prepare_mbb_read rg mbb_layout)
  then show ?thesis by (simp add: tie_run [OF mc] del: upt_Suc)
qed

text \<open>The words of the payload, and what the message leaves alone.\<close>

lemma write_words_read:
  assumes "n \<le> 2 ^ 26" "i < n"
  shows "ioread32be (mail_reg virt i) (write_words virt payload n m) = payload ! i"
  unfolding write_words_def using assms
  by (intro be.rd_writes) (auto simp: inj_on_def mail_reg_inj)

lemma write_words_frame:
  assumes "\<And>i. i < n \<Longrightarrow> a \<noteq> mail_reg virt i"
  shows "ioread32be a (write_words virt payload n m) = ioread32be a m"
  unfolding write_words_def using assms by (intro be.rd_writes_frame)

text \<open>The memory of a mailbox of \<open>mc + 1\<close> blocks.\<close>

definition mailbox_at :: "DMA_MEM \<Rightarrow> nat \<Rightarrow> u64 \<Rightarrow> bool" where
  "mailbox_at mb mc a \<longleftrightarrow> (\<exists>k\<le>mc. \<exists>j<144. a = block_reg (dm_virt mb) k j)"

definition packed :: "DMA_MEM \<Rightarrow> u32 list \<Rightarrow> nat \<Rightarrow> 'h machine \<Rightarrow> 'h machine" where
  "packed mb payload n m = tie_mail_together mb (of_nat (last_block n)) (write_words (dm_virt mb) payload n m)"

lemma last_block_bound: "n \<le> 2 ^ 26 \<Longrightarrow> last_block n < 2 ^ 19"
  by (auto simp: last_block_def)

lemma packed_word:
  assumes n: "n \<le> 2 ^ 26" and i: "i < n"
  shows "ioread32be (mail_reg (dm_virt mb) i) (packed mb payload n m) = payload ! i"
proof -
  have "mail_reg (dm_virt mb) i \<noteq> block_reg (dm_virt mb) k j" if "k \<le> last_block n" "140 \<le> j" "j < 144" for k j
  proof -
    have "i div 128 < 2 ^ 19" "k < 2 ^ 19" using n i that last_block_bound [OF n] by auto
    moreover have "i mod 128 \<noteq> j" using that mod_less_divisor [of 128 i] by linarith
    ultimately show ?thesis
      using that block_reg_inj [of "i div 128" k "i mod 128" j "dm_virt mb"]
      by (simp add: mail_reg_def mbb_data_def less_trans [OF mod_less_divisor [of 128 i]])
  qed
  then show ?thesis
    unfolding packed_def using write_words_read [OF n i] last_block_bound [OF n]
    by (subst tie_frame) auto
qed

lemma packed_frame:
  assumes n: "n \<le> 2 ^ 26" and a: "\<not> mailbox_at mb (last_block n) a"
  shows "ioread32be a (packed mb payload n m) = ioread32be a m"
proof -
  have "a \<noteq> mail_reg (dm_virt mb) i" if "i < n" for i
  proof -
    have "i div 128 \<le> last_block n" using that by (auto simp: last_block_def intro: div_le_mono)
    moreover have "i mod 128 < 144" by (rule less_trans [OF mod_less_divisor]) simp_all
    ultimately show ?thesis using a by (auto simp: mailbox_at_def mail_reg_def mbb_data_def)
  qed
  then have "ioread32be a (write_words (dm_virt mb) payload n m) = ioread32be a m"
    by (rule write_words_frame)
  then show ?thesis
    unfolding packed_def using a last_block_bound [OF n]
    by (subst tie_frame) (auto simp: mailbox_at_def)
qed

section \<open>How the device reads a mailbox\<close>

text \<open>
  The contract of the hardware interface, stated on the device's side: from the address of a
  block it reads the block's number and data and goes on at the next pointer until that is
  0. \<open>tr\<close> translates bus addresses; \<open>None\<close> is a chain of more than \<open>f\<close> blocks.
\<close>

definition mbb_next :: "u64 \<Rightarrow> 'h machine \<Rightarrow> u64" where
  "mbb_next a m = push_bit 32 (ucast (ioread32be (reg a mbb_next_pointer_msb) m))
     OR ucast (ioread32be (reg a mbb_next_pointer_lsb) m)"

definition mbb_words :: "u64 \<Rightarrow> 'h machine \<Rightarrow> u32 list" where
  "mbb_words a m = words_at (\<lambda>j. ioread32be (reg a (mbb_data j)) m) 128"

primrec read_chain :: "nat \<Rightarrow> (u64 \<Rightarrow> u64) \<Rightarrow> 'h machine \<Rightarrow> u64 \<Rightarrow> (u32 \<times> u32 list) list option" where
  "read_chain 0 tr m a = None"
| "read_chain (Suc f) tr m a =
     (let blk = (ioread32be (reg (tr a) mbb_block_number) m, mbb_words (tr a) m) in
      if mbb_next (tr a) m = 0 then Some [blk]
      else map_option (Cons blk) (read_chain f tr m (mbb_next (tr a) m)))"

text \<open>The translation of the bus addresses of a mailbox.\<close>

definition dma_virt :: "DMA_MEM \<Rightarrow> u64 \<Rightarrow> u64" where
  "dma_virt mb a = a - dm_phys mb + dm_virt mb"

lemma split_word_64: "push_bit 32 (ucast (ucast (drop_bit 32 (x :: u64)) :: u32)) OR ucast (ucast x :: u32) = x"
  by (rule bit_word_eqI) (auto simp: bit_simps)

lemma next_pointer_nonzero:
  assumes "k < mc" "unat (dm_phys mb) + 4096 * (mc + 1) \<le> 2 ^ 64"
  shows "next_pointer mb mc k \<noteq> 0"
proof -
  have "4096 * of_nat (Suc k) = (of_nat (4096 * Suc k) :: u64)" by simp
  moreover have "unat (dm_phys mb + of_nat (4096 * Suc k)) = unat (dm_phys mb) + 4096 * Suc k"
  proof -
    have "4096 * Suc k \<le> 4096 * mc" using assms(1) by simp
    then have "unat (dm_phys mb) + 4096 * Suc k < 2 ^ 64" using assms(2) by simp
    then show ?thesis by (simp add: unat_word_ariths unsigned_of_nat take_bit_nat_eq_self del: of_nat_Suc of_nat_mult)
  qed
  ultimately have "unat (next_pointer mb mc k) = unat (dm_phys mb) + 4096 * Suc k"
    using assms(1) by (simp only: next_pointer_def) simp
  then show ?thesis by (metis add_is_0 mult_is_0 unsigned_0 zero_neq_numeral nat.distinct(1))
qed

lemma block_translation: "dma_virt mb (dm_phys mb + 4096 * of_nat k) = block_reg (dm_virt mb) k 0"
  by (simp add: dma_virt_def block_reg_def reg_def algebra_simps)

lemma concat_blocks:
  "concat (map (\<lambda>k. map (f k) [0..<128]) [0..<N]) = map (\<lambda>i. f (i div 128) (i mod 128)) [0..<128 * N]"
proof (induction N)
  case (Suc N)
  have "map (\<lambda>i. f (i div 128) (i mod 128)) [128 * N..<128 * N + 128] = map (f N) [0..<128]"
    by (rule nth_equalityI) (simp_all add: div_mult_self_is_m)
  moreover have "[0..<128 * Suc N] = [0..<128 * N] @ [128 * N..<128 * N + 128]"
    using upt_add_eq_append [of 0 "128 * N" 128] by (simp add: add.commute)
  ultimately show ?case using Suc by simp
qed simp

lemma read_chain_tied:
  assumes mc: "mc < 2 ^ 19" and nowrap: "unat (dm_phys mb) + 4096 * (mc + 1) \<le> 2 ^ 64"
    and tied: "\<And>k. k \<le> mc \<Longrightarrow> mbb_next (block_reg (dm_virt mb) k 0) m = next_pointer mb mc k"
    and k: "k \<le> mc"
  shows "read_chain (Suc mc - k) (dma_virt mb) m (dm_phys mb + 4096 * of_nat k) =
    Some (map (\<lambda>k. (ioread32be (block_reg (dm_virt mb) k mbb_block_number) m, mbb_words (block_reg (dm_virt mb) k 0) m))
       [k..<Suc mc])"
  using k
proof (induction rule: inc_induct)
  case base
  have "reg (block_reg v k 0) j = block_reg v k j" for v k j by (simp add: block_reg_def)
  then show ?case by (simp add: block_translation tied next_pointer_def)
next
  case (step n)
  have rg: "reg (block_reg v k 0) j = block_reg v k j" for v k j by (simp add: block_reg_def)
  from step have "Suc mc - n = Suc (Suc mc - Suc n)" by simp
  moreover have "next_pointer mb mc n = dm_phys mb + 4096 * of_nat (Suc n)"
    using step by (simp add: next_pointer_def)
  ultimately show ?case
    using step.IH step.hyps next_pointer_nonzero [OF _ nowrap, of n] tied [of n]
    by (simp add: block_translation rg upt_conv_Cons Let_def del: of_nat_Suc)
qed

text \<open>
  A machine \<open>m'\<close> in which the mailbox still is as \<open>pack_mail\<close> left it: the device reads blocks
  numbered from 0, and the payload in their data.
\<close>

lemma packed_chain:
  assumes n: "n \<le> 2 ^ 26" "n \<le> length payload"
    and nowrap: "unat (dm_phys mb) + 4096 * (last_block n + 1) \<le> 2 ^ 64"
    and kept: "\<And>a. mailbox_at mb (last_block n) a \<Longrightarrow> ioread32be a m' = ioread32be a (packed mb payload n m)"
  shows "\<exists>blocks. read_chain (Suc (last_block n)) (dma_virt mb) m' (dm_phys mb) = Some blocks
    \<and> map fst blocks = map of_nat [0..<Suc (last_block n)]
    \<and> take n (concat (map snd blocks)) = take n payload"
proof -
  let ?m = m' and ?mc = "last_block n"
  have at: "ioread32be (block_reg (dm_virt mb) k j) m' = ioread32be (block_reg (dm_virt mb) k j) (packed mb payload n m)"
    if "k \<le> ?mc" "j < 144" for k j
    using that by (intro kept) (auto simp: mailbox_at_def)
  have mc: "?mc < 2 ^ 19" using n(1) by (rule last_block_bound)
  have rg: "reg (block_reg v k 0) j = block_reg v k j" for v k j by (simp add: block_reg_def)
  have tied: "mbb_next (block_reg (dm_virt mb) k 0) ?m = next_pointer mb ?mc k" if "k \<le> ?mc" for k
    using that by (simp add: mbb_next_def rg at mbb_layout)
      (simp add: packed_def split_word_64 tie_read(1,2) [OF mc that, unfolded mbb_layout])
  let ?blocks = "map (\<lambda>k. (ioread32be (block_reg (dm_virt mb) k mbb_block_number) ?m,
      mbb_words (block_reg (dm_virt mb) k 0) ?m)) [0..<Suc ?mc]"
  from read_chain_tied [OF mc nowrap tied, of 0]
  have "read_chain (Suc ?mc) (dma_virt mb) ?m (dm_phys mb) = Some ?blocks" by simp
  moreover have "map fst ?blocks = map of_nat [0..<Suc ?mc]"
    by (simp add: at mbb_layout del: upt_Suc)
      (simp add: packed_def tie_read(3) [OF mc, unfolded mbb_layout] del: upt_Suc)
  moreover have "take n (concat (map snd ?blocks)) = take n payload"
  proof (rule nth_equalityI)
    have c: "concat (map snd ?blocks) = map (\<lambda>i. ioread32be (block_reg (dm_virt mb) (i div 128) (mbb_data (i mod 128))) ?m)
        [0..<128 * Suc ?mc]"
      by (simp only: list.map_comp o_def snd_conv mbb_words_def words_at_def rg concat_blocks)
    have len: "n \<le> 128 * Suc ?mc" by (simp add: last_block_def)
    then show "length (take n (concat (map snd ?blocks))) = length (take n payload)"
      using n(2) by (simp only: c) simp
    fix i assume "i < length (take n (concat (map snd ?blocks)))"
    then have i: "i < n" by simp
    then show "take n (concat (map snd ?blocks)) ! i = take n payload ! i"
      using len at [of "i div 128" "i mod 128"] packed_word [OF n(1) i, of mb payload m]
        div_le_mono [of i "n - 1" 128] less_trans [OF mod_less_divisor [of 128 i], of 144]
      by (simp only: c) (simp add: mail_reg_def mbb_data_def last_block_def)
  qed
  ultimately show ?thesis by blast
qed

end
