(* ===== verification/Cmd_Create.thy ===== *)
theory Cmd_Create
  imports Cmd_Mail
begin

text \<open>
  Issuing a command: what \<open>create_cqe\<close> leaves in the queue entry and the mailboxes, and that
  the device reads from them exactly the command the driver issued.
\<close>

section \<open>Disjoint memory\<close>

text \<open>Regions of 32-bit registers that do not overlap and do not wrap around.\<close>

definition apart :: "u64 \<Rightarrow> nat \<Rightarrow> u64 \<Rightarrow> nat \<Rightarrow> bool" where
  "apart a n b k \<longleftrightarrow> unat a + 4 * n \<le> 2 ^ 64 \<and> unat b + 4 * k \<le> 2 ^ 64
     \<and> (unat a + 4 * n \<le> unat b \<or> unat b + 4 * k \<le> unat a)"

lemma unat_reg: "unat a + 4 * n \<le> 2 ^ 64 \<Longrightarrow> i < n \<Longrightarrow> unat (reg a i) = unat a + 4 * i"
  by (simp add: reg_def unat_word_ariths unsigned_of_nat take_bit_nat_eq_self)

lemma apart_regs: "apart a n b k \<Longrightarrow> i < n \<Longrightarrow> j < k \<Longrightarrow> reg a i \<noteq> reg b j"
proof
  assume "apart a n b k" "i < n" "j < k" "reg a i = reg b j"
  then have "unat a + 4 * i = unat b + 4 * j"
    using unat_reg [of a n i] unat_reg [of b k j] by (simp add: apart_def)
  with \<open>apart a n b k\<close> \<open>i < n\<close> \<open>j < k\<close> show False by (auto simp: apart_def)
qed

lemma apart_mailbox:
  assumes "apart a n (dm_virt mb) (1024 * Suc mc)" "i < n" shows "\<not> mailbox_at mb mc (reg a i)"
proof
  assume "mailbox_at mb mc (reg a i)"
  then obtain k j where "k \<le> mc" "j < 144" "reg a i = reg (dm_virt mb) (1024 * k + j)"
    by (auto simp: mailbox_at_def block_reg_def)
  moreover from this have "1024 * k + j < 1024 * Suc mc" by simp
  ultimately show False using apart_regs [OF assms] by blast
qed

lemma apart_mailboxes:
  assumes "apart (dm_virt mb) (1024 * Suc mc) (dm_virt mb') (1024 * Suc mc')" "mailbox_at mb mc a"
  shows "\<not> mailbox_at mb' mc' a"
proof -
  from assms(2) obtain k j where "k \<le> mc" "j < 144" and a: "a = reg (dm_virt mb) (1024 * k + j)"
    by (auto simp: mailbox_at_def block_reg_def)
  then have "1024 * k + j < 1024 * Suc mc" by simp
  from apart_mailbox [OF assms(1) this] a show ?thesis by simp
qed

section \<open>Running \<open>create_cqe\<close>\<close>

definition puts :: "u64 \<Rightarrow> (nat \<times> u32) list \<Rightarrow> 'h machine \<Rightarrow> 'h machine" where
  "puts cqe rvs = fold (\<lambda>(r, v). iowrite32be (reg cqe r) v) rvs"

text \<open>The last value put to a register counts.\<close>

lemma puts_read:
  assumes "r < 16" "list_all (\<lambda>(r, v). r < 16) rvs"
  shows "ioread32be (reg cqe r) (puts cqe rvs m) =
    (case map_of (rev rvs) r of None \<Rightarrow> ioread32be (reg cqe r) m | Some v \<Rightarrow> v)"
  using assms(2)
proof (induction rvs rule: rev_induct)
  case (snoc x rvs)
  then show ?case using assms(1) by (cases x) (auto simp: puts_def be.rd_wr_reg)
qed (simp add: puts_def)

lemma puts_frame:
  assumes "\<And>r. r < 16 \<Longrightarrow> a \<noteq> reg cqe r" "list_all (\<lambda>(r, v). r < 16) rvs"
  shows "ioread32be a (puts cqe rvs m) = ioread32be a m"
  using assms(2) by (induction rvs rule: rev_induct) (auto simp: puts_def be.rd_wr_other assms(1))

definition zeros :: "(nat \<times> u32) list" where
  "zeros = map (\<lambda>i. (i, 0)) [0..<16]"

lemma zeros_puts: "fold (\<lambda>i. iowrite32be (reg cqe i) 0) [0..<16] = puts cqe zeros"
  by (simp add: puts_def zeros_def fold_map o_def)

text \<open>The entry's registers, by stage: the input, the opcode, the output.\<close>

definition input_stage :: "u64 \<Rightarrow> DMA_MEM \<Rightarrow> u32 list \<Rightarrow> nat \<Rightarrow> 'h machine \<Rightarrow> 'h machine" where
  "input_stage cqe imb payload n m =
     (let m = puts cqe (map (\<lambda>i. (cid_data i, payload ! i)) [0..<min n 2]) m in
      if n \<le> 2 then m
      else puts cqe [(cqe_input_mailbox_msb, ucast (drop_bit 32 (dm_phys imb))),
                     (cqe_input_mailbox_lsb, ucast (dm_phys imb) AND CQE_MAILBOX_MASK)]
             (packed imb (drop 2 payload) (n - 2) m))"

definition output_stage :: "u64 \<Rightarrow> DMA_MEM \<Rightarrow> nat \<Rightarrow> 'h machine \<Rightarrow> 'h machine" where
  "output_stage cqe omb k m =
     (if k \<le> 2 then m
      else puts cqe [(cqe_output_mailbox_msb, ucast (drop_bit 32 (dm_phys omb))),
                     (cqe_output_mailbox_lsb, ucast (dm_phys omb) AND CQE_MAILBOX_MASK)]
             (tie_mail_together omb (of_nat (last_block (k - 2))) m))"

definition cqe_written :: "u64 \<Rightarrow> DMA_MEM \<Rightarrow> DMA_MEM \<Rightarrow> OPCODE \<Rightarrow> u32 \<Rightarrow> u32 list \<Rightarrow> nat \<Rightarrow> nat \<Rightarrow> 'h machine \<Rightarrow> 'h machine" where
  "cqe_written cqe imb omb opc op_mod payload n k m =
     puts cqe [(cqe_output_length, of_nat ((k + 2) * 4)), (cqe_ctrl, 1)]
    (output_stage cqe omb k
    (puts cqe [(cid_opcode, CID_OPCODE_MASK AND push_bit CID_OPCODE_OFFSET (opcode_word opc)),
               (cid_op_mod, CID_OP_MOD_MASK AND op_mod)]
    (input_stage cqe imb payload n
    (puts cqe (zeros @ [(cqe_type, CQE_TYPE_MASK AND push_bit CQE_TYPE_OFFSET 7),
               (cqe_input_length, of_nat ((n + 2) * 4))]) m))))"

lemma length_reg: "unat l \<le> 2 ^ 26 \<Longrightarrow> unat ((l + 2) * 4 :: u32) = (unat l + 2) * 4"
  by (simp add: unat_word_ariths)

lemma output_blocks:
  assumes "2 < unat k" "unat k \<le> 2 ^ 26"
  shows "(let omb_length = (k + 2) * 4 - 16 in
      if omb_length > 128 * 4
      then (let n = omb_length div (128 * 4) in if omb_length mod (128 * 4) = 0 then n - 1 else n)
      else 0) = (of_nat (last_block (unat k - 2)) :: u32)"
proof -
  define x where "x = (k + 2) * 4 - 16"
  have len: "unat ((k + 2) * 4) = (unat k + 2) * 4" using assms(2) by (rule length_reg)
  have "16 \<le> (k + 2) * 4" unfolding word_le_nat_alt len using assms(1) by simp
  then have "unat x = unat ((k + 2) * 4) - unat (16 :: u32)" unfolding x_def by (rule unat_sub)
  then have x: "unat x = 4 * (unat k - 2)" unfolding len using assms(1) by simp
  let ?w = "unat k - 2"
  have w: "1 \<le> ?w" using assms(1) by simp
  have d: "unat (x div 512) = ?w div 128" by (simp add: unat_div_distrib x)
  have mz: "x mod 512 = 0 \<longleftrightarrow> ?w mod 128 = 0"
    by (simp add: unat_eq_0 [symmetric] unat_mod_distrib x) (simp add: mult_mod_right [of 4 _ 128, simplified, symmetric])
  have "(if x > 512 then (if x mod 512 = 0 then x div 512 - 1 else x div 512) else 0) = (of_nat (last_block ?w) :: u32)"
  proof (cases "x > 512")
    case False
    then have "?w \<le> 128" by (simp add: word_less_nat_alt x)
    then have "last_block ?w = 0" using w by (simp add: last_block_def)
    with False show ?thesis by simp
  next
    case True
    then have gt: "128 < ?w" by (simp add: word_less_nat_alt x)
    show ?thesis
    proof (cases "?w mod 128 = 0")
      case z: True
      then have "last_block ?w = ?w div 128 - 1" using gt by (auto simp: last_block_def elim!: dvdE simp: mod_eq_0_iff_dvd)
      moreover have "unat (x div 512 - 1) = ?w div 128 - 1"
        using gt by (subst unat_sub) (auto simp: word_le_nat_alt d)
      ultimately have "x div 512 - 1 = of_nat (last_block ?w)" by (metis of_nat_unat ucast_id)
      with True z mz show ?thesis by simp
    next
      case nz: False
      then have "last_block ?w = ?w div 128" unfolding last_block_def
        by (metis Suc_diff_1 div_Suc mod_Suc diff_Suc_1 w One_nat_def Suc_le_lessD)
      then have "x div 512 = of_nat (last_block ?w)" using d by (metis of_nat_unat ucast_id)
      with True nz mz show ?thesis by simp
    qed
  qed
  moreover have "(128 * 4 :: u32) = 512" by simp
  ultimately show ?thesis unfolding Let_def x_def [symmetric] by metis
qed


lemma on_mach_run [prog_simps]: "m (mach a) = Some (r, x) \<Longrightarrow> on_mach m a = Some (r, a\<lparr>mach := x\<rparr>)"
  by (simp add: on_mach_def prog_simps)

lemma length_gt:
  assumes "unat (l :: u32) \<le> 2 ^ 26" "unat c = 4 * d" "2 \<le> d"
  shows "(l + 2) * 4 > c \<longleftrightarrow> d - 2 < unat l"
  unfolding word_less_nat_alt length_reg [OF assms(1)] assms(2) using assms(3) by auto

lemma put_run [prog_simps]: "put cqe r v a = Some (Inr (), a\<lparr>mach := puts cqe [(r, v)] (mach a)\<rparr>)"
  by (simp add: put_def prog_simps puts_def)

lemma puts_puts: "puts cqe xs (puts cqe ys m) = puts cqe (ys @ xs) m"
  by (simp add: puts_def)

lemma put_input_run:
  assumes pl: "unat pl \<le> length payload" "unat pl \<le> 2 ^ 26"
  shows "put_input cqe ((pl + 2) * 4) payload pl a =
    Some (Inr (), a\<lparr>mach := input_stage cqe (imb_mem a) payload (unat pl) (mach a)\<rparr>)"
proof -
  have gt: "(pl + 2) * 4 > 8 \<longleftrightarrow> 0 < unat pl" "(pl + 2) * 4 > 12 \<longleftrightarrow> 1 < unat pl"
    "(pl + 2) * 4 > 16 \<longleftrightarrow> 2 < unat pl"
    using length_gt [OF pl(2), of 8 2] length_gt [OF pl(2), of 12 3] length_gt [OF pl(2), of 16 4] by simp_all
  have sub: "unat (pl - 2) = unat pl - 2" if "2 < unat pl"
    using that by (subst unat_sub) (simp_all add: word_le_nat_alt)
  have up: "[0..<2] = [0, 1 :: nat]" by (simp add: upt_rec)
  have pack: "pack_mail imb (drop 2 payload) (pl - 2) m = Some (Inr (), packed imb (drop 2 payload) (unat pl - 2) m)"
    if "2 < unat pl" for imb and m :: "'a machine"
    using pack_mail_run [of "pl - 2" "drop 2 payload" imb m] pl that by (simp add: sub packed_def)
  have rd: "read_word payload i s = Some (Inr (payload ! i), s)" if "i < unat pl" for i and s :: "('a, 'b) CMD_Args_scheme"
    using that pl by (intro read_word_run) linarith
  consider "unat pl = 0" | "unat pl = 1" | "unat pl = 2" | "2 < unat pl" by linarith
  then show ?thesis
    unfolding put_input_def gt
    by cases (simp_all add: prog_simps rd input_stage_def puts_puts pack up
       puts_def [of _ "[]"] min_def)
qed

lemma put_output_run:
  assumes "unat ol \<le> 2 ^ 26"
  shows "put_output cqe ((ol + 2) * 4) a =
    Some (Inr (), a\<lparr>mach := output_stage cqe (omb_mem a) (unat ol) (mach a)\<rparr>)"
proof -
  have gt: "(ol + 2) * 4 > 16 \<longleftrightarrow> 2 < unat ol"
    using length_gt [OF assms, of 16 4] by simp
  show ?thesis
  proof (cases "2 < unat ol")
    case True
    from output_blocks [OF this assms] True show ?thesis
      unfolding put_output_def gt Let_def by (simp add: prog_simps output_stage_def puts_puts)
  next
    case False
    then show ?thesis unfolding put_output_def gt by (simp add: prog_simps output_stage_def)
  qed
qed

lemma create_cqe_run:
  assumes pl: "unat pl \<le> length payload" "unat pl \<le> 2 ^ 26" and ol: "unat ol \<le> 2 ^ 26"
  shows "create_cqe opc op_mod payload pl ol a = Some (Inr (q_head (cq a)),
    a\<lparr>mach := cqe_written (cqe_at (cq a) (q_head (cq a))) (imb_mem a) (omb_mem a) opc op_mod payload
        (unat pl) (unat ol) (mach a), cq := snd (enqueue (cq a))\<rparr>)"
proof -
  have len: "of_nat ((unat pl + 2) * 4) = (pl + 2) * 4" "of_nat ((unat ol + 2) * 4) = (ol + 2) * 4"
    by simp_all
  have slot: "case_prod f (enqueue q) = f (q_head q) (snd (enqueue q))" for f and q :: Queue
    by (simp add: enqueue_def Let_def)
  have fin: "bnd (gets (\<lambda>a. enqueue (cq a))) (\<lambda>(slot, q). andthen (modify (\<lambda>a. a\<lparr>cq := q\<rparr>)) (ret slot)) b =
      Some (Inr (q_head (cq b)), b\<lparr>cq := snd (enqueue (cq b))\<rparr>)" for b :: "('a, 'b) CMD_Args_scheme"
    by (simp add: prog_simps slot)
  show ?thesis
    unfolding create_cqe_def cqe_written_def len Let_def
    by (simp add: prog_simps put_input_run [OF pl] put_output_run [OF ol] fin puts_puts zeros_puts
        del: distrib_right_numeral add_mult_distrib)
qed

end
