(* ===== verification/Cmd_Decode.thy ===== *)
theory Cmd_Decode imports Cmd_Create begin

section \<open>The device's view of a command\<close>

text \<open>A command as the device reads it from a queue entry it owns.\<close>

record Command =
  c_opcode :: OPCODE
  c_op_mod :: u16
  c_input :: "u32 list"
  c_output_words :: nat

definition pointer_at :: "u64 \<Rightarrow> nat \<Rightarrow> nat \<Rightarrow> 'h machine \<Rightarrow> u64" where
  "pointer_at cqe msb lsb m = push_bit 32 (ucast (ioread32be (reg cqe msb) m))
     OR ucast (ioread32be (reg cqe lsb) m)"

text \<open>\<open>n\<close> input words: up to two from the entry, the rest from the chain of mailbox blocks.\<close>

definition read_input :: "(u64 \<Rightarrow> u64) \<Rightarrow> 'h machine \<Rightarrow> u64 \<Rightarrow> nat \<Rightarrow> u32 list option" where
  "read_input tr m cqe n =
     (let inline = map (\<lambda>i. ioread32be (reg cqe (cid_data i)) m) [0..<min n 2] in
      if n \<le> 2 then Some inline
      else map_option (\<lambda>blocks. inline @ take (n - 2) (concat (map snd blocks)))
             (read_chain (Suc (last_block (n - 2))) tr m (pointer_at cqe cqe_input_mailbox_msb cqe_input_mailbox_lsb m)))"

definition read_command :: "(u64 \<Rightarrow> u64) \<Rightarrow> 'h machine \<Rightarrow> u64 \<Rightarrow> Command option" where
  "read_command tr m cqe =
     (if bit (ioread32be (reg cqe cqe_ctrl) m) 0 \<and> drop_bit 24 (ioread32be (reg cqe cqe_type) m) = 7
      then Option.bind (opcode_of (drop_bit 16 (ioread32be (reg cqe cid_opcode) m))) (\<lambda>opc.
           map_option (\<lambda>inp. \<lparr>c_opcode = opc, c_op_mod = ucast (ioread32be (reg cqe cid_op_mod) m),
               c_input = inp, c_output_words = unat (ioread32be (reg cqe cqe_output_length) m) div 4 - 2\<rparr>)
             (read_input tr m cqe (unat (ioread32be (reg cqe cqe_input_length) m) div 4 - 2)))
      else None)"

text \<open>
  What the layout of the command memory has to be: the entry and the two mailboxes, of
  \<open>n - 2\<close> and \<open>k - 2\<close> words, do not overlap, and the mailboxes' bus addresses are aligned to
  the 512 bytes that \<open>CQE_MAILBOX_MASK\<close> keeps.
\<close>

definition cmd_layout :: "u64 \<Rightarrow> DMA_MEM \<Rightarrow> DMA_MEM \<Rightarrow> nat \<Rightarrow> nat \<Rightarrow> bool" where
  "cmd_layout cqe imb omb n k \<longleftrightarrow>
     apart cqe 16 (dm_virt imb) (1024 * Suc (last_block (n - 2)))
   \<and> apart cqe 16 (dm_virt omb) (1024 * Suc (last_block (k - 2)))
   \<and> apart (dm_virt imb) (1024 * Suc (last_block (n - 2))) (dm_virt omb) (1024 * Suc (last_block (k - 2)))
   \<and> unat (dm_phys imb) + 4096 * Suc (last_block (n - 2)) \<le> 2 ^ 64
   \<and> unat (dm_phys omb) + 4096 * Suc (last_block (k - 2)) \<le> 2 ^ 64
   \<and> dm_phys imb AND 0x1ff = 0 \<and> dm_phys omb AND 0x1ff = 0"

lemma aligned_pointer:
  fixes a :: u64
  assumes "a AND 0x1ff = 0"
  shows "push_bit 32 (ucast (ucast (drop_bit 32 a) :: u32)) OR ucast ((ucast a :: u32) AND NOT 0x1ff) = a"
proof -
  have "\<not> (bit a n \<and> bit (0x1ff :: u64) n)" for n
  proof -
    have "bit (a AND 0x1ff) n \<longleftrightarrow> bit (0 :: u64) n" by (simp only: assms)
    then show ?thesis unfolding bit_and_iff by simp
  qed
  moreover have "bit (0x1ff :: u32) n \<Longrightarrow> bit (0x1ff :: u64) n" for n
  proof -
    have "(0x1ff :: u32) = mask 9" "(0x1ff :: u64) = mask 9" by (simp_all add: mask_eq_exp_minus_1)
    then show "bit (0x1ff :: u32) n \<Longrightarrow> bit (0x1ff :: u64) n" by (simp only: bit_mask_iff) auto
  qed
  ultimately show ?thesis by (intro bit_word_eqI) (auto simp: bit_simps)
qed

text \<open>The registers of the finished entry.\<close>

abbreviation (input) ent_of :: "u64 \<Rightarrow> 'h machine \<Rightarrow> nat \<Rightarrow> u32" where
  "ent_of cqe m r \<equiv> ioread32be (reg cqe r) m"

lemma stage_read:
  assumes r: "r < 16" and n: "n \<le> 2 ^ 26" and apart: "apart cqe 16 (dm_virt imb) (1024 * Suc (last_block (n - 2)))"
  shows "ioread32be (reg cqe r) (input_stage cqe imb payload n m) =
    (if n > 2 \<and> r = cqe_input_mailbox_msb then ucast (drop_bit 32 (dm_phys imb))
     else if n > 2 \<and> r = cqe_input_mailbox_lsb then ucast (dm_phys imb) AND CQE_MAILBOX_MASK
     else if r = 6 \<and> n > 0 then payload ! 0 else if r = 7 \<and> n > 1 then payload ! 1
     else ioread32be (reg cqe r) m)"
proof -
  have up: "[0..<2] = [0, 1 :: nat]" by (simp add: upt_rec)
  have fr: "ioread32be (reg cqe r) (packed imb p (n - 2) m) = ioread32be (reg cqe r) m" for p m
    using n by (intro packed_frame apart_mailbox [OF apart r]) simp
  consider "n = 0" | "n = 1" | "n = 2" | "n > 2" by linarith
  then show ?thesis
    by cases (use r in \<open>auto simp: input_stage_def Let_def puts_read fr up min_def cqe_layout\<close>)
qed

lemma out_stage_read:
  assumes r: "r < 16" and k: "k \<le> 2 ^ 26" and apart: "apart cqe 16 (dm_virt omb) (1024 * Suc (last_block (k - 2)))"
  shows "ioread32be (reg cqe r) (output_stage cqe omb k m) =
    (if k > 2 \<and> r = cqe_output_mailbox_msb then ucast (drop_bit 32 (dm_phys omb))
     else if k > 2 \<and> r = cqe_output_mailbox_lsb then ucast (dm_phys omb) AND CQE_MAILBOX_MASK
     else ioread32be (reg cqe r) m)"
proof -
  have mc: "last_block (k - 2) < 2 ^ 19" using k by (intro last_block_bound) simp
  have fr: "ioread32be (reg cqe r) (tie_mail_together omb (of_nat (last_block (k - 2))) m) = ioread32be (reg cqe r) m" for m
    using apart_mailbox [OF apart r] by (intro tie_frame [OF mc]) (auto simp: mailbox_at_def)
  show ?thesis using r by (auto simp: output_stage_def puts_read fr cqe_layout)
qed

lemma cqe_written_read:
  assumes r: "r < 16" and n: "n \<le> 2 ^ 26" and k: "k \<le> 2 ^ 26" and lay: "cmd_layout cqe imb omb n k"
  shows "ioread32be (reg cqe r) (cqe_written cqe imb omb opc op_mod payload n k m) =
    [0x07000000, of_nat ((n + 2) * 4),
     if n > 2 then ucast (drop_bit 32 (dm_phys imb)) else 0,
     if n > 2 then ucast (dm_phys imb) AND CQE_MAILBOX_MASK else 0,
     CID_OPCODE_MASK AND push_bit 16 (opcode_word opc), CID_OP_MOD_MASK AND op_mod,
     if n > 0 then payload ! 0 else 0, if n > 1 then payload ! 1 else 0, 0, 0, 0, 0,
     if k > 2 then ucast (drop_bit 32 (dm_phys omb)) else 0,
     if k > 2 then ucast (dm_phys omb) AND CQE_MAILBOX_MASK else 0,
     of_nat ((k + 2) * 4), 1] ! r"
proof -
  have ap: "apart cqe 16 (dm_virt imb) (1024 * Suc (last_block (n - 2)))"
    "apart cqe 16 (dm_virt omb) (1024 * Suc (last_block (k - 2)))"
    using lay by (simp_all add: cmd_layout_def)
  have z: "zeros = [(0,0),(1,0),(2,0),(3,0),(4,0),(5,0),(6,0),(7,0),(8,0),(9,0),(10,0),(11,0),(12,0),(13,0),(14,0),(15,0)]"
    by (simp add: zeros_def upt_rec)
  have "r \<in> {0,1,2,3,4,5,6,7,8,9,10,11,12,13,14,15}" using r by (simp add: numeral_eq_Suc less_Suc_eq)
  then show ?thesis
    unfolding cqe_written_def
    by (elim insertE emptyE) (simp_all del: reg_0 add: puts_read z cqe_layout
        out_stage_read [OF _ k ap(2), unfolded cqe_layout] stage_read [OF _ n ap(1), unfolded cqe_layout])
qed


text \<open>The mailboxes of the finished command are as they were packed and tied.\<close>

lemma input_mailbox_kept:
  fixes m :: "'h machine"
  assumes n: "2 < n" "n \<le> 2 ^ 26" and k: "k \<le> 2 ^ 26" and lay: "cmd_layout cqe imb omb n k"
  shows "\<exists>m0 :: 'h machine. \<forall>a. mailbox_at imb (last_block (n - 2)) a \<longrightarrow>
    ioread32be a (cqe_written cqe imb omb opc op_mod payload n k m) =
    ioread32be a (packed imb (drop 2 payload) (n - 2) m0)"
proof -
  let ?m0 = "puts cqe (map (\<lambda>i. (cid_data i, payload ! i)) [0..<min n 2])
    (puts cqe (zeros @ [(cqe_type, CQE_TYPE_MASK AND push_bit CQE_TYPE_OFFSET 7),
               (cqe_input_length, of_nat ((n + 2) * 4))]) m)"
  have mc: "last_block (k - 2) < 2 ^ 19" using k by (intro last_block_bound) simp
  have "ioread32be a (cqe_written cqe imb omb opc op_mod payload n k m) = ioread32be a (packed imb (drop 2 payload) (n - 2) ?m0)"
    if a: "mailbox_at imb (last_block (n - 2)) a" for a
  proof -
    have c: "a \<noteq> reg cqe r" if "r < 16" for r
      using a that lay apart_mailbox [of cqe 16 imb "last_block (n - 2)" r] by (auto simp: cmd_layout_def)
    have o: "\<not> mailbox_at omb (last_block (k - 2)) a"
      using a lay unfolding cmd_layout_def by (blast dest: apart_mailboxes)
    have t: "ioread32be a (tie_mail_together omb (of_nat (last_block (k - 2))) m) = ioread32be a m" for m :: "'h machine"
      using o by (intro tie_frame [OF mc]) (auto simp: mailbox_at_def)
    have f: "ioread32be a (puts cqe rvs m) = ioread32be a m" if "list_all (\<lambda>(r, v). r < 16) rvs" for rvs and m :: "'h machine"
      using c that by (intro puts_frame) auto
    show ?thesis
      using n(1) by (simp add: cqe_written_def output_stage_def input_stage_def Let_def f t cqe_layout)
  qed
  then show ?thesis by blast
qed

lemma output_mailbox_tied:
  fixes m :: "'h machine"
  assumes k: "2 < k" "k \<le> 2 ^ 26" and n: "n \<le> 2 ^ 26" and lay: "cmd_layout cqe imb omb n k"
    and b: "b \<le> last_block (k - 2)"
  shows "mbb_next (block_reg (dm_virt omb) b 0) (cqe_written cqe imb omb opc op_mod payload n k m) =
           next_pointer omb (last_block (k - 2)) b"
    and "ioread32be (block_reg (dm_virt omb) b mbb_block_number) (cqe_written cqe imb omb opc op_mod payload n k m) = of_nat b"
proof -
  let ?mc = "last_block (k - 2)"
  let ?m0 = "puts cqe [(cid_opcode, CID_OPCODE_MASK AND push_bit CID_OPCODE_OFFSET (opcode_word opc)),
               (cid_op_mod, CID_OP_MOD_MASK AND op_mod)]
    (input_stage cqe imb payload n
    (puts cqe (zeros @ [(cqe_type, CQE_TYPE_MASK AND push_bit CQE_TYPE_OFFSET 7),
               (cqe_input_length, of_nat ((n + 2) * 4))]) m))"
  have mc: "?mc < 2 ^ 19" using k by (intro last_block_bound) simp
  have kept: "ioread32be (block_reg (dm_virt omb) b j) (cqe_written cqe imb omb opc op_mod payload n k m) =
      ioread32be (block_reg (dm_virt omb) b j) (tie_mail_together omb (of_nat ?mc) ?m0)" if "j < 144" for j
  proof -
    have "mailbox_at omb ?mc (block_reg (dm_virt omb) b j)" using b that by (auto simp: mailbox_at_def)
    then have c: "block_reg (dm_virt omb) b j \<noteq> reg cqe r" if "r < 16" for r
      using that lay apart_mailbox [of cqe 16 omb ?mc r] by (auto simp: cmd_layout_def)
    have f: "ioread32be (block_reg (dm_virt omb) b j) (puts cqe rvs m) = ioread32be (block_reg (dm_virt omb) b j) m"
      if "list_all (\<lambda>(r, v). r < 16) rvs" for rvs and m :: "'h machine"
      using c that by (intro puts_frame) auto
    show ?thesis using k(1) by (simp add: cqe_written_def output_stage_def f cqe_layout)
  qed
  have rg: "reg (block_reg v k 0) j = block_reg v k j" for v k j by (simp add: block_reg_def)
  show "mbb_next (block_reg (dm_virt omb) b 0) (cqe_written cqe imb omb opc op_mod payload n k m) = next_pointer omb ?mc b"
    by (simp add: mbb_next_def rg kept mbb_layout)
      (simp add: split_word_64 tie_read(1,2) [OF mc b, unfolded mbb_layout])
  show "ioread32be (block_reg (dm_virt omb) b mbb_block_number) (cqe_written cqe imb omb opc op_mod payload n k m) = of_nat b"
    by (simp add: kept mbb_layout) (simp add: tie_read(3) [OF mc b, unfolded mbb_layout])
qed

text \<open>Nothing but the entry and the two mailboxes is written.\<close>

lemma cqe_written_frame:
  fixes m :: "'h machine"
  assumes n: "n \<le> 2 ^ 26" and k: "k \<le> 2 ^ 26" and c: "\<And>r. r < 16 \<Longrightarrow> a \<noteq> reg cqe r"
    and i: "2 < n \<Longrightarrow> \<not> mailbox_at imb (last_block (n - 2)) a"
    and o: "2 < k \<Longrightarrow> \<not> mailbox_at omb (last_block (k - 2)) a"
  shows "ioread32be a (cqe_written cqe imb omb opc op_mod payload n k m) = ioread32be a m"
proof -
  have mc: "last_block (k - 2) < 2 ^ 19" using k by (intro last_block_bound) simp
  have f: "ioread32be a (puts cqe rvs m) = ioread32be a m" if "list_all (\<lambda>(r, v). r < 16) rvs" for rvs and m :: "'h machine"
    using c that by (intro puts_frame) auto
  have t: "ioread32be a (tie_mail_together omb (of_nat (last_block (k - 2))) m) = ioread32be a m" if "2 < k" for m :: "'h machine"
    using o [OF that] by (intro tie_frame [OF mc]) (auto simp: mailbox_at_def)
  have p: "ioread32be a (packed imb q (n - 2) m) = ioread32be a m" if "2 < n" for q and m :: "'h machine"
    using n i [OF that] by (intro packed_frame) simp_all
  have z: "list_all (\<lambda>(r, v). r < 16) zeros"
    "list_all (\<lambda>(r, v). r < 16) (map (\<lambda>i. (cid_data i, payload ! i)) [0..<min n 2])"
    by (auto simp: zeros_def list_all_iff cqe_layout)
  show ?thesis
    using f [OF z(2)] by (auto simp: cqe_written_def output_stage_def input_stage_def Let_def f t p z cqe_layout)
qed

lemma unat_length: "n \<le> 2 ^ 26 \<Longrightarrow> unat (of_nat ((n + 2) * 4) :: u32) = (n + 2) * 4"
  by (simp add: unsigned_of_nat take_bit_nat_eq_self del: of_nat_mult of_nat_add)

lemma opcode_bit: "bit (opcode_word opc) n \<Longrightarrow> n < 16"
proof (rule ccontr)
  assume "bit (opcode_word opc) n" "\<not> n < 16"
  then have "bit (unat (opcode_word opc)) n" by (simp add: bit_unsigned_iff)
  moreover have "unat (opcode_word opc) < 2 ^ 16" using opcode_fits [of opc] by (simp add: word_less_nat_alt)
  then have "unat (opcode_word opc) < 2 ^ n" using \<open>\<not> n < 16\<close>
    by (meson less_le_trans not_less one_le_numeral power_increasing)
  ultimately show False by (simp add: bit_iff_odd)
qed

lemma opcode_field: "drop_bit 16 (CID_OPCODE_MASK AND push_bit 16 (opcode_word opc)) = opcode_word opc"
proof -
  have eq: "(0xffff0000 :: u32) = push_bit 16 (mask 16)" by (simp add: mask_eq_exp_minus_1 push_bit_eq_mult)
  show ?thesis unfolding eq by (intro bit_word_eqI) (auto simp: bit_simps dest: opcode_bit)
qed

lemma op_mod_field: "(ucast (CID_OP_MOD_MASK AND op_mod) :: u16) = ucast op_mod"
proof -
  have eq: "(0xffff :: u32) = mask 16" by (simp add: mask_eq_exp_minus_1)
  show ?thesis unfolding eq by (intro bit_word_eqI) (auto simp: bit_simps)
qed

section \<open>The device reads the command that was issued\<close>

lemma read_input_written:
  fixes m :: "'h machine"
  assumes pl: "n \<le> length payload" "n \<le> 2 ^ 26" and k: "k \<le> 2 ^ 26" and lay: "cmd_layout cqe imb omb n k"
  shows "read_input (dma_virt imb) (cqe_written cqe imb omb opc op_mod payload n k m) cqe n = Some (take n payload)"
proof -
  let ?m = "cqe_written cqe imb omb opc op_mod payload n k m"
  note rd = cqe_written_read [OF _ pl(2) k lay]
  have inl: "map (\<lambda>i. ioread32be (reg cqe (cid_data i)) ?m) [0..<min n 2] = take (min n 2) payload"
  proof (rule nth_equalityI)
    fix i assume "i < length (map (\<lambda>i. ioread32be (reg cqe (cid_data i)) ?m) [0..<min n 2])"
    then have "i < n" "i = 0 \<or> i = 1" by auto
    then show "map (\<lambda>i. ioread32be (reg cqe (cid_data i)) ?m) [0..<min n 2] ! i = take (min n 2) payload ! i"
      by (elim disjE) (simp_all add: rd cqe_layout)
  qed (use pl in simp)
  show ?thesis
  proof (cases "n \<le> 2")
    case True
    with inl show ?thesis by (simp add: read_input_def Let_def min_def)
  next
    case False
    then have n: "2 < n" by simp
    from input_mailbox_kept [OF n pl(2) k lay, of opc op_mod payload m]
    obtain m0 :: "'h machine" where kept: "\<forall>a. mailbox_at imb (last_block (n - 2)) a \<longrightarrow>
        ioread32be a ?m = ioread32be a (packed imb (drop 2 payload) (n - 2) m0)" ..
    have "n - 2 \<le> 2 ^ 26" "n - 2 \<le> length (drop 2 payload)"
      "unat (dm_phys imb) + 4096 * (last_block (n - 2) + 1) \<le> 2 ^ 64"
      using pl lay by (simp_all add: cmd_layout_def)
    from packed_chain [OF this kept [rule_format]] obtain blocks where
      blocks: "read_chain (Suc (last_block (n - 2))) (dma_virt imb) ?m (dm_phys imb) = Some blocks"
        "take (n - 2) (concat (map snd blocks)) = take (n - 2) (drop 2 payload)" by blast
    have "pointer_at cqe cqe_input_mailbox_msb cqe_input_mailbox_lsb ?m = dm_phys imb"
      using n lay aligned_pointer [of "dm_phys imb"] by (simp add: pointer_at_def rd cqe_layout cmd_layout_def)
    moreover have "take 2 payload @ take (n - 2) (drop 2 payload) = take n payload"
      using n by (metis le_add_diff_inverse less_imp_le_nat take_add)
    ultimately show ?thesis
      using n blocks inl by (simp add: read_input_def Let_def min_def)
  qed
qed

lemma read_command_written:
  assumes pl: "n \<le> length payload" "n \<le> 2 ^ 26" and k: "k \<le> 2 ^ 26" and lay: "cmd_layout cqe imb omb n k"
  shows "read_command (dma_virt imb) (cqe_written cqe imb omb opc op_mod payload n k m) cqe =
    Some \<lparr>c_opcode = opc, c_op_mod = ucast op_mod, c_input = take n payload, c_output_words = k\<rparr>"
proof -
  note rd = cqe_written_read [OF _ pl(2) k lay]
  have "drop_bit 24 (0x07000000 :: u32) = 7" by (simp add: drop_bit_eq_div)
  then show ?thesis
    using read_input_written [OF pl k lay, of opc op_mod m]
    by (simp del: reg_0 add: read_command_def rd cqe_layout opcode_field [simplified] opcode_of_word
        op_mod_field [simplified] unat_length [OF pl(2), simplified] unat_length [OF k, simplified])
qed

text \<open>The blocks for the output: one for every 128 words beyond the first two.\<close>

lemma read_chain_output:
  assumes k: "2 < k" "k \<le> 2 ^ 26" and n: "n \<le> 2 ^ 26" and lay: "cmd_layout cqe imb omb n k"
    and m'_def: "m' = cqe_written cqe imb omb opc op_mod payload n k m"
  shows "\<exists>blocks. read_chain (Suc (last_block (k - 2))) (dma_virt omb) m'
      (pointer_at cqe cqe_output_mailbox_msb cqe_output_mailbox_lsb m') = Some blocks
    \<and> map fst blocks = map of_nat [0..<Suc (last_block (k - 2))]"
proof -
  have mc: "last_block (k - 2) < 2 ^ 19" using k by (intro last_block_bound) simp
  have nowrap: "unat (dm_phys omb) + 4096 * (last_block (k - 2) + 1) \<le> 2 ^ 64"
    using lay by (simp add: cmd_layout_def)
  have p: "pointer_at cqe cqe_output_mailbox_msb cqe_output_mailbox_lsb m' = dm_phys omb"
    using k lay aligned_pointer [of "dm_phys omb"]
    by (simp add: pointer_at_def m'_def cqe_written_read [OF _ n k(2) lay] cqe_layout cmd_layout_def)
  note tied = output_mailbox_tied [OF k n lay, of _ opc op_mod payload m, folded m'_def]
  from read_chain_tied [OF mc nowrap tied(1), of 0] tied(2) show ?thesis
    by (simp add: p del: upt_Suc)
qed

end
