(* ===== verification/Cmd_Output.thy ===== *)
theory Cmd_Output
  imports Cmd_Decode
begin

text \<open>
  The output of a command: \<open>get_cmd_output\<close> stores to the caller's array what the device has
  left in the entry and in the chain of output mailbox blocks.
\<close>

text \<open>The \<open>i\<close>-th word of a command's output.\<close>

definition output_word :: "u64 \<Rightarrow> DMA_MEM \<Rightarrow> 'h machine \<Rightarrow> nat \<Rightarrow> u32" where
  "output_word cqe omb m i = (if i < 2 then ioread32be (reg cqe (cod_output i)) m
     else ioread32be (mail_reg (dm_virt omb) (i - 2)) m)"

lemma get_cmd_output_run:
  assumes "unat ol \<le> length out" and "unat ol \<le> 2 ^ 26"
  shows "get_cmd_output slot out ol a = Some (Inr
    (map (output_word (cqe_at (cq a) slot) (omb_mem a) (mach a)) [0..<unat ol] @ drop (unat ol) out), a)"
proof -
  let ?w = "output_word (cqe_at (cq a) slot) (omb_mem a) (mach a)"
  have gt: "ol = 0 \<longleftrightarrow> unat ol = 0" "1 < ol \<longleftrightarrow> 1 < unat ol" "2 < ol \<longleftrightarrow> 2 < unat ol"
    by (simp_all add: unat_eq_0 word_less_nat_alt)
  have wr: "write_word xs i x s = Some (Inr (xs[i := x]), s)" if "i < unat ol" "length xs = length out"
    for xs i x and s :: "('a, 'b) CMD_Args_scheme"
    using that assms by (intro write_word_run) linarith
  consider "unat ol = 0" | "unat ol = 1" | "unat ol = 2" | "2 < unat ol" by linarith
  then show ?thesis
  proof cases
    case 1
    then show ?thesis by (simp add: get_cmd_output_def prog_simps gt)
  next
    case 2
    then have "out \<noteq> []" using assms by auto
    then obtain x xs where "out = x # xs" by (cases out) auto
    with 2 show ?thesis
      unfolding get_cmd_output_def gt by (simp add: prog_simps output_word_def)
  next
    case 3
    then obtain x y xs where "out = x # y # xs" using assms(1)
      by (cases out; cases "tl out") (auto simp: numeral_2_eq_2)
    with 3 show ?thesis
      unfolding get_cmd_output_def gt by (simp add: prog_simps output_word_def upt_rec)
  next
    case 4
    then obtain x y xs where out: "out = x # y # xs" using assms(1)
      by (cases out; cases "tl out") auto
    have sub: "unat (ol - 2) = unat ol - 2"
      using 4 by (subst unat_sub) (simp_all add: word_le_nat_alt)
    have "unat (ol - 2) \<le> length xs" "unat (ol - 2) \<le> 2 ^ 26" using assms out sub by auto
    note unpack = unpack_mail_run [OF this, of "omb_mem a" "mach a", unfolded sub]
    have "[0..<unat ol] = 0 # 1 # [2..<unat ol]" using 4 by (simp add: upt_conv_Cons numeral_2_eq_2)
    moreover have "[2..<unat ol] = map (\<lambda>i. i + 2) [0..<unat ol - 2]"
      using map_add_upt [of 2 "unat ol - 2"] by (simp only: le_add_diff_inverse2 [OF less_imp_le [OF 4]])
    ultimately have "[0..<unat ol] = [0, 1] @ map (\<lambda>i. i + 2) [0..<unat ol - 2]" by simp
    then have "map ?w [0..<unat ol] = ?w 0 # ?w 1 # map (\<lambda>i. ioread32be (mail_reg (dm_virt (omb_mem a)) i) (mach a)) [0..<unat ol - 2]"
      by (simp add: o_def output_word_def)
    moreover have "drop (unat ol) out = drop (unat ol - 2) xs" using out 4 by (cases "unat ol"; cases "unat ol - 1") auto
    ultimately show ?thesis
      using 4 out unfolding get_cmd_output_def gt by (simp add: prog_simps unpack output_word_def)
  qed
qed

text \<open>What a device with the output \<open>ws\<close> stores, and that the driver gets \<open>ws\<close>.\<close>

definition output_stored :: "u64 \<Rightarrow> DMA_MEM \<Rightarrow> u32 list \<Rightarrow> 'h machine \<Rightarrow> bool" where
  "output_stored cqe omb ws m \<longleftrightarrow>
     list_all (\<lambda>i. ioread32be (reg cqe (cod_output i)) m = ws ! i) [0..<min (length ws) 2]
   \<and> (length ws > 2 \<longrightarrow> (case read_chain (Suc (last_block (length ws - 2))) (dma_virt omb) m (dm_phys omb) of
        None \<Rightarrow> False | Some blocks \<Rightarrow> take (length ws - 2) (concat (map snd blocks)) = drop 2 ws))"


text \<open>The blocks \<open>0\<close> to \<open>mc\<close> of a mailbox are chained.\<close>

definition mailbox_tied :: "DMA_MEM \<Rightarrow> nat \<Rightarrow> 'h machine \<Rightarrow> bool" where
  "mailbox_tied mb mc m \<longleftrightarrow>
     list_all (\<lambda>k. mbb_next (block_reg (dm_virt mb) k 0) m = next_pointer mb mc k) [0..<Suc mc]"

lemma mailbox_tiedD: "mailbox_tied mb mc m \<Longrightarrow> k \<le> mc \<Longrightarrow> mbb_next (block_reg (dm_virt mb) k 0) m = next_pointer mb mc k"
  by (simp add: mailbox_tied_def list_all_iff less_Suc_eq_le del: upt_Suc)

text \<open>If the device followed the chain that \<open>create_cqe\<close> tied, the driver reads what it stored.\<close>

lemma get_cmd_output_stored:
  assumes "unat ol = length ws" "unat ol \<le> length out" "unat ol \<le> 2 ^ 26"
    and tied: "mailbox_tied (omb_mem a) (last_block (length ws - 2)) (mach a)"
    and nowrap: "unat (dm_phys (omb_mem a)) + 4096 * (last_block (length ws - 2) + 1) \<le> 2 ^ 64"
    and stored: "output_stored (cqe_at (cq a) slot) (omb_mem a) ws (mach a)"
  shows "get_cmd_output slot out ol a = Some (Inr (ws @ drop (length ws) out), a)"
proof -
  let ?cqe = "cqe_at (cq a) slot" and ?omb = "omb_mem a" and ?m = "mach a" and ?n = "length ws - 2"
  have rg: "reg (block_reg v k 0) j = block_reg v k j" for v k j by (simp add: block_reg_def)
  have "output_word ?cqe ?omb ?m i = ws ! i" if i: "i < length ws" for i
  proof (cases "i < 2")
    case True
    with i stored show ?thesis by (auto simp: output_word_def output_stored_def list_all_iff)
  next
    case False
    with i have len: "2 < length ws" and j: "i - 2 < ?n" by auto
    have mc: "last_block ?n < 2 ^ 19" using assms(1,3) by (intro last_block_bound) simp
    from read_chain_tied [OF mc nowrap mailbox_tiedD [OF tied], of 0]
    have "read_chain (Suc (last_block ?n)) (dma_virt ?omb) ?m (dm_phys ?omb) = Some
      (map (\<lambda>k. (ioread32be (block_reg (dm_virt ?omb) k mbb_block_number) ?m, mbb_words (block_reg (dm_virt ?omb) k 0) ?m))
        [0..<Suc (last_block ?n)])" by (simp del: upt_Suc)
    with stored len have eq: "take ?n (concat (map (\<lambda>k. mbb_words (block_reg (dm_virt ?omb) k 0) ?m)
        [0..<Suc (last_block ?n)])) = drop 2 ws"
      by (simp add: output_stored_def o_def del: upt_Suc)
    have c: "concat (map (\<lambda>k. mbb_words (block_reg (dm_virt ?omb) k 0) ?m) [0..<Suc (last_block ?n)]) =
        map (\<lambda>i. ioread32be (mail_reg (dm_virt ?omb) i) ?m) [0..<128 * Suc (last_block ?n)]"
      by (simp only: mbb_words_def words_at_def rg concat_blocks mail_reg_def)
    have "i - 2 < 128 * Suc (last_block ?n)" using j by (simp add: last_block_def)
    then have "ioread32be (mail_reg (dm_virt ?omb) (i - 2)) ?m = drop 2 ws ! (i - 2)"
      using j by (subst eq [symmetric]) (simp only: c nth_take, simp)
    moreover have "Suc (Suc (i - 2)) = i" using False by simp
    ultimately show ?thesis using False i by (simp add: output_word_def)
  qed
  then have "map (output_word ?cqe ?omb ?m) [0..<length ws] = ws"
    by (intro nth_equalityI) simp_all
  then show ?thesis using get_cmd_output_run [OF assms(2,3), of slot a] assms(1) by simp
qed

lemma write_word_out [prog_simps]:
  "length xs \<le> i \<Longrightarrow> write_word xs i x s = Some (Inl (Undefined ''array index''), s)"
  by (simp add: write_word_def prog_simps)

text \<open>An array too small for the output is overrun.\<close>

lemma unpack_mail_overrun:
  assumes "length out < unat len" and "length out \<le> 2 ^ 26 - 1"
  shows "unpack_mail mb out len m = Some (Inl (Undefined ''array index''), m)"
proof -
  let ?body = "\<lambda>i (payload, vars).
            let (package, data_counter, mailbox_counter) = next_word mb vars in
            bnd (gets (ioread32be (reg package (mbb_data (unat data_counter))))) (\<lambda>w.
            bnd (write_word payload i w) (\<lambda>payload.
            ret (payload, package, data_counter + 1, mailbox_counter)))"
  let ?k = "length out"
  have run: "fold_m ?body [0..<n] (out, word_vars mb 0) m =
      Some (Inr (map (\<lambda>i. ioread32be (mail_reg (dm_virt mb) i) m) [0..<n] @ drop n out, word_vars mb n), m)"
    if "n \<le> ?k" for n
    using that
  proof (induction n)
    case (Suc n)
    then have "drop n out = out ! n # drop (Suc n) out" by (simp add: Cons_nth_drop_Suc)
    with Suc assms(2) show ?case
      by (simp add: prog_simps next_word_vars word_vars_Suc word_reg list_update_append nth_append)
  qed (simp add: prog_simps)
  have "[0..<unat len] = [0..<?k] @ [?k..<unat len]"
    using upt_add_eq_append [of 0 ?k "unat len - ?k"] assms(1) by simp
  then have "[0..<unat len] = [0..<?k] @ ?k # [Suc ?k..<unat len]"
    using assms(1) by (simp add: upt_conv_Cons)
  moreover have r: "fold_m ?body [0..<?k] (out, word_vars mb 0) m = Some (Inr
      (map (\<lambda>i. ioread32be (mail_reg (dm_virt mb) i) m) [0..<?k] @ drop ?k out, word_vars mb ?k), m)"
    by (rule run) simp
  have "fold_m ?body ([0..<?k] @ ?k # [Suc ?k..<unat len]) (out, word_vars mb 0) m =
      Some (Inl (Undefined ''array index''), m)"
    unfolding fold_m_append bnd_Inr [where m = "fold_m ?body [0..<?k] (out, word_vars mb 0)" and s = m, OF r]
    using assms(2) by (simp add: prog_simps next_word_vars)
  ultimately show ?thesis
    by (simp add: unpack_mail_def prog_simps word_vars_0 [symmetric])
qed

lemma get_cmd_output_overrun:
  assumes "2 \<le> length out" "length out < unat ol" "length out \<le> 2 ^ 26"
  shows "get_cmd_output slot out ol a = Some (Inl (Undefined ''array index''), a)"
proof -
  obtain x y xs where out: "out = x # y # xs" using assms(1)
    by (cases out; cases "tl out") auto
  have ol: "2 < unat ol" "ol \<noteq> 0" "1 < ol" "2 < ol" using assms by (auto simp: word_less_nat_alt)
  have "unat (ol - 2) = unat ol - 2"
    using ol by (subst unat_sub) (simp_all add: word_le_nat_alt)
  then have "length xs < unat (ol - 2)" "length xs \<le> 2 ^ 26 - 1" using assms out by auto
  note unpack_mail_overrun [OF this, of "omb_mem a" "mach a"]
  then show ?thesis using out ol unfolding get_cmd_output_def by (simp add: prog_simps)
qed


section \<open>A device's answer\<close>

text \<open>
  One way a device can answer: the output words \<open>ws\<close> to the entry and, through the chain,
  to the mailbox.
\<close>

definition answered :: "u64 \<Rightarrow> DMA_MEM \<Rightarrow> u32 list \<Rightarrow> 'h machine \<Rightarrow> 'h machine" where
  "answered cqe omb ws m = puts cqe [(cod_output 0, ws ! 0), (cod_output 1, ws ! 1)]
     (packed omb (drop 2 ws) (length ws - 2) m)"

lemma answered_kept:
  assumes "apart cqe 16 (dm_virt omb) (1024 * Suc (last_block (length ws - 2)))"
    and "mailbox_at omb (last_block (length ws - 2)) a"
  shows "ioread32be a (answered cqe omb ws m) = ioread32be a (packed omb (drop 2 ws) (length ws - 2) m)"
proof -
  have "a \<noteq> reg cqe r" if "r < 16" for r using apart_mailbox [OF assms(1) that] assms(2) by blast
  then show ?thesis unfolding answered_def by (intro puts_frame) (auto simp: cqe_layout)
qed

lemma answered_tied:
  assumes "length ws \<le> 2 ^ 26" and ap: "apart cqe 16 (dm_virt omb) (1024 * Suc (last_block (length ws - 2)))"
  shows "mailbox_tied omb (last_block (length ws - 2)) (answered cqe omb ws m)"
proof -
  have mc: "last_block (length ws - 2) < 2 ^ 19" using assms(1) by (intro last_block_bound) simp
  have rg: "reg (block_reg v k 0) j = block_reg v k j" for v k j by (simp add: block_reg_def)
  have "mbb_next (block_reg (dm_virt omb) k 0) (answered cqe omb ws m) = next_pointer omb (last_block (length ws - 2)) k"
    if k: "k \<le> last_block (length ws - 2)" for k
  proof -
    have "ioread32be (block_reg (dm_virt omb) k j) (answered cqe omb ws m) =
        ioread32be (block_reg (dm_virt omb) k j) (packed omb (drop 2 ws) (length ws - 2) m)" if "j < 144" for j
      using k that by (intro answered_kept [OF ap]) (auto simp: mailbox_at_def)
    then show ?thesis
      by (simp add: mbb_next_def rg mbb_layout)
        (simp add: packed_def split_word_64 tie_read(1,2) [OF mc k, unfolded mbb_layout])
  qed
  then show ?thesis by (simp add: mailbox_tied_def list_all_iff less_Suc_eq_le del: upt_Suc)
qed

lemma answered_stored:
  assumes "length ws \<le> 2 ^ 26" and "2 < length ws"
    and ap: "apart cqe 16 (dm_virt omb) (1024 * Suc (last_block (length ws - 2)))"
    and nowrap: "unat (dm_phys omb) + 4096 * (last_block (length ws - 2) + 1) \<le> 2 ^ 64"
  shows "output_stored cqe omb ws (answered cqe omb ws m)"
proof -
  have "length ws - 2 \<le> 2 ^ 26" "length ws - 2 \<le> length (drop 2 ws)" using assms(1) by simp_all
  from packed_chain [OF this nowrap answered_kept [OF ap]] obtain blocks where
    "read_chain (Suc (last_block (length ws - 2))) (dma_virt omb) (answered cqe omb ws m) (dm_phys omb) = Some blocks"
    "take (length ws - 2) (concat (map snd blocks)) = take (length ws - 2) (drop 2 ws)"
    by blast
  moreover have "[0..<2] = [0, 1 :: nat]" by (simp add: upt_rec)
  moreover have "ioread32be (reg cqe (cod_output i)) (answered cqe omb ws m) = ws ! i" if "i < 2" for i
    using that unfolding answered_def by (subst puts_read) (auto simp: cqe_layout less_2_cases_iff)
  ultimately show ?thesis using assms(2)
    by (simp add: output_stored_def del: read_chain.simps)
qed

end
