(* ===== verification/Cmd_Poll.thy ===== *)
theory Cmd_Poll
  imports Cmd
begin

text \<open>
  Waiting for a command: \<open>poll_ownership\<close> ends, at the latest with the timeout, and an
  entry passes \<open>validate_cqe\<close> only when the device has returned it without an error. Also
  the doorbell.
\<close>

section \<open>Polling\<close>

text \<open>The ownership bit of a command queue entry.\<close>

definition hw_owned :: "u64 \<Rightarrow> 'h machine \<Rightarrow> bool" where
  "hw_owned cqe m \<longleftrightarrow> bit (ioread32be (reg cqe cqe_ctrl) m) 0"

lemma ownership_bit: "(ucast ((w :: u32) AND 1) :: u8) = 0 \<longleftrightarrow> \<not> bit w 0"
proof -
  have "w AND 1 = of_bool (bit w 0)" by (simp add: and_one_eq bit_0 mod2_eq_if)
  then show ?thesis by simp
qed

text \<open>The contract of polling, from the time it starts.\<close>

definition poll_post :: "nat \<Rightarrow> u64 \<Rightarrow> error + unit \<Rightarrow> 'h machine \<Rightarrow> bool" where
  "poll_post start cqe r m \<longleftrightarrow> (case r of
     Inr _ \<Rightarrow> \<not> hw_owned cqe m
   | Inl e \<Rightarrow> e = Runtime_error ''CMD Timeout'' \<and> hw_owned cqe m \<and> start + CMD_TIMEOUT_MS \<le> clock m)"

definition poll_round :: "'h platform \<Rightarrow> u64 \<Rightarrow> nat \<Rightarrow> unit \<Rightarrow> ('h machine, unit + unit) prog" where
  "poll_round E cqe start = (\<lambda>_.
       bnd (gets (\<lambda>m. ucast (ioread32be (reg cqe cqe_ctrl) m AND CQE_OWNERSHIP_MASK) :: u8)) (\<lambda>res.
       if res = 0 then ret (Inl ())
       else bnd (gets clock) (\<lambda>now.
            if now - start \<ge> CMD_TIMEOUT_MS then throw (Runtime_error ''CMD Timeout'')
            else andthen (modify (elapse E 20)) (ret (Inr ())))))"

lemma poll_round_run:
  "poll_round E cqe start u m =
    (if \<not> hw_owned cqe m then Some (Inr (Inl ()), m)
     else if start + CMD_TIMEOUT_MS \<le> clock m then Some (Inl (Runtime_error ''CMD Timeout''), m)
     else Some (Inr (Inr ()), elapse E 20 m))"
  by (auto simp: poll_round_def prog_simps hw_owned_def ownership_bit)

lemma poll_ownership_run: "poll_ownership E cqe m = loop (poll_round E cqe (clock m)) () m"
  by (simp add: poll_ownership_def prog_simps poll_round_def [abs_def])

lemma poll_ends:
  assumes "sleeps E"
  shows "\<exists>r t. loop (poll_round E cqe start) () m = Some (r, t)"
proof (rule loop_returns [where I = "\<lambda>_ _. True" and f = "\<lambda>_ m. start + CMD_TIMEOUT_MS - clock m"])
  fix x m x' t
  assume "poll_round E cqe start x m = Some (Inr (Inr x'), t)"
  then have "clock m < start + CMD_TIMEOUT_MS" "t = elapse E 20 m"
    by (auto simp: poll_round_run split: if_splits)
  moreover have "clock m + 20 \<le> clock (elapse E 20 m)" using assms by (simp add: sleeps_def)
  ultimately show "True \<and> start + CMD_TIMEOUT_MS - clock t < start + CMD_TIMEOUT_MS - clock m" by simp
qed (simp_all add: poll_round_run)

lemma poll_ownership_ok:
  assumes "sleeps E"
  shows "\<exists>r t. poll_ownership E cqe m = Some (r, t) \<and> poll_post (clock m) cqe r t"
proof -
  obtain r t where run: "loop (poll_round E cqe (clock m)) () m = Some (r, t)"
    using poll_ends [OF assms] by blast
  have "poll_post (clock m) cqe r t"
    by (rule loop_rule [OF run, where I = "\<lambda>_ _. True"])
      (auto simp: poll_round_run poll_post_def split: if_splits)
  with run show ?thesis by (auto simp: poll_ownership_run)
qed

section \<open>Status\<close>

definition cqe_status :: "u64 \<Rightarrow> 'h machine \<Rightarrow> u32" where
  "cqe_status cqe m = drop_bit 1 (ioread32be (reg cqe cqe_ctrl) m AND CQE_STATUS_MASK)"

definition cod_status_of :: "u64 \<Rightarrow> 'h machine \<Rightarrow> u32" where
  "cod_status_of cqe m = drop_bit 24 (ioread32be (reg cqe cod_status) m AND COD_STATUS_MASK)"

lemma check_cqe_status_run:
  "check_cqe_status cqe m =
    Some (if cqe_status cqe m = cqe_status_word CQE_STATUS_OK then Inr () else Inl (Runtime_error ''CQE Error''), m)"
  by (simp add: check_cqe_status_def prog_simps cqe_status_def)

lemma check_cod_status_run:
  "check_cod_status cqe m =
    Some (if cod_status_of cqe m = cmd_status_word CMD_STATUS_OK then Inr () else Inl (Runtime_error ''COD Error''), m)"
  by (simp add: check_cod_status_def prog_simps cod_status_of_def)

section \<open>Validation\<close>

text \<open>The device has returned the entry, with no error in it or in the command's output.\<close>

definition completed :: "u64 \<Rightarrow> 'h machine \<Rightarrow> bool" where
  "completed cqe m \<longleftrightarrow> \<not> hw_owned cqe m \<and> cqe_status cqe m = cqe_status_word CQE_STATUS_OK
     \<and> cod_status_of cqe m = cmd_status_word CMD_STATUS_OK"

text \<open>What \<open>validate_cqe\<close> leaves for one slot.\<close>

definition validate_post :: "nat \<Rightarrow> u64 \<Rightarrow> error + unit \<Rightarrow> 'h machine \<Rightarrow> bool" where
  "validate_post start cqe r m \<longleftrightarrow> (case r of
     Inr _ \<Rightarrow> completed cqe m
   | Inl e \<Rightarrow> e = Runtime_error ''CMD Timeout'' \<and> hw_owned cqe m \<and> start + CMD_TIMEOUT_MS \<le> clock m
       \<or> e = Runtime_error ''CQE Error'' \<and> \<not> hw_owned cqe m \<and> cqe_status cqe m \<noteq> cqe_status_word CQE_STATUS_OK
       \<or> e = Runtime_error ''COD Error'' \<and> \<not> hw_owned cqe m \<and> cqe_status cqe m = cqe_status_word CQE_STATUS_OK
           \<and> cod_status_of cqe m \<noteq> cmd_status_word CMD_STATUS_OK)"

lemma validate_one:
  assumes "sleeps E"
  shows "\<exists>r t. validate_cqe E q [slot] 1 m = Some (r, t) \<and> validate_post (clock m) (cqe_at q slot) r t"
proof -
  obtain r t where run: "poll_ownership E (cqe_at q slot) m = Some (r, t)"
    and post: "poll_post (clock m) (cqe_at q slot) r t"
    using poll_ownership_ok [OF assms] by blast
  show ?thesis
  proof (cases r)
    case (Inl e)
    with run post show ?thesis
      by (auto simp: validate_cqe_def prog_simps poll_post_def validate_post_def)
  next
    case (Inr u)
    with run post show ?thesis
      by (simp add: validate_cqe_def prog_simps bnd_def check_cqe_status_run check_cod_status_run
          poll_post_def validate_post_def completed_def del: cqe_status_word.simps cmd_status_word.simps)
  qed
qed

text \<open>In general, for any slots: it ends, and only slots of the array are looked at.\<close>

lemma validate_returns:
  assumes "sleeps E" shows "\<exists>r t. validate_cqe E q slots count m = Some (r, t)"
proof -
  have "returns (\<lambda>_. True) (validate_cqe E q slots count)"
    unfolding validate_cqe_def
    by (intro keeps_intros) (use poll_ownership_ok [OF assms] in
      \<open>auto simp: returns_def check_cqe_status_run check_cod_status_run, fastforce\<close>)
  then show ?thesis by (simp add: returns_def)
qed

section \<open>The doorbell\<close>

lemma bit_sum_shift:
  assumes "distinct (map unat slots)" "list_all (\<lambda>s. unat s < 32) slots" "j < 32"
  shows "bit (fold (\<lambda>s dbr. dbr + push_bit (unat s) 1) slots (0 :: u32)) j \<longleftrightarrow> j \<in> unat ` set slots"
  using assms
proof (induction slots arbitrary: j rule: rev_induct)
  case (snoc s ss)
  let ?x = "fold (\<lambda>s dbr. dbr + push_bit (unat s) 1) ss (0 :: u32)"
  have IH: "bit ?x i \<longleftrightarrow> i \<in> unat ` set ss" if "i < 32" for i
    using snoc that by simp
  have "?x + push_bit (unat s) 1 = ?x OR push_bit (unat s) 1"
    by (rule disjunctive_add) (use snoc.prems IH in \<open>fastforce simp: bit_simps image_iff\<close>)
  then show ?case using IH [of j] snoc.prems by (auto simp: bit_simps)
qed simp


text \<open>The slots of the array a doorbell value stands for; a device reads them from the bits.\<close>

lemma ring_doorbell_run:
  assumes "nat count \<le> length slots" "list_all (\<lambda>s. unat s < 32) (take (nat count) slots)"
  shows "ring_doorbell db slots count m = Some (Inr (),
    iowrite32be db (fold (\<lambda>s dbr. dbr + push_bit (unat s) 1) (take (nat count) slots) 0) m)"
proof -
  have "fold_m (\<lambda>i dbr. bnd (read_word slots i) (\<lambda>s.
            if unat s < 32 then ret (dbr + push_bit (unat s) 1)
            else throw (Undefined ''shift count''))) [0..<n] (0 :: u32) m =
      Some (Inr (fold (\<lambda>s dbr. dbr + push_bit (unat s) 1) (take n slots) 0), m)"
    if "n \<le> length slots" "list_all (\<lambda>s. unat s < 32) (take n slots)" for n
    using that
  proof (induction n)
    case (Suc n)
    then have "take (Suc n) slots = take n slots @ [slots ! n]" by (simp add: take_Suc_conv_app_nth)
    with Suc show ?case by (simp add: prog_simps)
  qed (simp add: prog_simps)
  from this [OF assms] show ?thesis by (simp add: ring_doorbell_def prog_simps)
qed

lemma ring_doorbell_bits:
  assumes "nat count \<le> length slots" "list_all (\<lambda>s. unat s < 32) (take (nat count) slots)"
    and "distinct (take (nat count) slots)"
  shows "\<exists>m'. ring_doorbell db slots count m = Some (Inr (), m')
    \<and> (\<forall>j<32. bit (ioread32be db m') j \<longleftrightarrow> j \<in> unat ` set (take (nat count) slots))
    \<and> (\<forall>a. a \<noteq> db \<longrightarrow> ioread32be a m' = ioread32be a m)"
proof -
  have "distinct (map unat (take (nat count) slots))" using assms(3)
    by (auto simp: distinct_map inj_on_def word_unat_eq_iff)
  from bit_sum_shift [OF this assms(2)] ring_doorbell_run [OF assms(1,2)] show ?thesis
    by (intro exI conjI) (auto simp: be.rd_wr)
qed

end
