(* ===== verification/Sample_Platform.thy ===== *)
theory Sample_Platform
  imports Device_IO
begin

text \<open>
  A concrete platform, on which the contracts that depend on one are applied to inputs.
  Every service succeeds, virtual and bus addresses are handed out in ascending order, and
  a sleep takes exactly the time asked for. The next address is its whole outside world.
\<close>

definition bump_platform :: "u64 platform" where
  "bump_platform = \<lparr>elapse = (\<lambda>n m. m\<lparr>clock := clock m + n\<rparr>),
     make_shared_cap = (\<lambda>m. (Some 1, m)), mem_alloc = (\<lambda>sz c m. (0, m)),
     rm_attach = (\<lambda>sz c m. ((0, hw m + 0x10000000), m)),
     dma_map = (\<lambda>c sz m. ((0, hw m), m\<lparr>hw := hw m + sz\<rparr>)),
     dma_unmap = (\<lambda>a sz m. (0, m)), cap_release = (\<lambda>c m. m),
     superpage_shift = 21, stack_junk = (\<lambda>_ _. 0), malloc_words = (\<lambda>n. replicate n 0)\<rparr>"

definition bump_machine :: "u64 machine" where
  "bump_machine = \<lparr>mem = (\<lambda>_. 0), clock = 0, hw = 0x200000\<rparr>"

lemma bump_simps [simp]:
  "elapse bump_platform n m = m\<lparr>clock := clock m + n\<rparr>"
  "make_shared_cap bump_platform m = (Some 1, m)" "mem_alloc bump_platform sz c m = (0, m)"
  "rm_attach bump_platform sz c m = ((0, hw m + 0x10000000), m)"
  "dma_map bump_platform c sz m = ((0, hw m), m\<lparr>hw := hw m + sz\<rparr>)"
  "dma_unmap bump_platform a sz m = (0, m)" "cap_release bump_platform c m = m"
  "superpage_shift bump_platform = 21" "stack_junk bump_platform m i = 0"
  "malloc_words bump_platform n = replicate n 0"
  "mem bump_machine a = 0" "clock bump_machine = 0" "hw bump_machine = 0x200000"
  by (simp_all add: bump_platform_def bump_machine_def)

lemma bump_sleeps: "sleeps bump_platform"
  by (simp add: sleeps_def)

text \<open>The same with a \<open>malloc\<close> that rounds up to 32 words.\<close>

definition roomy_platform :: "u64 platform" where
  "roomy_platform = bump_platform\<lparr>malloc_words := (\<lambda>n. replicate (n + 32) 0)\<rparr>"

lemma roomy_simps [simp]:
  "elapse roomy_platform n m = m\<lparr>clock := clock m + n\<rparr>"
  "make_shared_cap roomy_platform m = (Some 1, m)" "mem_alloc roomy_platform sz c m = (0, m)"
  "rm_attach roomy_platform sz c m = ((0, hw m + 0x10000000), m)"
  "dma_map roomy_platform c sz m = ((0, hw m), m\<lparr>hw := hw m + sz\<rparr>)"
  "dma_unmap roomy_platform a sz m = (0, m)" "cap_release roomy_platform c m = m"
  "superpage_shift roomy_platform = 21" "stack_junk roomy_platform m i = 0"
  "malloc_words roomy_platform n = replicate (n + 32) 0"
  by (simp_all add: roomy_platform_def)

end
