(* ===== verification/Command_Properties.thy ===== *)
theory Command_Properties
  imports Cmd_Output Cmd_Poll Sample_Platform
begin

text \<open>
  The properties of the command interface, with the inputs they are applied to: a command
  queue of 32 entries and two mailboxes.
\<close>

definition sample_args :: "u64 CMD_Args" where
  "sample_args = \<lparr>mach = bump_machine,
     cq = \<lparr>q_start = 0x1000, q_size = 32, q_head = 31, q_dma_mem = \<lparr>dm_cap = 1, dm_virt = 0x1000, dm_phys = 0x81000\<rparr>\<rparr>,
     dbv = 0x900000,
     imb_mem = \<lparr>dm_cap = 2, dm_virt = 0x100000, dm_phys = 0x200000\<rparr>,
     omb_mem = \<lparr>dm_cap = 3, dm_virt = 0x200000, dm_phys = 0x300000\<rparr>\<rparr>"

lemma sample_args_simps [simp]:
  "mach sample_args = bump_machine" "q_start (cq sample_args) = 0x1000" "q_size (cq sample_args) = 32"
  "q_head (cq sample_args) = 31" "imb_mem sample_args = \<lparr>dm_cap = 2, dm_virt = 0x100000, dm_phys = 0x200000\<rparr>"
  "omb_mem sample_args = \<lparr>dm_cap = 3, dm_virt = 0x200000, dm_phys = 0x300000\<rparr>"
  by (simp_all add: sample_args_def)

lemma sample_layout:
  "cmd_layout (cqe_at (cq sample_args) (q_head (cq sample_args))) (imb_mem sample_args) (omb_mem sample_args) 300 500"
  by (simp add: cmd_layout_def apart_def last_block_def cqe_at_def)

section \<open>Issuing commands\<close>

text \<open>
  C1: the device reads exactly the command the driver issued. After \<open>create_cqe\<close>, the entry
  at the old head of the command queue is owned by the device; decoding it the way the
  hardware does (opcode and modifier, the first two input words from the entry, the others
  by following the chain of mailbox blocks, the output length) gives back the arguments of
  the call. The slot returned is that entry and the head has moved on.
\<close>

theorem create_cqe_roundtrip:
  assumes "unat pl \<le> length payload" "unat pl \<le> 2 ^ 26" "unat ol \<le> 2 ^ 26"
    and "cmd_layout (cqe_at (cq a) (q_head (cq a))) (imb_mem a) (omb_mem a) (unat pl) (unat ol)"
  shows "\<exists>a'. create_cqe opc op_mod payload pl ol a = Some (Inr (q_head (cq a)), a')
    \<and> read_command (dma_virt (imb_mem a)) (mach a') (cqe_at (cq a) (q_head (cq a))) =
        Some \<lparr>c_opcode = opc, c_op_mod = ucast op_mod, c_input = take (unat pl) payload, c_output_words = unat ol\<rparr>
    \<and> cq a' = snd (enqueue (cq a))"
  using create_cqe_run [OF assms(1-3), of opc op_mod a] read_command_written [OF assms] by simp

lemma create_cqe_roundtrip_witness:
  "\<exists>a'. create_cqe MANAGE_PAGES 1 (map of_nat [0..<300]) 300 500 sample_args = Some (Inr 31, a')
    \<and> read_command (dma_virt (imb_mem sample_args)) (mach a') (cqe_at (cq sample_args) 31) =
        Some \<lparr>c_opcode = MANAGE_PAGES, c_op_mod = 1, c_input = map of_nat [0..<300], c_output_words = 500\<rparr>
    \<and> cq a' = snd (enqueue (cq sample_args))"
  using create_cqe_roundtrip [of 300 "map of_nat [0..<300]" 500 sample_args MANAGE_PAGES 1] sample_layout by simp

text \<open>
  C2: the output mailbox is ready for the device. For a command with more than two output
  words, the pointer in the entry leads to a chain of blocks that are numbered from 0 and
  are just enough for the output, \<open>ceil ((ol - 2) / 128)\<close> of them.
\<close>

theorem create_cqe_output_chain:
  assumes "unat pl \<le> length payload" "unat pl \<le> 2 ^ 26" "2 < unat ol" "unat ol \<le> 2 ^ 26"
    and "cmd_layout (cqe_at (cq a) (q_head (cq a))) (imb_mem a) (omb_mem a) (unat pl) (unat ol)"
  shows "\<exists>a' blocks. create_cqe opc op_mod payload pl ol a = Some (Inr (q_head (cq a)), a')
    \<and> read_chain ((unat ol - 2 + 127) div 128) (dma_virt (omb_mem a)) (mach a')
        (pointer_at (cqe_at (cq a) (q_head (cq a))) cqe_output_mailbox_msb cqe_output_mailbox_lsb (mach a')) = Some blocks
    \<and> map fst blocks = map of_nat [0..<(unat ol - 2 + 127) div 128]"
proof -
  have len: "(unat ol - 2 + 127) div 128 = Suc (last_block (unat ol - 2))"
    using assms(3) div_add_self2 [of 128 "unat ol - 3"] by (simp add: last_block_def)
  show ?thesis
    unfolding len using create_cqe_run [OF assms(1,2,4), of opc op_mod a]
      read_chain_output [OF assms(3,4,2,5) refl, of opc op_mod payload "mach a"]
    by (auto simp del: upt_Suc read_chain.simps)
qed

lemma create_cqe_output_chain_witness:
  "\<exists>a' blocks. create_cqe QUERY_HCA_CAP 1 (map of_nat [0..<300]) 300 500 sample_args = Some (Inr 31, a')
    \<and> read_chain 4 (dma_virt (omb_mem sample_args)) (mach a')
        (pointer_at (cqe_at (cq sample_args) 31) cqe_output_mailbox_msb cqe_output_mailbox_lsb (mach a')) = Some blocks
    \<and> map fst blocks = map of_nat [0..<4]"
  using create_cqe_output_chain [of 300 "map of_nat [0..<300]" 500 sample_args QUERY_HCA_CAP 1] sample_layout by simp


text \<open>
  C3: \<open>create_cqe\<close> writes nowhere else. A register outside the entry at the head of the
  queue, the input mailbox (when the input overflows into it) and the output mailbox (when
  the output does) keeps its value: the entries of commands in flight are safe.
\<close>

theorem create_cqe_frame:
  assumes "unat pl \<le> length payload" "unat pl \<le> 2 ^ 26" "unat ol \<le> 2 ^ 26"
    and "apart (cqe_at (cq a) (q_head (cq a))) 16 x 1"
    and "2 < unat pl \<Longrightarrow> apart (dm_virt (imb_mem a)) (1024 * Suc (last_block (unat pl - 2))) x 1"
    and "2 < unat ol \<Longrightarrow> apart (dm_virt (omb_mem a)) (1024 * Suc (last_block (unat ol - 2))) x 1"
    and "create_cqe opc op_mod payload pl ol a = Some (r, a')"
  shows "ioread32be x (mach a') = ioread32be x (mach a)"
proof -
  have c: "x \<noteq> reg (cqe_at (cq a) (q_head (cq a))) r" if "r < 16" for r
    using apart_regs [OF assms(4) that, of 0] by auto
  have m: "\<not> mailbox_at mb mc x" if "apart (dm_virt mb) (1024 * Suc mc) x 1" for mb mc
  proof -
    have "apart x 1 (dm_virt mb) (1024 * Suc mc)" using that by (auto simp: apart_def)
    from apart_mailbox [OF this, of 0] show ?thesis by simp
  qed
  have "mach a' = cqe_written (cqe_at (cq a) (q_head (cq a))) (imb_mem a) (omb_mem a) opc op_mod payload
      (unat pl) (unat ol) (mach a)"
    using assms(7) by (auto simp: create_cqe_run [OF assms(1-3)])
  then show ?thesis
    by (simp add: cqe_written_frame [OF assms(2,3) c] m [OF assms(5)] m [OF assms(6)])
qed

lemma create_cqe_frame_witness:
  "\<exists>a'. create_cqe MANAGE_PAGES 1 (map of_nat [0..<300]) 300 500 sample_args = Some (Inr 31, a')
    \<and> ioread32be (cqe_at (cq sample_args) 30) (mach a') = ioread32be (cqe_at (cq sample_args) 30) bump_machine"
proof -
  obtain a' where run: "create_cqe MANAGE_PAGES 1 (map of_nat [0..<300]) 300 500 sample_args = Some (Inr 31, a')"
    using create_cqe_run [of 300 "map of_nat [0..<300]" 500 MANAGE_PAGES 1 sample_args] by simp
  have "ioread32be (cqe_at (cq sample_args) 30) (mach a') = ioread32be (cqe_at (cq sample_args) 30) (mach sample_args)"
    by (rule create_cqe_frame [OF _ _ _ _ _ _ run]) (simp_all add: apart_def last_block_def cqe_at_def)
  with run show ?thesis by simp
qed

text \<open>
  C4: the driver reads exactly the output the device stored. If the device has put the
  words \<open>ws\<close> into the entry and, following the chain of the output mailbox, into its
  blocks, \<open>get_cmd_output\<close> stores \<open>ws\<close> at the start of the caller's array and changes
  nothing else of it.
\<close>

theorem get_cmd_output_roundtrip:
  assumes "unat ol = length ws" "unat ol \<le> length out" "unat ol \<le> 2 ^ 26"
    and "mailbox_tied (omb_mem a) (last_block (length ws - 2)) (mach a)"
    and "unat (dm_phys (omb_mem a)) + 4096 * (last_block (length ws - 2) + 1) \<le> 2 ^ 64"
    and "output_stored (cqe_at (cq a) slot) (omb_mem a) ws (mach a)"
  shows "get_cmd_output slot out ol a = Some (Inr (ws @ drop (length ws) out), a)"
  by (rule get_cmd_output_stored [OF assms])

definition sample_answer :: "u64 CMD_Args" where
  "sample_answer = sample_args\<lparr>mach := answered (cqe_at (cq sample_args) 30) (omb_mem sample_args)
     (map of_nat [0..<300]) bump_machine\<rparr>"

lemma get_cmd_output_roundtrip_witness:
  "get_cmd_output 30 (replicate 301 9) 300 sample_answer = Some (Inr (map of_nat [0..<300] @ [9]), sample_answer)"
proof -
  let ?ws = "map of_nat [0..<300] :: u32 list"
  have ap: "apart (cqe_at (cq sample_args) 30) 16 (dm_virt (omb_mem sample_args)) (1024 * Suc (last_block (length ?ws - 2)))"
    by (simp add: apart_def last_block_def cqe_at_def)
  have "mailbox_tied (omb_mem sample_answer) (last_block (length ?ws - 2)) (mach sample_answer)"
    using answered_tied [OF _ ap, of bump_machine] by (simp add: sample_answer_def)
  moreover have "output_stored (cqe_at (cq sample_answer) 30) (omb_mem sample_answer) ?ws (mach sample_answer)"
    using answered_stored [OF _ _ ap, of bump_machine] by (simp add: sample_answer_def last_block_def)
  ultimately show ?thesis
    using get_cmd_output_roundtrip [of 300 ?ws "replicate 301 9" sample_answer 30]
    by (simp add: sample_answer_def last_block_def)
qed

text \<open>
  C5: an array that is too small is overrun. \<open>get_cmd_output\<close> does not know the size of the
  caller's array: asked for more words than it holds, it stores past its end, which the
  model has as an error. Callers must not take the length from the device.
\<close>

theorem get_cmd_output_overruns:
  assumes "2 \<le> length out" "length out < unat ol" "length out \<le> 2 ^ 26"
  shows "get_cmd_output slot out ol a = Some (Inl (Undefined ''array index''), a)"
  by (rule get_cmd_output_overrun [OF assms])

lemma get_cmd_output_overruns_witness:
  "get_cmd_output 0 [0, 0] 3 sample_args = Some (Inl (Undefined ''array index''), sample_args)"
  using get_cmd_output_overruns [of "[0, 0]" 3 0 sample_args] by simp

text \<open>
  C6: the payload survives the mailbox: \<open>unpack_mail\<close> on what \<open>pack_mail\<close> has written gives
  the payload back, in every length, over block boundaries.
\<close>

theorem unpack_pack_mail:
  assumes "unat len \<le> length payload" "unat len \<le> length out" "unat len \<le> 2 ^ 26"
  shows "\<exists>m'. pack_mail mb payload len m = Some (Inr (), m')
    \<and> unpack_mail mb out len m' = Some (Inr (take (unat len) payload @ drop (unat len) out), m')"
proof -
  let ?n = "unat len" and ?m = "packed mb payload (unat len) m"
  have "map (\<lambda>i. ioread32be (mail_reg (dm_virt mb) i) ?m) [0..<?n] = take ?n payload"
    using packed_word [OF assms(3)] assms(1) by (intro nth_equalityI) simp_all
  with pack_mail_run [OF assms(1,3), of mb m] unpack_mail_run [OF assms(2,3), of mb ?m]
  show ?thesis by (simp add: packed_def)
qed

lemma unpack_pack_mail_witness:
  "\<exists>m'. pack_mail (imb_mem sample_args) (map of_nat [0..<129]) 129 bump_machine = Some (Inr (), m')
    \<and> unpack_mail (imb_mem sample_args) (replicate 130 5) 129 m' = Some (Inr (map of_nat [0..<129] @ [5]), m')"
  using unpack_pack_mail [of 129 "map of_nat [0..<129]" "replicate 130 5" "imb_mem sample_args" bump_machine] by simp

section \<open>Waiting for commands\<close>

text \<open>
  C7: waiting for a command always ends, whatever the device does, as long as sleeping takes
  time. \<open>validate_cqe\<close> succeeds only on an entry the device has returned with both status
  fields 0; its three errors say why: the entry is still owned by the device 5000 ms later,
  the entry's status is bad, or the command's status is bad.
\<close>

theorem validate_cqe_correct:
  assumes "sleeps E"
  shows "\<exists>r t. validate_cqe E q [slot] 1 m = Some (r, t) \<and> validate_post (clock m) (cqe_at q slot) r t"
  by (rule validate_one [OF assms])

lemma validate_cqe_correct_witness:
  "\<exists>r t. validate_cqe bump_platform (cq sample_args) [3] 1 bump_machine = Some (r, t)
    \<and> validate_post 0 (cqe_at (cq sample_args) 3) r t"
  using validate_cqe_correct [OF bump_sleeps, of "cq sample_args" 3 bump_machine] by simp

text \<open>
  C8: a batch of commands is waited for in bounded time: \<open>validate_cqe\<close> ends for every list
  of slots and every count, in bounds or not.
\<close>

theorem validate_cqe_terminates:
  assumes "sleeps E"
  shows "\<exists>r t. validate_cqe E q slots count m = Some (r, t)"
  by (rule validate_returns [OF assms])

lemma validate_cqe_terminates_witness:
  "\<exists>r t. validate_cqe bump_platform (cq sample_args) [3, 4, 5] 3 bump_machine = Some (r, t)"
  by (rule validate_cqe_terminates [OF bump_sleeps])

text \<open>
  C9: the doorbell announces exactly the slots given. For distinct slots below 32, bit \<open>j\<close> of
  the doorbell vector is set iff \<open>j\<close> is one of them, and no other register is written.
\<close>

theorem ring_doorbell_correct:
  assumes "nat count \<le> length slots" "list_all (\<lambda>s. unat s < 32) (take (nat count) slots)"
    and "distinct (take (nat count) slots)"
  shows "\<exists>m'. ring_doorbell db slots count m = Some (Inr (), m')
    \<and> (\<forall>j<32. bit (ioread32be db m') j \<longleftrightarrow> j \<in> unat ` set (take (nat count) slots))
    \<and> (\<forall>a. a \<noteq> db \<longrightarrow> ioread32be a m' = ioread32be a m)"
  by (rule ring_doorbell_bits [OF assms])

lemma ring_doorbell_correct_witness:
  "\<exists>m'. ring_doorbell 0x900000 [3, 31, 0] 3 bump_machine = Some (Inr (), m')
    \<and> (\<forall>j<32. bit (ioread32be 0x900000 m') j \<longleftrightarrow> j \<in> {3, 31, 0})
    \<and> (\<forall>a. a \<noteq> 0x900000 \<longrightarrow> ioread32be a m' = ioread32be a bump_machine)"
  using ring_doorbell_correct [of 3 "[3, 31, 0]" "0x900000" bump_machine] by simp

text \<open>
  C10: the slots of the command queue are handed out round robin. \<open>n\<close> calls of \<open>enqueue\<close>
  from a head \<open>h\<close> of a ring of \<open>s\<close> entries return \<open>h\<close>, \<open>h + 1\<close>, ... modulo \<open>s\<close>, and no
  slot twice while \<open>n \<le> s\<close>; the ring stays well-formed.
\<close>

theorem enqueue_round_robin:
  assumes "ring_ok q" and "enqueues n q = (slots, q')"
  shows "map unat slots = map (\<lambda>i. (unat (q_head q) + i) mod unat (q_size q)) [0..<n]
    \<and> ring_ok q' \<and> (distinct slots \<or> unat (q_size q) < n)"
  using enqueues_ring [OF assms] enqueues_distinct [OF assms] by auto

lemma enqueue_round_robin_witness:
  "map unat (fst (enqueues 40 (cq sample_args))) = map (\<lambda>i. (31 + i) mod 32) [0..<40]
    \<and> ring_ok (snd (enqueues 40 (cq sample_args)))
    \<and> (distinct (fst (enqueues 40 (cq sample_args))) \<or> 32 < (40 :: nat))"
proof -
  have "ring_ok (cq sample_args)" by (simp add: ring_ok_def)
  from enqueue_round_robin [OF this, of 40 "fst (enqueues 40 (cq sample_args))" "snd (enqueues 40 (cq sample_args))"]
  show ?thesis by simp
qed

end
