(* ===== verification/Mem_Correct.thy ===== *)
theory Mem_Correct
  imports Mem
begin

text \<open>
  The invariant of the page pool of \<^theory_text>\<open>Mem\<close> and the contracts of its two operations: the
  index always holds exactly the pages in use.
\<close>

section \<open>The invariant of the page pool\<close>

text \<open>The physical addresses of a block's pages, and of all pages of the pool.\<close>

definition block_phys :: "MEM_Page_Pool \<Rightarrow> nat \<Rightarrow> u64 list" where
  "block_phys p b = (case data_of (p_heap p) b of None \<Rightarrow> [] | Some (_, eds) \<Rightarrow> map me_phys eds)"

definition all_phys :: "MEM_Page_Pool \<Rightarrow> nat list \<Rightarrow> u64 list" where
  "all_phys p bs = concat (map (block_phys p) bs)"

text \<open>The physical address of the page a pointer leads to.\<close>

definition phys_of :: "MEM_Page_Pool \<Rightarrow> nat \<times> nat \<Rightarrow> u64" where
  "phys_of p e = block_phys p (fst e) ! snd e"

text \<open>
  \<open>mem_inv\<close>: the pool's invariant; every block's pages are those of its DMA memory; no two
  pages share an address; and the index holds exactly the pages in use, by address.
\<close>

definition mem_inv :: "nat option \<Rightarrow> MEM_Page_Pool \<Rightarrow> nat list \<Rightarrow> bool" where
  "mem_inv pr p bs \<longleftrightarrow> pool_inv pr p bs
     \<and> list_all (\<lambda>b. \<exists>dm eds. data_of (p_heap p) b = Some (dm, eds) \<and> pages_of dm eds) bs
     \<and> distinct (all_phys p bs)
     \<and> (\<forall>\<phi> e. p_data p \<phi> = Some e \<longleftrightarrow> e \<in> used_slots p bs \<and> phys_of p e = \<phi>)"

text \<open>The addresses of the pages in a region of DMA memory.\<close>

definition dma_pages :: "u64 \<Rightarrow> nat \<Rightarrow> u64 list" where
  "dma_pages phys n = map (\<lambda>i. phys + of_nat i * HCA_PAGE_SIZE) [0..<n]"

lemma distinct_dma_pages: "n \<le> 2 ^ 52 \<Longrightarrow> distinct (dma_pages phys n)"
proof -
  assume n: "n \<le> 2 ^ 52"
  have "i = j" if "i < n" "j < n" "(of_nat i :: u64) * 4096 = of_nat j * 4096" for i j
  proof -
    from that(3) have "unat (of_nat i * 4096 :: u64) = unat (of_nat j * 4096 :: u64)" by simp
    moreover have "i * 4096 < 2 ^ 64" "j * 4096 < 2 ^ 64" using that n by auto
    ultimately show ?thesis by (simp add: unat_word_ariths unsigned_of_nat take_bit_nat_eq_self)
  qed
  then show ?thesis by (auto simp: dma_pages_def distinct_map inj_on_def)
qed

lemma block_phys_new:
  "data_of (p_heap p) b = Some (dm, eds) \<Longrightarrow> pages_of dm eds \<Longrightarrow>
   block_phys p b = dma_pages (dm_phys dm) (length eds)"
proof -
  assume d: "data_of (p_heap p) b = Some (dm, eds)" and "pages_of dm eds"
  then have "eds = map (mem_page dm) [0..<length eds]" by (simp only: pages_of_def)
  then have "map me_phys eds = map me_phys (map (mem_page dm) [0..<length eds])" by (rule arg_cong)
  with d show ?thesis by (simp add: block_phys_def dma_pages_def mem_page_def)
qed

lemma distinct_concat_disjoint:
  "distinct (concat (map f bs)) \<Longrightarrow> b \<in> set bs \<Longrightarrow> c \<in> set bs \<Longrightarrow> b \<noteq> c \<Longrightarrow> set (f b) \<inter> set (f c) = {}"
  by (induction bs) auto

lemma distinct_concat_part: "distinct (concat (map f bs)) \<Longrightarrow> b \<in> set bs \<Longrightarrow> distinct (f b)"
  by (induction bs) auto

lemma block_phys_kept: "data_kept p p' bs \<Longrightarrow> b \<in> set bs \<Longrightarrow> block_phys p' b = block_phys p b"
  by (simp add: data_kept_def list_all_iff block_phys_def)

lemma all_phys_kept: "data_kept p p' bs \<Longrightarrow> set as \<subseteq> set bs \<Longrightarrow> all_phys p' as = all_phys p as"
  unfolding all_phys_def by (intro arg_cong [of _ _ concat] map_cong refl) (auto intro: block_phys_kept)

lemma used_slot_length:
  "(b, i) \<in> used_slots p bs \<Longrightarrow> i < length (block_phys p b)"
  by (auto simp: used_slots_def row_of_def block_phys_def data_of_def split: option.splits)

text \<open>Pages with the same address are the same page.\<close>

lemma phys_of_inj:
  assumes "distinct (all_phys p bs)" "e \<in> used_slots p bs" "e' \<in> used_slots p bs" "phys_of p e = phys_of p e'"
  shows "e = e'"
proof -
  obtain b i b' i' where e: "e = (b, i)" "e' = (b', i')" by (cases e; cases e')
  have "b \<in> set bs" "b' \<in> set bs" using assms(2,3) e by (auto dest: used_slots_in)
  note bin = this
  have i: "i < length (block_phys p b)" "i' < length (block_phys p b')"
    using assms(2,3) e by (auto dest: used_slot_length)
  have eq: "block_phys p b ! i = block_phys p b' ! i'" using assms(4) e by (simp add: phys_of_def)
  have "b = b'"
    using bin i eq assms(1) distinct_concat_disjoint [of "block_phys p" bs b b']
    unfolding all_phys_def by (metis disjoint_iff nth_mem)
  note bb = this
  from assms(1) have "distinct (block_phys p b)"
    using distinct_concat_part [of "block_phys p" bs b] bin
    by (simp add: all_phys_def)
  then have "i = i'" using i eq bb by (simp add: nth_eq_iff_index_eq)
  with \<open>b = b'\<close> e show ?thesis by simp
qed

section \<open>Allocation\<close>

text \<open>
  What the DMA space promises: memory mapped now does not overlap memory mapped earlier and
  not unmapped since.
\<close>

definition dma_fresh :: "'h platform \<Rightarrow> 'h machine \<Rightarrow> MEM_Page_Pool \<Rightarrow> nat list \<Rightarrow> bool" where
  "dma_fresh E m p bs \<longleftrightarrow> (\<forall>dm m'.
     alloc_dma_mem E (HCA_PAGE_SIZE * p_block_size p) m = Some (Inr dm, m') \<longrightarrow>
     set (dma_pages (dm_phys dm) (unat (p_block_size p))) \<inter> set (all_phys p bs) = {})"

text \<open>What \<open>alloc_page\<close> leaves: one page more in use, entered in the index; or an exception.\<close>

definition mem_alloc_post :: "nat option \<Rightarrow> MEM_Page_Pool \<Rightarrow> nat list \<Rightarrow> error + nat \<times> nat \<Rightarrow> MEM_Page_Pool \<Rightarrow> bool" where
  "mem_alloc_post pr p bs r p' = (case r of
     Inl err \<Rightarrow> mem_inv pr p' bs \<and> p_size p' = p_size p \<and> p_data p' = p_data p
   | Inr e \<Rightarrow> p_size p < p_max p \<and> p_size p' = p_size p + 1
       \<and> p_data p (phys_of p' e) = None \<and> p_data p' = (p_data p)(phys_of p' e \<mapsto> e)
       \<and> (\<exists>bs'. mem_inv pr p' bs' \<and> (bs' = bs \<or> bs' = bs @ [p_brk p])
            \<and> e \<notin> used_slots p bs \<and> used_slots p' bs' = insert e (used_slots p bs)))"

lemma p_data_frame [simp]:
  "pool_inv pr (p\<lparr>p_data := d\<rparr>) bs = pool_inv pr p bs"
  "used_slots (p\<lparr>p_data := d\<rparr>) bs = used_slots p bs"
  "phys_of (p\<lparr>p_data := d\<rparr>) e = phys_of p e" "all_phys (p\<lparr>p_data := d\<rparr>) bs = all_phys p bs"
  "block_phys (p\<lparr>p_data := d\<rparr>) b = block_phys p b"
  by (cases pr; simp add: pool_inv_def pool_wf_def)
    (simp_all add: used_slots_def phys_of_def all_phys_def block_phys_def cong: map_cong)

lemma phys_of_kept: "data_kept p p' bs \<Longrightarrow> fst e \<in> set bs \<Longrightarrow> phys_of p' e = phys_of p e"
  by (simp add: phys_of_def block_phys_kept)

lemma used_slot_phys_in: "e \<in> used_slots p bs \<Longrightarrow> phys_of p e \<in> set (all_phys p bs)"
  by (cases e) (force simp: phys_of_def all_phys_def dest: used_slot_length used_slots_in)

lemma pages_kept:
  "data_kept p p' bs \<Longrightarrow> b \<in> set bs \<Longrightarrow> data_of (p_heap p') b = data_of (p_heap p) b"
  by (simp add: data_kept_def list_all_iff)

lemma block_phys_length: "b \<in> set bs \<Longrightarrow> pool_wf pr p bs \<Longrightarrow> length (block_phys p b) = unat (p_block_size p)"
  by (drule wf_block) (auto simp: block_phys_def data_of_Some block_ok_def)

text \<open>The pool's blocks after an allocation, before the index is updated.\<close>

lemma mem_inv_new_block:
  assumes inv: "mem_inv pr p bs" and kept: "data_kept p p' bs"
    and bs': "bs' = bs \<or> bs' = bs @ [p_brk p] \<and>
        (\<exists>dm eds. data_of (p_heap p') (p_brk p) = Some (dm, eds) \<and> mem_block_ok E m (p_data p) dm eds)"
    and wf': "pool_inv pr p' bs'" and fresh: "dma_fresh E m p bs" and small: "unat (p_block_size p) \<le> 2 ^ 52"
  shows "list_all (\<lambda>b. \<exists>dm eds. data_of (p_heap p') b = Some (dm, eds) \<and> pages_of dm eds) bs' \<and>
         distinct (all_phys p' bs')"
proof -
  have old: "list_all (\<lambda>b. \<exists>dm eds. data_of (p_heap p') b = Some (dm, eds) \<and> pages_of dm eds) bs"
    "distinct (all_phys p' bs)" "all_phys p' bs = all_phys p bs"
    using inv all_phys_kept [OF kept order_refl] by (auto simp: mem_inv_def list_all_iff pages_kept [OF kept])
  from bs' show ?thesis
  proof (elim disjE conjE exE)
    assume "bs' = bs" with old show ?thesis by simp
  next
    fix dm eds
    assume eq: "bs' = bs @ [p_brk p]" and d: "data_of (p_heap p') (p_brk p) = Some (dm, eds)"
      and ok: "mem_block_ok E m (p_data p) dm eds"
    have pg: "pages_of dm eds" using ok by (simp add: mem_block_ok_def)
    from block_phys_new [OF d pg] have bp: "block_phys p' (p_brk p) = dma_pages (dm_phys dm) (length eds)" .
    have "length (block_phys p' (p_brk p)) = unat (p_block_size p')"
      using wf' eq by (intro block_phys_length [where bs = bs']) (auto simp: pool_inv_def)
    then have len: "length eds = unat (p_block_size p)"
      using bp kept by (simp add: dma_pages_def data_kept_def)
    from ok len obtain m' where "alloc_dma_mem E (HCA_PAGE_SIZE * p_block_size p) m = Some (Inr dm, m')"
      by (auto simp: mem_block_ok_def)
    with fresh len have "set (dma_pages (dm_phys dm) (length eds)) \<inter> set (all_phys p bs) = {}"
      by (simp add: dma_fresh_def)
    moreover have "distinct (dma_pages (dm_phys dm) (length eds))"
      using small len by (simp add: distinct_dma_pages)
    ultimately have "distinct (all_phys p' bs')"
      using eq old(2,3) bp by (auto simp: all_phys_def)
    with old(1) d pg eq show ?thesis by simp
  qed
qed


text \<open>The index after a new page is entered.\<close>

lemma mem_inv_enter:
  assumes inv: "mem_inv pr p bs" and kept: "data_kept p p' bs" and wf': "pool_inv pr p' bs'"
    and ok: "list_all (\<lambda>b. \<exists>dm eds. data_of (p_heap p') b = Some (dm, eds) \<and> pages_of dm eds) bs'"
      "distinct (all_phys p' bs')"
    and new: "e \<notin> used_slots p bs" and used: "used_slots p' bs' = insert e (used_slots p bs)"
  defines "q \<equiv> p'\<lparr>p_data := (p_data p')(phys_of p' e \<mapsto> e)\<rparr>"
  shows "p_data p (phys_of p' e) = None" and "mem_inv pr q bs'"
proof -
  have old: "phys_of p' e' = phys_of p e'" if "e' \<in> used_slots p bs" for e'
    using that by (intro phys_of_kept [OF kept] used_slots_in)
  have ix: "p_data p \<phi> = Some e' \<longleftrightarrow> e' \<in> used_slots p bs \<and> phys_of p' e' = \<phi>" for \<phi> e'
    using inv old [of e'] unfolding mem_inv_def by metis
  have inj: "phys_of p' x = phys_of p' y \<Longrightarrow> x = y" if "x \<in> used_slots p' bs'" "y \<in> used_slots p' bs'" for x y
    using phys_of_inj [OF ok(2) that] .
  show none: "p_data p (phys_of p' e) = None"
  proof (cases "p_data p (phys_of p' e)")
    case (Some e')
    then have "e' \<in> used_slots p bs" "phys_of p' e' = phys_of p' e" by (simp_all add: ix)
    with inj [of e' e] used new show ?thesis by auto
  qed
  have "p_data q \<phi> = Some e' \<longleftrightarrow> e' \<in> used_slots p' bs' \<and> phys_of p' e' = \<phi>" for \<phi> e'
  proof -
    have "p_data p' = p_data p" using kept by (simp add: data_kept_def)
    then have "p_data q \<phi> = Some e' \<longleftrightarrow> (if phys_of p' e = \<phi> then e' = e else p_data p \<phi> = Some e')"
      by (auto simp: q_def)
    also have "\<dots> \<longleftrightarrow> (if phys_of p' e = \<phi> then e' = e else e' \<in> used_slots p bs \<and> phys_of p' e' = \<phi>)"
      by (simp add: ix)
    also have "\<dots> \<longleftrightarrow> e' \<in> used_slots p' bs' \<and> phys_of p' e' = \<phi>"
      using inj [of e' e] used by auto
    finally show ?thesis .
  qed
  then show "mem_inv pr q bs'"
    using ok wf' by (simp add: mem_inv_def q_def)
qed

lemma element_at_slot:
  assumes "pool_wf pr p bs" "e \<in> used_slots p bs"
  obtains el where "get_element e p = Some (Inr el, p)" "me_phys (e_data el) = phys_of p e"
proof -
  obtain b i where e: "e = (b, i)" by (cases e)
  with assms(2) have b: "b \<in> set bs" by (auto dest: used_slots_in)
  from wf_block [OF assms(1) b] obtain blk where blk: "p_heap p b = Some blk" by blast
  with assms(2) e have "i < length (b_start blk)" by (auto simp: used_slots_def row_of_Some)
  with blk e that [of "b_start blk ! i"] show ?thesis
    by (simp add: get_element_Some phys_of_def block_phys_def data_of_Some)
qed

theorem mem_alloc_page_ok:
  assumes inv: "mem_inv pr p bs" and fresh: "dma_fresh E m p bs" and small: "unat (p_block_size p) \<le> 2 ^ 52"
    and room: "p_size p \<noteq> p_max p"
  shows "\<exists>r p' m'. mem_alloc_page E (p, m) = Some (r, (p', m')) \<and> mem_alloc_post pr p bs r p'"
proof -
  have pinv: "pool_inv pr p bs" using inv by (simp add: mem_inv_def)
  obtain r p' m' where run: "alloc_page (mem_alloc_block E) (p, m) = Some (r, (p', m'))"
    and post: "alloc_post (mem_block_ok E m) pr p bs r p'"
    using mem_pool.alloc_page_correct [OF pinv, of E m] by blast
  show ?thesis
  proof (cases r)
    case (Inl err)
    from post Inl have kept: "data_kept p p' bs" and occ: "occupancy p' bs = occupancy p bs"
      and wf': "pool_inv pr p' bs" and sz: "p_size p' = p_size p"
      by (auto simp: alloc_post_def)
    have used: "used_slots p' bs = used_slots p bs"
      using occ by (auto simp: used_slots_nth set_eq_iff)
    have "mem_inv pr p' bs"
      using inv mem_inv_new_block [OF inv kept _ wf' fresh small] wf' kept used
      by (auto simp: mem_inv_def phys_of_kept [OF kept] data_kept_def dest: used_slots_in)
    with run Inl sz kept show ?thesis
      by (simp add: mem_alloc_page_def prog_simps mem_alloc_post_def data_kept_def)
  next
    case (Inr eo)
    with post room obtain e where e: "r = Inr (Some e)" by (cases eo) (auto simp: alloc_post_def)
    from post e have kept: "data_kept p p' bs" and sz: "p_size p < p_max p" "p_size p' = p_size p + 1"
      by (auto simp: alloc_post_def)
    from alloc_post_used [OF pinv post [unfolded e]] obtain bs' where wf': "pool_inv pr p' bs'"
      and new: "e \<notin> used_slots p bs" and used: "used_slots p' bs' = insert e (used_slots p bs)"
      and bs': "bs' = bs \<or> bs' = bs @ [p_brk p] \<and>
        (\<exists>bd eds. data_of (p_heap p') (p_brk p) = Some (bd, eds) \<and> mem_block_ok E m (p_data p) bd eds)"
      by metis
    from mem_inv_new_block [OF inv kept bs' wf' fresh small]
    have ok: "list_all (\<lambda>b. \<exists>dm eds. data_of (p_heap p') b = Some (dm, eds) \<and> pages_of dm eds) bs'"
      "distinct (all_phys p' bs')" by simp_all
    from element_at_slot [of pr p' bs' e] wf' used obtain el where
      el: "get_element e p' = Some (Inr el, p')" "me_phys (e_data el) = phys_of p' e"
      by (auto simp: pool_inv_def)
    let ?q = "p'\<lparr>p_data := (p_data p')(phys_of p' e \<mapsto> e)\<rparr>"
    have "mem_alloc_page E (p, m) = Some (Inr e, (?q, m'))"
      using run e el by (simp add: mem_alloc_page_def prog_simps)
    moreover have "mem_alloc_post pr p bs (Inr e) ?q"
      using mem_inv_enter [OF inv kept wf' ok new used] sz bs' new used kept
      by (auto simp: mem_alloc_post_def data_kept_def)
    ultimately show ?thesis by blast
  qed
qed


section \<open>Freeing\<close>

lemma used_slots_data: "used_slots p bs = used_slots q bs" if "p_heap p = p_heap q"
  using that by (simp add: used_slots_def)

text \<open>The index after the entry of a freed page is taken out.\<close>

lemma mem_inv_leave:
  assumes inv: "mem_inv pr p bs" and e: "p_data p \<phi> = Some e"
    and kept: "data_kept (p\<lparr>p_data := (p_data p)(\<phi> := None)\<rparr>) p' bs'" and sub: "set bs' \<subseteq> set bs"
    and d: "distinct (all_phys p bs')"
    and wf': "pool_inv pr' p' bs'" and used: "used_slots p' bs' = used_slots p bs - {e}"
  shows "mem_inv pr' p' bs'"
proof -
  have block: "data_of (p_heap p') b = data_of (p_heap p) b" if "b \<in> set bs'" for b
    using pages_kept [OF kept that] by simp
  then have bp: "block_phys p' b = block_phys p b" if "b \<in> set bs'" for b
    using that by (simp add: block_phys_def)
  have ph: "phys_of p' x = phys_of p x" if "x \<in> used_slots p' bs'" for x
    using bp [OF used_slots_in [OF that]] by (simp add: phys_of_def)
  have ix: "p_data p \<psi> = Some x \<longleftrightarrow> x \<in> used_slots p bs \<and> phys_of p x = \<psi>" for \<psi> x
    using inv unfolding mem_inv_def by metis
  have "p_data p' \<psi> = Some x \<longleftrightarrow> x \<in> used_slots p' bs' \<and> phys_of p' x = \<psi>" for \<psi> x
  proof -
    have "p_data p' \<psi> = Some x \<longleftrightarrow> \<psi> \<noteq> \<phi> \<and> p_data p \<psi> = Some x"
      using kept by (simp add: data_kept_def)
    also have "\<dots> \<longleftrightarrow> x \<in> used_slots p bs - {e} \<and> phys_of p x = \<psi>"
      using ix [of \<psi> x] ix [of \<phi> e] ix [of \<phi> x] e by auto
    also have "\<dots> \<longleftrightarrow> x \<in> used_slots p' bs' \<and> phys_of p' x = \<psi>"
      unfolding used [symmetric] using ph [of x] by (intro conj_cong refl) simp
    finally show ?thesis .
  qed
  moreover have "list_all (\<lambda>b. \<exists>dm eds. data_of (p_heap p') b = Some (dm, eds) \<and> pages_of dm eds) bs'"
    using inv sub block by (auto simp: mem_inv_def list_all_iff)
  moreover have "all_phys p' bs' = all_phys p bs'"
    unfolding all_phys_def by (intro arg_cong [of _ _ concat] map_cong refl) (rule bp)
  ultimately show ?thesis using d wf' by (simp add: mem_inv_def)
qed

lemma distinct_all_phys_sub:
  assumes "distinct (all_phys p bs)" shows "distinct (all_phys p (take k bs @ drop (Suc k) bs))"
proof (cases "k < length bs")
  case True
  then have "bs = take k bs @ bs ! k # drop (Suc k) bs" by (simp add: id_take_nth_drop)
  with assms have "distinct (all_phys p (take k bs @ bs ! k # drop (Suc k) bs))" by simp
  then show ?thesis by (auto simp: all_phys_def)
qed (use assms in simp)

theorem mem_free_page_ok:
  assumes inv: "mem_inv None p bs" and e: "p_data p \<phi> = Some e"
    and run: "mem_free_page E \<phi> (p, m) = Some (Inr (), (p', m'))"
  shows "\<exists>pr' bs'. mem_inv pr' p' bs' \<and> used_slots p' bs' = used_slots p bs - {e}
    \<and> p_data p' = (p_data p)(\<phi> := None) \<and> p_size p' = p_size p - 1 \<and> set bs' \<subseteq> set bs"
proof -
  let ?q = "p\<lparr>p_data := (p_data p)(\<phi> := None)\<rparr>"
  have pinv: "pool_inv None ?q bs" using inv by (simp add: mem_inv_def)
  from inv e have slot: "e \<in> used_slots p bs" unfolding mem_inv_def by metis
  obtain b i where bi: "e = (b, i)" by (cases e)
  from slot [unfolded bi used_slots_nth] obtain k where k: "k < length bs" "b = bs ! k"
      "i < length (occupancy ?q bs ! k)" "occupancy ?q bs ! k ! i"
    by (auto simp: occupancy_def)
  have "free_page (mem_free_block E) (bs ! k, i) (?q, m) = Some (Inr (), (p', m'))"
    using run e bi k by (simp add: mem_free_page_def prog_simps)
  note post = mem_pool.free_page_correct [OF pinv k(1,3,4) _ this]
  then have post: "free_post None ?q bs k i p'" by simp
  define bs' where "bs' = (if empties ?q bs k i then take k bs @ drop (Suc k) bs else bs)"
  from free_post_used [OF pinv k(1,3) post, folded bs'_def] obtain pr' where
    new: "used_slots p' bs' = used_slots p bs - {e}" "pool_inv pr' p' bs'" "data_kept ?q p' bs'"
    using bi k(2) used_slots_data [of ?q p bs] by auto
  have sub: "set bs' \<subseteq> set bs" by (auto simp: bs'_def dest: in_set_takeD in_set_dropD)
  have "distinct (all_phys p bs')"
    using inv distinct_all_phys_sub by (auto simp: mem_inv_def bs'_def)
  from mem_inv_leave [OF inv e new(3) sub this new(2,1)]
  have "mem_inv pr' p' bs'" .
  with new sub post show ?thesis
    by (intro exI [of _ pr'] exI [of _ bs'] conjI) (simp_all add: data_kept_def free_post_def)
qed

lemma mem_free_page_unknown:
  "p_data p \<phi> = None \<Longrightarrow>
   mem_free_page E \<phi> (p, m) = Some (Inl (Undefined ''empty map node''), (p\<lparr>p_data := p_data p\<rparr>, m))"
  by (simp add: mem_free_page_def prog_simps fun_upd_idem)

end
