(* ===== verification/Uar.thy ===== *)
theory Uar
  imports Pool_Correct Mem
begin

text \<open>
  The pool of UAR pages (doorbell pages of the device): \<open>server/src/uar.h\<close> and \<open>uar.cc\<close>.
  Its blocks own no memory: the pages of every block are laid out from the one base UAR.
\<close>

section \<open>Data\<close>

text \<open>The registers of a \<open>Page\<close>, by index; the structure is packed, so index is offset / 4.\<close>

abbreviation (input) uar_cmdsn_and_cmd_and_cq_ci :: nat where "uar_cmdsn_and_cmd_and_cq_ci \<equiv> 8"
abbreviation (input) uar_cq_n :: nat where "uar_cq_n \<equiv> 9"
abbreviation (input) uar_eqn_arm_and_update_ci :: nat where "uar_eqn_arm_and_update_ci \<equiv> 16"
abbreviation (input) uar_eqn_and_update_ci :: nat where "uar_eqn_and_update_ci \<equiv> 18"

abbreviation (input) UAR_EQN_MASK :: u32 where "UAR_EQN_MASK \<equiv> 0xff000000"
abbreviation (input) UAR_EQN_OFFSET :: nat where "UAR_EQN_OFFSET \<equiv> 24"

record UAR =
  u_index :: u32
  u_addr :: u64

text \<open>The pool's data is the base UAR; a block has no data; an element's data is its UAR.\<close>

type_synonym 's uar_pool_state = "(UAR, unit, UAR) pool \<times> 's"
type_synonym UAR_Page_Pool = "(UAR, unit, UAR) pool"
type_synonym ('s, 'a) uar_prog = "(UAR, unit, UAR, 's, 'a) pool_prog"

text \<open>The \<open>i\<close>-th page from the base; the index is added in 64 bits and cut to 32.\<close>

definition uar_page :: "UAR \<Rightarrow> nat \<Rightarrow> UAR" where
  "uar_page base i = \<lparr>u_index = ucast (ucast (u_index base) + of_nat i :: u64),
                      u_addr = u_addr base + of_nat i * HCA_PAGE_SIZE\<rparr>"

section \<open>Operations\<close>

definition uar_alloc_block :: "('s, unit) uar_prog" where
  "uar_alloc_block =
     bnd (on_pool create_block) (\<lambda>upb.
     bnd (gets (\<lambda>(p, _). p_data p)) (\<lambda>base.
     andthen (on_pool (init_elements upb (\<lambda>i up.
                up\<lparr>e_used := False, e_block := upb, e_data := uar_page base i\<rparr>)))
             (on_pool (add_block_to_pool upb))))"

definition uar_free_block :: "nat \<Rightarrow> ('s, unit) uar_prog" where
  "uar_free_block upb =
     andthen (on_pool (remove_block_from_pool upb))
             (on_pool (destroy_block upb))"

definition uar_alloc_page :: "('s, (nat \<times> nat) option) uar_prog" where
  "uar_alloc_page = alloc_page uar_alloc_block"

definition uar_free_page :: "nat \<times> nat \<Rightarrow> ('s, unit) uar_prog" where
  "uar_free_page up = free_page uar_free_block up"

section \<open>The pool's callbacks meet their interface\<close>

definition uar_block_ok :: "'s \<Rightarrow> UAR \<Rightarrow> unit \<Rightarrow> UAR list \<Rightarrow> bool" where
  "uar_block_ok s base bd eds \<longleftrightarrow> eds = map (uar_page base) [0..<length eds]"

lemma uar_alloc_block_run:
  assumes "end_ok p"
  shows "\<exists>blk. fresh_block (p_block_size p) (p_brk p) blk
     \<and> map e_data (b_start blk) = map (uar_page (p_data p)) [0..<unat (p_block_size p)]
     \<and> uar_alloc_block (p, s) = Some (Inr (), (grow blk p, s))"
proof -
  let ?b = "p_brk p" and ?n = "unat (p_block_size p)"
  let ?blk = "\<lparr>b_element_count = 0, b_next = None, b_prev = None, b_data = p_raw_data p ?b,
        b_start = map (\<lambda>i. (p_raw_elems p ?b i)
        \<lparr>e_used := False, e_block := ?b, e_data := uar_page (p_data p) i\<rparr>) [0..<?n]\<rparr> :: (unit, UAR) block"
  have "uar_alloc_block (p, s) = Some (Inr (), (grow ?blk p, s))"
    using add_block_run [OF assms, of ?blk] by (simp add: uar_alloc_block_def prog_simps)
  moreover have "fresh_block (p_block_size p) ?b ?blk"
    by (simp add: fresh_block_def list_all_iff)
  ultimately show ?thesis by (intro exI [of _ ?blk]) simp
qed

lemma uar_free_block_finished:
  assumes "uar_free_block b (p, s) = Some (r, (p', s'))"
  shows "(\<exists>e. r = Inl e \<and> remove_block_from_pool b p = Some (Inl e, p'))
       \<or> (\<exists>e. r = Inl e \<and> remove_block_from_pool b p = Some (Inr (), p'))
       \<or> (\<exists>q. r = Inr () \<and> remove_block_from_pool b p = Some (Inr (), q)
            \<and> p' = q\<lparr>p_heap := (p_heap q)(b := None)\<rparr>)"
  using assms unfolding uar_free_block_def andthen_def destroy_block_def
  by (auto elim!: bnd_finished zoom_finished simp: on_pool_def modify_def
      get_block_def ret_def throw_def split: option.splits)

interpretation uar_pool: block_provider uar_alloc_block uar_block_ok uar_free_block
proof
  fix p :: UAR_Page_Pool and s u p' s'
  assume "end_ok p" "uar_alloc_block (p, s) = Some (Inr u, (p', s'))"
  with uar_alloc_block_run [of p s]
  show "\<exists>blk. fresh_block (p_block_size p) (p_brk p) blk \<and> p' = grow blk p \<and>
      uar_block_ok s (p_data p) (b_data blk) (map e_data (b_start blk))"
    by (fastforce simp: uar_block_ok_def fresh_block_def)
next
  fix p :: UAR_Page_Pool and s e p' s'
  assume "end_ok p" "uar_alloc_block (p, s) = Some (Inl e, (p', s'))"
  with uar_alloc_block_run [of p s] show "\<exists>blk. p' = leak blk p" by auto
next
  fix p :: UAR_Page_Pool and s
  assume "end_ok p"
  with uar_alloc_block_run [of p s] show "uar_alloc_block (p, s) \<noteq> None" by auto
next
  fix b and p :: UAR_Page_Pool and s u p' s'
  assume "uar_free_block b (p, s) = Some (Inr u, (p', s'))"
  then show "\<exists>q. remove_block_from_pool b p = Some (Inr (), q) \<and> p' = q\<lparr>p_heap := (p_heap q)(b := None)\<rparr>"
    by (auto dest: uar_free_block_finished)
next
  fix b and p :: UAR_Page_Pool and s e p' s'
  assume "uar_free_block b (p, s) = Some (Inl e, (p', s'))"
  then show "remove_block_from_pool b p = Some (Inl e, p') \<or> remove_block_from_pool b p = Some (Inr (), p')"
    by (auto dest: uar_free_block_finished)
next
  fix b and p :: UAR_Page_Pool and s
  assume "remove_block_from_pool b p \<noteq> None"
  then show "uar_free_block b (p, s) \<noteq> None"
    by (auto simp: uar_free_block_def andthen_def destroy_block_def bnd_def zoom_def on_pool_def
        modify_def get_block_def ret_def throw_def split: option.splits sum.splits prod.splits)
qed

section \<open>The invariant of the UAR pool\<close>

text \<open>Every block holds the pages laid out from the base UAR.\<close>

definition uar_inv :: "nat option \<Rightarrow> UAR_Page_Pool \<Rightarrow> nat list \<Rightarrow> bool" where
  "uar_inv pr p bs \<longleftrightarrow> pool_inv pr p bs
     \<and> list_all (\<lambda>b. data_of (p_heap p) b = Some ((), map (uar_page (p_data p)) [0..<unat (p_block_size p)])) bs"

text \<open>The UAR of the page a pointer leads to.\<close>

definition uar_at :: "UAR_Page_Pool \<Rightarrow> nat \<times> nat \<Rightarrow> UAR" where
  "uar_at p e = (case data_of (p_heap p) (fst e) of None \<Rightarrow> \<lparr>u_index = 0, u_addr = 0\<rparr> | Some (_, eds) \<Rightarrow> eds ! snd e)"

lemma uar_at_page:
  "uar_inv pr p bs \<Longrightarrow> b \<in> set bs \<Longrightarrow> i < unat (p_block_size p) \<Longrightarrow> uar_at p (b, i) = uar_page (p_data p) i"
  by (simp add: uar_inv_def list_all_iff uar_at_def)

lemma uar_page_inj:
  assumes "uar_page base i = uar_page base j" "i < 2 ^ 52" "j < 2 ^ 52"
  shows "i = j"
proof -
  from assms(1) have "(of_nat i :: u64) * 4096 = of_nat j * 4096" by (simp add: uar_page_def)
  then have "unat (of_nat i * 4096 :: u64) = unat (of_nat j * 4096 :: u64)" by simp
  moreover have "i * 4096 < 2 ^ 64" "j * 4096 < 2 ^ 64" using assms(2,3) by auto
  ultimately show ?thesis by (simp add: unat_word_ariths unsigned_of_nat take_bit_nat_eq_self)
qed

lemma block_row_length: "pool_wf pr p bs \<Longrightarrow> b \<in> set bs \<Longrightarrow> length (row_of (p_heap p) b) = unat (p_block_size p)"
  by (drule wf_block) (auto simp: row_of_Some block_ok_def)

text \<open>Allocation keeps the layout; the page returned is the one of its slot.\<close>

lemma uar_alloc_page_inv:
  assumes inv: "uar_inv pr p bs" and room: "p_size p \<noteq> p_max p"
  shows "\<exists>e p' s' bs'. uar_alloc_page (p, s) = Some (Inr (Some e), (p', s')) \<and> uar_inv pr p' bs'
    \<and> (bs' = bs \<or> bs' = bs @ [p_brk p]) \<and> p_data p' = p_data p \<and> p_block_size p' = p_block_size p
    \<and> e \<notin> used_slots p bs \<and> used_slots p' bs' = insert e (used_slots p bs)
    \<and> fst e \<in> set bs' \<and> snd e < unat (p_block_size p) \<and> uar_at p' e = uar_page (p_data p) (snd e)"
proof -
  have pinv: "pool_inv pr p bs" using inv by (simp add: uar_inv_def)
  obtain r p' s' where run: "alloc_page uar_alloc_block (p, s) = Some (r, (p', s'))"
    and post: "alloc_post (uar_block_ok s) pr p bs r p'"
    using uar_pool.alloc_page_correct [OF pinv, of s] by blast
  have "r \<noteq> Inl err" for err
  proof
    assume "r = Inl err"
    with run uar_pool.alloc_page_error [OF pinv, of s err] have "uar_alloc_block (p, s) = Some (Inl err, (p', s'))" by simp
    moreover have "end_ok p" using pinv wf_end_ok by (auto simp: pool_inv_def)
    ultimately show False using uar_alloc_block_run [of p s] by auto
  qed
  moreover have "r \<noteq> Inr None" using post room by (auto simp: alloc_post_def)
  ultimately obtain e where r: "r = Inr (Some e)"
    by (cases r; cases "projr r") auto
  from post r have kept: "data_kept p p' bs" by (auto simp: alloc_post_def)
  from alloc_post_used [OF pinv post [unfolded r]] obtain bs' where wf': "pool_inv pr p' bs'"
    and new: "e \<notin> used_slots p bs" and used: "used_slots p' bs' = insert e (used_slots p bs)"
    and bs': "bs' = bs \<or> bs' = bs @ [p_brk p] \<and>
      (\<exists>bd eds. data_of (p_heap p') (p_brk p) = Some (bd, eds) \<and> uar_block_ok s (p_data p) bd eds)"
    by metis
  have eq: "p_data p' = p_data p" "p_block_size p' = p_block_size p" using kept by (simp_all add: data_kept_def)
  have old: "list_all (\<lambda>b. data_of (p_heap p') b = Some ((), map (uar_page (p_data p)) [0..<unat (p_block_size p)])) bs"
    using inv kept by (simp add: uar_inv_def data_kept_def list_all_iff)
  have inv': "uar_inv pr p' bs'"
  proof -
    from bs' have "list_all (\<lambda>b. data_of (p_heap p') b = Some ((), map (uar_page (p_data p)) [0..<unat (p_block_size p)])) bs'"
    proof (elim disjE conjE exE)
      assume "bs' = bs" with old show ?thesis by simp
    next
      fix bd eds assume b: "bs' = bs @ [p_brk p]" and d: "data_of (p_heap p') (p_brk p) = Some (bd, eds)"
        and ok: "uar_block_ok s (p_data p) bd eds"
      have "pool_wf pr p' bs'" using wf' by (simp add: pool_inv_def)
      from wf_block [OF this, of "p_brk p"] b d eq have "length eds = unat (p_block_size p)"
        by (auto simp: data_of_Some block_ok_def)
      with ok d have "data_of (p_heap p') (p_brk p) = Some ((), map (uar_page (p_data p)) [0..<unat (p_block_size p)])"
        unfolding uar_block_ok_def by simp
      with old b show ?thesis by simp
    qed
    with wf' eq show ?thesis by (simp add: uar_inv_def)
  qed
  have e: "fst e \<in> set bs'" using used used_slots_in [of e p' bs'] by simp
  have "pool_wf pr p' bs'" using wf' by (simp add: pool_inv_def)
  from block_row_length [OF this e] have len: "length (row_of (p_heap p') (fst e)) = unat (p_block_size p)"
    using eq by simp
  have "e \<in> used_slots p' bs'" using used by simp
  with len have i: "snd e < unat (p_block_size p)" by (auto simp: used_slots_def)
  from uar_at_page [OF inv' e, of "snd e"] i eq have "uar_at p' e = uar_page (p_data p) (snd e)" by simp
  with run r inv' bs' eq new used e i show ?thesis
    unfolding uar_alloc_page_def by blast
qed

text \<open>
  The blocks all hold the same UARs: a page of a block after the first is a page that is in
  use already, in the first block, which is full then.
\<close>

lemma uar_alloc_page_shared:
  assumes inv: "uar_inv pr p (b # bs)" and room: "p_size p \<noteq> p_max p"
    and full: "False \<notin> set (row_of (p_heap p) b)"
  shows "\<exists>e p' s'. uar_alloc_page (p, s) = Some (Inr (Some e), (p', s'))
    \<and> (b, snd e) \<in> used_slots p (b # bs) \<and> e \<noteq> (b, snd e) \<and> uar_at p' e = uar_at p (b, snd e)"
proof -
  from uar_alloc_page_inv [OF inv room, of s] obtain e p' s' bs' where
    run: "uar_alloc_page (p, s) = Some (Inr (Some e), (p', s'))" and new: "e \<notin> used_slots p (b # bs)"
    and e: "snd e < unat (p_block_size p)" "uar_at p' e = uar_page (p_data p) (snd e)" by blast
  have wf: "pool_wf pr p (b # bs)" using inv by (simp add: uar_inv_def pool_inv_def)
  have "length (row_of (p_heap p) b) = unat (p_block_size p)"
    using block_row_length [OF wf] by simp
  with e full have used: "(b, snd e) \<in> used_slots p (b # bs)"
    by (auto simp: used_slots_def in_set_conv_nth)
  moreover have "e \<noteq> (b, snd e)" using new used by metis
  ultimately show ?thesis
    using run e uar_at_page [OF inv, of b "snd e"] by auto
qed

end
