(* ===== verification/Memory_Properties.thy ===== *)
theory Memory_Properties
  imports Mem_Correct Uar Sample_Platform
begin

text \<open>
  The properties of the pools: of the generic allocator through its use for DMA pages, of the
  page pool and its index, of the UAR pool. The inputs they are applied to are small pools on
  the sample platform.
\<close>

definition raw_pool :: "MEM_Page_Pool" where
  "raw_pool = \<lparr>p_max = 0, p_size = 0, p_block_size = 0, p_block_count = 0, p_data = (\<lambda>_. None),
     p_start = None, p_end = None, p_heap = (\<lambda>_. None), p_brk = 0,
     p_raw_data = (\<lambda>_. \<lparr>dm_cap = 0, dm_virt = 0, dm_phys = 0\<rparr>),
     p_raw_elems = (\<lambda>_ _. \<lparr>e_used = False, e_data = \<lparr>me_virt = 0, me_phys = 0\<rparr>, e_block = 0\<rparr>)\<rparr>"

text \<open>An empty pool of at most 4 pages in blocks of 2, and pools with one and two blocks.\<close>

definition page_pool :: "MEM_Page_Pool" where
  "page_pool = empty_pool 4 2 (\<lambda>_. None) raw_pool"

definition page_block :: "u64 \<Rightarrow> nat option \<Rightarrow> nat option \<Rightarrow> nat \<Rightarrow> bool \<Rightarrow> (DMA_MEM, MEM_ED) block" where
  "page_block phys prv nxt b u = (let dm = \<lparr>dm_cap = 1, dm_virt = phys + 0x10000000, dm_phys = phys\<rparr> in
     \<lparr>b_element_count = (if u then 2 else 1), b_next = nxt, b_prev = prv, b_data = dm,
      b_start = [\<lparr>e_used = True, e_data = mem_page dm 0, e_block = b\<rparr>,
                 \<lparr>e_used = u, e_data = mem_page dm 1, e_block = b\<rparr>]\<rparr>)"

definition page_pool1 :: "MEM_Page_Pool" where
  "page_pool1 = page_pool\<lparr>p_size := 1, p_block_count := 1, p_start := Some 0, p_end := Some 0,
     p_heap := [0 \<mapsto> page_block 0x200000 None None 0 False], p_brk := 1,
     p_data := [0x200000 \<mapsto> (0, 0)]\<rparr>"

text \<open>After the first of two blocks was freed: the other one's \<open>prev\<close> still leads to it.\<close>

definition stale_pool :: "MEM_Page_Pool" where
  "stale_pool = page_pool\<lparr>p_size := 1, p_block_count := 1, p_start := Some 1, p_end := Some 1,
     p_heap := [1 \<mapsto> page_block 0x400000 (Some 0) None 1 False], p_brk := 2,
     p_data := [0x400000 \<mapsto> (1, 0)]\<rparr>"

lemma page_pool_simps:
  "p_heap page_pool = (\<lambda>_. None)" "p_size page_pool = 0" "p_max page_pool = 4" "p_block_size page_pool = 2"
  "p_data page_pool = (\<lambda>_. None)" "p_brk page_pool = 0" "p_start page_pool = None" "p_block_count page_pool = 0"
  by (simp_all add: page_pool_def raw_pool_def empty_pool_def)

lemma page_pool_inv: "mem_inv None page_pool []"
  by (simp add: mem_inv_def page_pool_simps pool_inv_def pool_wf_def all_phys_def used_slots_def)

lemma page_pool1_pool_inv: "pool_inv None page_pool1 [0]"
  by (simp add: page_pool1_def page_pool_simps pool_inv_def pool_wf_def page_block_def Let_def
      links_def block_at_def block_ok_def used_in_def)

lemma page_pool1_used: "used_slots page_pool1 [0] = {(0, 0)}"
  by (auto simp: used_slots_def page_pool1_def row_of_def page_block_def Let_def less_Suc_eq nth_Cons')

lemma page_pool1_phys: "block_phys page_pool1 0 = [0x200000, 0x201000]"
  by (simp add: block_phys_def page_pool1_def page_block_def Let_def data_of_def mem_page_def)

lemma page_pool1_size: "p_block_size page_pool1 = 2"
  by (simp add: page_pool1_def page_pool_simps)

lemma page_pool1_inv: "mem_inv None page_pool1 [0]"
proof -
  have "data_of (p_heap page_pool1) 0 = Some (\<lparr>dm_cap = 1, dm_virt = 0x10200000, dm_phys = 0x200000\<rparr>,
      map (mem_page \<lparr>dm_cap = 1, dm_virt = 0x10200000, dm_phys = 0x200000\<rparr>) [0..<2])"
    by (simp add: data_of_def page_pool1_def page_block_def Let_def upt_rec)
  moreover have "p_data page_pool1 \<phi> = Some e \<longleftrightarrow> e = (0, 0) \<and> phys_of page_pool1 e = \<phi>" for \<phi> e
  proof -
    have "p_data page_pool1 \<phi> = (if \<phi> = 0x200000 then Some (0, 0) else None)" by (simp add: page_pool1_def)
    then show ?thesis by (auto simp: phys_of_def page_pool1_phys split: if_splits)
  qed
  ultimately show ?thesis
    using page_pool1_pool_inv
    by (simp add: mem_inv_def page_pool1_used all_phys_def page_pool1_phys pages_of_def)
qed


section \<open>The allocator\<close>

text \<open>
  C11: \<open>alloc_page\<close> implements first-fit allocation. From a pool in its invariant it always
  returns: null exactly when the pool is at its limit; otherwise the element that the
  abstract allocator picks, the first free slot of the first block that has one or the first
  slot of a new block at the end of the list, with the occupancy of the blocks changed
  accordingly and all other data kept; or, with nothing but the leaked block changed, the
  exception of the DMA allocation.
\<close>

theorem alloc_page_first_fit:
  assumes "pool_inv pr p bs"
  shows "\<exists>r p' m'. alloc_page (mem_alloc_block E) (p, m) = Some (r, (p', m'))
    \<and> alloc_post (mem_block_ok E m) pr p bs r p'"
  by (rule mem_pool.alloc_page_correct [OF assms])

lemma alloc_page_first_fit_witness:
  "\<exists>r p' m'. alloc_page (mem_alloc_block bump_platform) (page_pool1, bump_machine) = Some (r, (p', m'))
    \<and> alloc_post (mem_block_ok bump_platform bump_machine) None page_pool1 [0] r p'"
  by (rule alloc_page_first_fit [OF page_pool1_pool_inv])

text \<open>
  C12: \<open>free_page\<close> implements the abstract deallocation. Freeing an element in use clears its
  slot; a block that becomes empty is taken out of the list and the others keep their order
  and data; the invariant holds again, where the \<open>prev\<close> pointer of the first block has become
  stale if it was the first block that went.
\<close>

theorem free_page_refines:
  assumes "pool_inv pr p bs" "k < length bs" "i < length (occupancy p bs ! k)" "occupancy p bs ! k ! i"
    and "k = 0 \<and> empties p bs k i \<longrightarrow> pr = None"
    and "free_page (mem_free_block E) (bs ! k, i) (p, m) = Some (Inr (), (p', m'))"
  shows "free_post pr p bs k i p'"
  by (rule mem_pool.free_page_correct [OF assms])

lemma page_pool1_occupancy: "occupancy page_pool1 [0] = [[True, False]]"
  by (simp add: occupancy_def row_of_def page_pool1_def page_block_def Let_def)

lemma free_page_pool1:
  "\<exists>p' m'. free_page (mem_free_block bump_platform) ([0] ! 0, 0) (page_pool1, bump_machine) = Some (Inr (), (p', m'))"
  by (simp add: free_page_def mem_free_block_def prog_simps page_pool1_def page_pool_simps page_block_def Let_def
      remove_block_from_pool_def destroy_block_def free_dma_mem_def chksys_def)

lemma free_page_refines_witness:
  "\<exists>p' m'. free_page (mem_free_block bump_platform) (0, 0) (page_pool1, bump_machine) = Some (Inr (), (p', m'))
    \<and> free_post None page_pool1 [0] 0 0 p'"
proof -
  obtain p' m' where run: "free_page (mem_free_block bump_platform) ([0] ! 0, 0) (page_pool1, bump_machine) = Some (Inr (), (p', m'))"
    using free_page_pool1 by blast
  have "free_post None page_pool1 [0] 0 0 p'"
    by (rule free_page_refines [OF page_pool1_pool_inv _ _ _ _ run]) (simp_all add: page_pool1_occupancy)
  with run show ?thesis by simp
qed

text \<open>
  C13: freeing through a stale list head is undefined. \<open>remove_block_from_pool\<close> does not reset
  the \<open>prev\<close> pointer of the block that becomes the first one. When that block becomes empty
  in turn, the pool writes through the pointer to the freed block.
\<close>

theorem free_page_dangling_head:
  assumes "pool_inv (Some q) p bs" "i < length (occupancy p bs ! 0)" "occupancy p bs ! 0 ! i" "empties p bs 0 i"
  shows "\<exists>t. free_page (mem_free_block E) (bs ! 0, i) (p, m) = Some (Inl (Undefined ''block pointer''), t)"
  by (rule mem_pool.free_page_stale_head [OF assms])

lemma free_page_dangling_head_witness:
  "\<exists>t. free_page (mem_free_block bump_platform) ([1] ! 0, 0) (stale_pool, bump_machine) =
     Some (Inl (Undefined ''block pointer''), t)"
proof -
  have "pool_inv (Some 0) stale_pool [1]"
    by (simp add: stale_pool_def page_pool_simps pool_inv_def pool_wf_def page_block_def Let_def
        links_def block_at_def block_ok_def used_in_def)
  moreover have "occupancy stale_pool [1] = [[True, False]]"
    by (simp add: occupancy_def row_of_def stale_pool_def page_block_def Let_def)
  ultimately show ?thesis by (intro free_page_dangling_head) (simp_all add: empties_def)
qed

section \<open>DMA pages\<close>

text \<open>
  C14: \<open>MEM::alloc_page\<close> lends a page that is not lent yet. If the DMA space returns memory
  that is not mapped already, the call returns; the page it yields was not in use, its
  physical address was not in the index and now is, with this page, and no two pages of the
  pool share an address. An exception leaves index and pages in use as they were.
\<close>

theorem mem_alloc_page_correct:
  assumes "mem_inv pr p bs" "dma_fresh E m p bs" "unat (p_block_size p) \<le> 2 ^ 52" "p_size p \<noteq> p_max p"
  shows "\<exists>r p' m'. mem_alloc_page E (p, m) = Some (r, (p', m')) \<and> mem_alloc_post pr p bs r p'"
  by (rule mem_alloc_page_ok [OF assms])

lemma mem_alloc_page_correct_witness:
  "\<exists>r p' m'. mem_alloc_page bump_platform (page_pool1, bump_machine\<lparr>hw := 0x800000\<rparr>) = Some (r, (p', m'))
    \<and> mem_alloc_post None page_pool1 [0] r p'"
proof (rule mem_alloc_page_correct [OF page_pool1_inv])
  show "dma_fresh bump_platform (bump_machine\<lparr>hw := 0x800000\<rparr>) page_pool1 [0]"
    by (simp add: dma_fresh_def alloc_dma_mem_def prog_simps chkcap_def chksys_def all_phys_def page_pool1_phys
        page_pool1_size dma_pages_def round_superpage_def upt_rec)
qed (simp_all add: page_pool1_def page_pool_simps)

text \<open>
  C15: \<open>MEM::free_page\<close> takes back exactly the page with the address given: it is no longer in
  use nor in the index, all others stay, and the invariant holds again.
\<close>

theorem mem_free_page_correct:
  assumes "mem_inv None p bs" "p_data p \<phi> = Some e" "mem_free_page E \<phi> (p, m) = Some (Inr (), (p', m'))"
  shows "\<exists>pr' bs'. mem_inv pr' p' bs' \<and> used_slots p' bs' = used_slots p bs - {e}
    \<and> p_data p' = (p_data p)(\<phi> := None) \<and> p_size p' = p_size p - 1 \<and> set bs' \<subseteq> set bs"
  by (rule mem_free_page_ok [OF assms])

lemma mem_free_page_correct_witness:
  "\<exists>p' m'. mem_free_page bump_platform 0x200000 (page_pool1, bump_machine) = Some (Inr (), (p', m'))
    \<and> (\<exists>pr' bs'. mem_inv pr' p' bs' \<and> used_slots p' bs' = {} \<and> p_data p' = Map.empty)"
proof -
  have "p_data page_pool1 0x200000 = Some (0, 0)" "p_data page_pool1 = [0x200000 \<mapsto> (0, 0)]"
    by (simp_all add: page_pool1_def)
  moreover have "\<exists>p' m'. mem_free_page bump_platform 0x200000 (page_pool1, bump_machine) = Some (Inr (), (p', m'))"
    by (simp add: mem_free_page_def free_page_def mem_free_block_def prog_simps page_pool1_def page_pool_simps
        page_block_def Let_def remove_block_from_pool_def destroy_block_def free_dma_mem_def chksys_def)
  ultimately show ?thesis
    using mem_free_page_correct [OF page_pool1_inv, of "0x200000" "(0, 0)" bump_platform bump_machine]
    by (fastforce simp: page_pool1_used)
qed

text \<open>
  An address that is not in the index must not be freed: the map node is empty and the
  page pointer taken from it undefined.
\<close>

theorem mem_free_page_not_lent:
  assumes "p_data p \<phi> = None"
  shows "\<exists>t. mem_free_page E \<phi> (p, m) = Some (Inl (Undefined ''empty map node''), t)"
  using mem_free_page_unknown [OF assms] by blast

lemma mem_free_page_not_lent_witness:
  "\<exists>t. mem_free_page bump_platform 0x201000 (page_pool1, bump_machine) = Some (Inl (Undefined ''empty map node''), t)"
  by (rule mem_free_page_not_lent) (simp add: page_pool1_def)

text \<open>
  C16: DMA memory is allocated in whole superpages: \<open>alloc_dma_mem\<close> rounds a size up to the
  next multiple, and a multiple stays.
\<close>

theorem round_superpage_correct:
  assumes "sh < 64" "unat sz + 2 ^ sh < 2 ^ 64"
  shows "unat (round_superpage sh sz) = (unat sz + 2 ^ sh - 1) div 2 ^ sh * 2 ^ sh"
  by (rule round_superpage_spec [OF assms])

lemma round_superpage_correct_witness: "unat (round_superpage 21 0x200001) = 0x400000"
  using round_superpage_correct [of 21 "0x200001"] by simp

section \<open>UAR pages\<close>

definition uar_pool1 :: UAR_Page_Pool where
  "uar_pool1 = (let base = \<lparr>u_index = 7, u_addr = 0x10000000\<rparr> in
     \<lparr>p_max = 4, p_size = 2, p_block_size = 2, p_block_count = 1, p_data = base, p_start = Some 0, p_end = Some 0,
      p_heap = [0 \<mapsto> \<lparr>b_element_count = 2, b_next = None, b_prev = None, b_data = (),
        b_start = [\<lparr>e_used = True, e_data = uar_page base 0, e_block = 0\<rparr>,
                   \<lparr>e_used = True, e_data = uar_page base 1, e_block = 0\<rparr>]\<rparr>],
      p_brk = 1, p_raw_data = (\<lambda>_. ()), p_raw_elems = (\<lambda>_ _. \<lparr>e_used = False, e_data = base, e_block = 0\<rparr>)\<rparr>)"

lemma uar_pool1_inv: "uar_inv None uar_pool1 [0]"
  by (simp add: uar_inv_def uar_pool1_def Let_def pool_inv_def pool_wf_def
      links_def block_at_def block_ok_def used_in_def data_of_def upt_rec)

text \<open>
  C17: \<open>UAR::alloc_page\<close> below the limit always succeeds with a page that was not in use, the
  \<open>i\<close>-th page from the base UAR for slot \<open>i\<close>, and keeps the layout of the blocks.
\<close>

theorem uar_alloc_page_correct:
  assumes "uar_inv pr p bs" "p_size p \<noteq> p_max p"
  shows "\<exists>e p' s' bs'. uar_alloc_page (p, s) = Some (Inr (Some e), (p', s')) \<and> uar_inv pr p' bs'
    \<and> e \<notin> used_slots p bs \<and> used_slots p' bs' = insert e (used_slots p bs)
    \<and> snd e < unat (p_block_size p) \<and> uar_at p' e = uar_page (p_data p) (snd e)"
  using uar_alloc_page_inv [OF assms, of s] by blast

lemma uar_alloc_page_correct_witness:
  "\<exists>e p' s' bs'. uar_alloc_page (uar_pool1, ()) = Some (Inr (Some e), (p', s')) \<and> uar_inv None p' bs'
    \<and> e \<notin> used_slots uar_pool1 [0] \<and> used_slots p' bs' = insert e (used_slots uar_pool1 [0])
    \<and> snd e < unat (p_block_size uar_pool1) \<and> uar_at p' e = uar_page (p_data uar_pool1) (snd e)"
  by (rule uar_alloc_page_correct [OF uar_pool1_inv]) (simp add: uar_pool1_def Let_def)

text \<open>
  C18: UARs are shared once a block is full. Every block starts again at the base UAR, so the
  page returned when the first block is full is, in index and address, one that is already
  in use by another queue.
\<close>

theorem uar_alloc_page_duplicates:
  assumes "uar_inv pr p (b # bs)" "p_size p \<noteq> p_max p" "False \<notin> set (row_of (p_heap p) b)"
  shows "\<exists>e p' s'. uar_alloc_page (p, s) = Some (Inr (Some e), (p', s'))
    \<and> (b, snd e) \<in> used_slots p (b # bs) \<and> e \<noteq> (b, snd e) \<and> uar_at p' e = uar_at p (b, snd e)"
  by (rule uar_alloc_page_shared [OF assms])

lemma uar_alloc_page_duplicates_witness:
  "\<exists>e p' s'. uar_alloc_page (uar_pool1, ()) = Some (Inr (Some e), (p', s'))
    \<and> (0, snd e) \<in> used_slots uar_pool1 [0] \<and> e \<noteq> (0, snd e) \<and> uar_at p' e = uar_at uar_pool1 (0, snd e)"
  by (rule uar_alloc_page_duplicates [OF uar_pool1_inv]) (simp_all add: uar_pool1_def Let_def row_of_def)

end
