(* ===== verification/Queue_Pool.thy ===== *)
theory Queue_Pool
  imports Queue Uar
begin

text \<open>
  The pools of queue objects of \<open>server/src/queue.h\<close> and \<open>queue.cc\<close>: a queue is a ring with a
  UAR page, DMA memory and the list of its pages' physical addresses (\<open>pas_list\<close>).
\<close>

section \<open>Data\<close>

text \<open>
  A queue object is a queue (\<open>QOP_ED : Q::Queue\<close>) with more data. The buffers that \<open>pas_list\<close>
  and \<open>q_ctx\<close> point to belong to it, and are part of it here.
\<close>

record 'c QOP_ED = Queue +
  qo_id :: u32
  qo_uarp :: "(nat \<times> nat) option"
  qo_pas_list :: "u32 list"
  qo_q_ctx :: 'c

text \<open>A map from ids to nullable pointers: \<open>index[id]\<close> enters a null pointer for a new id.\<close>

record QOP_PD =
  page_entry_count :: u32
  q_index :: "u64 \<Rightarrow> (nat \<times> nat) option option"

text \<open>
  The pool's environment is the pool of UAR pages it refers to (\<open>data.uar_page_pool\<close>) and the
  machine.
\<close>

type_synonym 'h q_env = "UAR_Page_Pool \<times> 'h machine"
type_synonym 'c Queue_Obj_Pool = "(QOP_PD, unit, 'c QOP_ED) pool"
type_synonym ('h, 'c, 'a) queue_prog = "(QOP_PD, unit, 'c QOP_ED, 'h q_env, 'a) pool_prog"

section \<open>Operations\<close>

text \<open>The context of every element is a fresh buffer, which holds anything.\<close>

definition queue_alloc_block :: "('h, 'c, unit) queue_prog" where
  "queue_alloc_block =
     bnd (on_pool create_block) (\<lambda>qob.
     andthen (on_pool (init_elements qob (\<lambda>i qo. qo\<lparr>e_used := False, e_block := qob\<rparr>)))
             (on_pool (add_block_to_pool qob)))"

text \<open>The loop that frees the contexts: it reads every element of the block.\<close>

definition free_contexts :: "nat \<Rightarrow> nat \<Rightarrow> ('h, 'c, unit) queue_prog" where
  "free_contexts qob n =
     for_each (\<lambda>i. bnd (on_pool (get_element (qob, i))) (\<lambda>_. ret ())) [0..<n]"

definition queue_free_block :: "nat \<Rightarrow> ('h, 'c, unit) queue_prog" where
  "queue_free_block qob =
     andthen (on_pool (remove_block_from_pool qob))
    (bnd (gets (\<lambda>(p, _). p_block_size p)) (\<lambda>n.
     andthen (free_contexts qob (unat n))
             (on_pool (destroy_block qob))))"

definition index_queue :: "nat \<times> nat \<Rightarrow> ('h, 'c, unit) queue_prog" where
  "index_queue qo =
     bnd (on_pool (get_element qo)) (\<lambda>el.
     modify (\<lambda>(p, s). (p\<lparr>p_data := (p_data p)\<lparr>q_index :=
       (q_index (p_data p))(ucast (qo_id (e_data el)) \<mapsto> Some qo)\<rparr>\<rparr>, s)))"

definition get_queue :: "u32 \<Rightarrow> ('h, 'c, (nat \<times> nat) option) queue_prog" where
  "get_queue i =
     bnd (gets (\<lambda>(p, _). q_index (p_data p) (ucast i))) (\<lambda>q. case q of
       Some qo \<Rightarrow> ret qo
     | None \<Rightarrow> andthen (modify (\<lambda>(p, s). (p\<lparr>p_data := (p_data p)\<lparr>q_index :=
           (q_index (p_data p))(ucast i \<mapsto> None)\<rparr>\<rparr>, s)))
         (ret None))"

text \<open>The element a pointer leads to: undefined for a null pointer.\<close>

definition deref :: "(nat \<times> nat) option \<Rightarrow> ('s, nat \<times> nat) prog" where
  "deref e = (case e of None \<Rightarrow> throw (Undefined ''null pointer'') | Some x \<Rightarrow> ret x)"

definition put_data :: "nat \<times> nat \<Rightarrow> ('ed \<Rightarrow> 'ed) \<Rightarrow> ('pd, 'bd, 'ed, 's, unit) pool_prog" where
  "put_data e f = on_pool (put_element e (\<lambda>el. el\<lparr>e_data := f (e_data el)\<rparr>))"

text \<open>The pages of a queue: entries over entries per page, rounded up, cut to 32 bits.\<close>

definition queue_pages :: "u64 \<Rightarrow> u32 \<Rightarrow> ('s, u32) prog" where
  "queue_pages sz pec =
     (if pec = 0 then throw (Undefined ''division by zero'')
      else let n = ucast pec :: u64 in
           ret (ucast (if sz mod n \<noteq> 0 then sz div n + 1 else sz div n)))"

text \<open>
  The loop that fills \<open>pas_list\<close>: the upper and the lower half of the address of every page;
  offsets are computed in 32 bits.
\<close>

definition fill_pas_list :: "u64 \<Rightarrow> u32 \<Rightarrow> u32 list \<Rightarrow> ('s, u32 list) prog" where
  "fill_pas_list phys0 page_count buf =
     fold_m (\<lambda>i buf.
       let phys = phys0 + ucast (of_nat i * 4096 :: u32); pas_offset = of_nat i * 2 :: u32 in
       bnd (write_word buf (unat pas_offset) (ucast (drop_bit 32 phys))) (\<lambda>buf.
       write_word buf (unat (pas_offset + 1)) (ucast phys)))
     [0..<unat page_count] buf"

definition alloc_queue :: "'h platform \<Rightarrow> u64 \<Rightarrow> ('h, 'c, nat \<times> nat) queue_prog" where
  "alloc_queue E sz =
     bnd (alloc_page queue_alloc_block) (\<lambda>qo.
     bnd (on_env uar_alloc_page) (\<lambda>up.
     bnd (deref qo) (\<lambda>qo.
     andthen (put_data qo (\<lambda>d. d\<lparr>qo_uarp := up\<rparr>))
    (andthen (put_data qo (\<lambda>d. d\<lparr>q_size := sz\<rparr>))
    (bnd (deref up) (\<lambda>up.
     bnd (on_env (on_pool (get_element up))) (\<lambda>_.
     bnd (gets (\<lambda>(p, _). page_entry_count (p_data p))) (\<lambda>pec.
     bnd (queue_pages sz pec) (\<lambda>page_count.
     let buf = malloc_words E (unat page_count) in
     andthen (put_data qo (\<lambda>d. d\<lparr>qo_pas_list := buf\<rparr>))
    (bnd (on_env (on_env (alloc_dma_mem E (ucast (4096 * page_count))))) (\<lambda>dm.
     andthen (put_data qo (\<lambda>d. d\<lparr>q_dma_mem := dm\<rparr>))
    (bnd (fill_pas_list (dm_phys dm) page_count buf) (\<lambda>buf.
     andthen (put_data qo (\<lambda>d. d\<lparr>qo_pas_list := buf\<rparr>))
    (andthen (put_data qo (\<lambda>d. d\<lparr>q_start := dm_virt dm\<rparr>))
    (andthen (put_data qo (\<lambda>d. d\<lparr>q_head := 0\<rparr>))
             (ret qo))))))))))))))))"

definition free_queue :: "'h platform \<Rightarrow> u64 \<Rightarrow> ('h, 'c, unit) queue_prog" where
  "free_queue E i =
     bnd (gets (\<lambda>(p, _). q_index (p_data p) i)) (\<lambda>n.
     andthen (modify (\<lambda>(p, s). (p\<lparr>p_data := (p_data p)\<lparr>q_index := (q_index (p_data p))(i := None)\<rparr>\<rparr>, s)))
    (case n of
       None \<Rightarrow> throw (Undefined ''empty map node'')
     | Some q \<Rightarrow>
         bnd (deref q) (\<lambda>qo.
         bnd (on_pool (get_element qo)) (\<lambda>el.
         bnd (gets (\<lambda>(p, _). page_entry_count (p_data p))) (\<lambda>pec.
         bnd (queue_pages (q_size (e_data el)) pec) (\<lambda>page_count.
         bnd (deref (qo_uarp (e_data el))) (\<lambda>up.
         andthen (on_env (uar_free_page up))
        (andthen (on_env (on_env (free_dma_mem E (ucast (4096 * page_count)) (q_dma_mem (e_data el)))))
                 (free_page queue_free_block qo)))))))))"

section \<open>The pool's callbacks meet their interface\<close>

lemma queue_alloc_block_run:
  assumes "end_ok p"
  shows "\<exists>blk. fresh_block (p_block_size p) (p_brk p) blk \<and> queue_alloc_block (p, s) = Some (Inr (), (grow blk p, s))"
proof -
  let ?b = "p_brk p" and ?n = "unat (p_block_size p)"
  let ?blk = "\<lparr>b_element_count = 0, b_next = None, b_prev = None, b_data = p_raw_data p ?b,
        b_start = map (\<lambda>i. (p_raw_elems p ?b i)\<lparr>e_used := False, e_block := ?b\<rparr>) [0..<?n]\<rparr>"
  have "queue_alloc_block (p, s) = Some (Inr (), (grow ?blk p, s))"
    using add_block_run [OF assms, of ?blk] by (simp add: queue_alloc_block_def prog_simps)
  moreover have "fresh_block (p_block_size p) ?b ?blk"
    by (simp add: fresh_block_def list_all_iff)
  ultimately show ?thesis by (intro exI [of _ ?blk]) simp
qed

text \<open>Freeing the contexts ends and leaves the pool alone.\<close>

lemma read_element_run: "\<exists>r. bnd (on_pool (get_element e)) (\<lambda>_. ret ()) t = Some (r, t)"
  by (cases t) (auto simp: on_pool_def zoom_def get_element_def get_block_def bnd_def ret_def throw_def
      split: option.splits if_splits)

lemma free_contexts_keeps: "free_contexts b n t = Some (r, u) \<Longrightarrow> u = t"
proof -
  have "keeps (\<lambda>u. u = t) (free_contexts b n)"
    unfolding free_contexts_def
  proof (rule keeps_for_each, rule keepsI)
    fix i s r v assume "s = t" "bnd (on_pool (get_element (b, i))) (\<lambda>_. ret ()) s = Some (r, v)"
    then show "v = t" using read_element_run [of "(b, i)" s] by auto
  qed
  then show "free_contexts b n t = Some (r, u) \<Longrightarrow> u = t" by (auto dest: keepsD)
qed

lemma free_contexts_returns: "free_contexts b n t \<noteq> None"
proof -
  have "returns (\<lambda>_. True) (free_contexts b n)"
    unfolding free_contexts_def
  proof (intro returns_for_each keeps_True returnsI)
    fix i s show "\<exists>r v. bnd (on_pool (get_element (b, i))) (\<lambda>_. ret ()) s = Some (r, v)"
      using read_element_run [of "(b, i)" s] by blast
  qed
  then show ?thesis unfolding returns_def by blast
qed

lemma queue_free_block_finished:
  assumes "queue_free_block b (p, s) = Some (r, (p', s'))"
  shows "(\<exists>e. r = Inl e \<and> remove_block_from_pool b p = Some (Inl e, p'))
       \<or> (\<exists>e. r = Inl e \<and> remove_block_from_pool b p = Some (Inr (), p'))
       \<or> (\<exists>q. r = Inr () \<and> remove_block_from_pool b p = Some (Inr (), q)
            \<and> p' = q\<lparr>p_heap := (p_heap q)(b := None)\<rparr>)"
  using assms unfolding queue_free_block_def andthen_def destroy_block_def
  by (auto elim!: bnd_finished zoom_finished simp: on_pool_def gets_def modify_def
      get_block_def ret_def throw_def split: option.splits dest!: free_contexts_keeps)

lemma queue_free_block_returns:
  assumes "remove_block_from_pool b p \<noteq> None" shows "queue_free_block b (p, s) \<noteq> None"
  using assms
  by (auto simp: queue_free_block_def andthen_def destroy_block_def bnd_def zoom_def on_pool_def
      gets_def modify_def get_block_def ret_def throw_def free_contexts_returns
      split: option.splits sum.splits prod.splits)

definition queue_block_ok :: "'h q_env \<Rightarrow> QOP_PD \<Rightarrow> unit \<Rightarrow> 'c QOP_ED list \<Rightarrow> bool" where
  "queue_block_ok s pd bd eds \<longleftrightarrow> True"

interpretation queue_pool: block_provider "queue_alloc_block :: ('h, 'c, unit) queue_prog" queue_block_ok queue_free_block
  apply unfold_locales
  subgoal for p s u p' s' using queue_alloc_block_run [of p s] by (auto simp: queue_block_ok_def)
  subgoal for p s e p' s' using queue_alloc_block_run [of p s] by auto
  subgoal for p s using queue_alloc_block_run [of p s] by auto
  subgoal for b p s u p' s' using queue_free_block_finished [of b p s "Inr u" p' s'] by auto
  subgoal for b p s e p' s' using queue_free_block_finished [of b p s "Inl e" p' s'] by auto
  subgoal for b p s using queue_free_block_returns [of b p s] by auto
  done

section \<open>The list of a queue's pages\<close>

text \<open>The words of \<open>pas_list\<close> for \<open>n\<close> pages from \<open>phys\<close>.\<close>

definition pas_words :: "u64 \<Rightarrow> nat \<Rightarrow> u32 list" where
  "pas_words phys n = concat (map (\<lambda>a. [ucast (drop_bit 32 a), ucast a]) (map (\<lambda>i. phys + 4096 * of_nat i) [0..<n]))"

lemma length_pas_words [simp]: "length (pas_words phys n) = 2 * n"
  by (induction n) (simp_all add: pas_words_def)

lemma pas_words_Suc:
  "pas_words phys (Suc n) = pas_words phys n @ [ucast (drop_bit 32 (phys + 4096 * of_nat n)), ucast (phys + 4096 * of_nat n)]"
  by (simp add: pas_words_def)

lemma fill_step:
  fixes phys :: u64
  assumes "n < 2 ^ 20"
  shows "phys + ucast (of_nat n * 4096 :: u32) = phys + 4096 * of_nat n"
    and "unat (of_nat n * 2 :: u32) = 2 * n" and "unat (of_nat n * 2 + 1 :: u32) = 2 * n + 1"
proof -
  have "unat (of_nat n * 4096 :: u32) = n * 4096"
    using assms by (simp add: unat_word_ariths unsigned_of_nat take_bit_nat_eq_self)
  then have "(ucast (of_nat n * 4096 :: u32) :: u64) = of_nat (n * 4096)" by (metis of_nat_unat)
  then show "phys + ucast (of_nat n * 4096 :: u32) = phys + 4096 * of_nat n" by (simp add: mult.commute)
  show "unat (of_nat n * 2 :: u32) = 2 * n" "unat (of_nat n * 2 + 1 :: u32) = 2 * n + 1"
    using assms by (simp_all add: unat_word_ariths unsigned_of_nat take_bit_nat_eq_self)
qed

lemma fill_rounds:
  assumes "2 * n \<le> length buf" "n \<le> 2 ^ 20"
  shows "fold_m (\<lambda>i buf.
       let a = phys + ucast (of_nat i * 4096 :: u32); pas_offset = of_nat i * 2 :: u32 in
       bnd (write_word buf (unat pas_offset) (ucast (drop_bit 32 a))) (\<lambda>buf.
       write_word buf (unat (pas_offset + 1)) (ucast a)))
     [0..<n] buf s = Some (Inr (pas_words phys n @ drop (2 * n) buf), s)"
  using assms
proof (induction n)
  case (Suc n)
  then have d: "drop (2 * n) buf = buf ! (2 * n) # buf ! (2 * n + 1) # drop (2 * n + 2) buf"
    by (simp add: Cons_nth_drop_Suc)
  from Suc show ?case
    by (simp add: prog_simps Let_def fill_step [of n] list_update_append pas_words_Suc d)
qed (simp add: prog_simps pas_words_def)

lemma fill_pas_list_run:
  assumes "2 * unat pc \<le> length buf" "unat pc \<le> 2 ^ 20"
  shows "fill_pas_list phys pc buf s = Some (Inr (pas_words phys (unat pc) @ drop (2 * unat pc) buf), s)"
  unfolding fill_pas_list_def by (rule fill_rounds [OF assms])

text \<open>With room for less, the list is overrun on the way.\<close>

lemma fill_pas_list_overrun:
  assumes "length buf < 2 * unat pc" "unat pc \<le> 2 ^ 20"
  shows "fill_pas_list phys pc buf s = Some (Inl (Undefined ''array index''), s)"
proof -
  let ?k = "length buf div 2"
  let ?body = "\<lambda>i buf.
       let a = phys + ucast (of_nat i * 4096 :: u32); pas_offset = of_nat i * 2 :: u32 in
       bnd (write_word buf (unat pas_offset) (ucast (drop_bit 32 a))) (\<lambda>buf.
       write_word buf (unat (pas_offset + 1)) (ucast a)) :: ('a, u32 list) prog"
  have k: "?k < unat pc" "2 * ?k \<le> length buf" "?k \<le> 2 ^ 20" "?k < 2 ^ 20" using assms by auto
  then have "[0..<unat pc] = [0..<?k] @ ?k # [Suc ?k..<unat pc]"
    using upt_add_eq_append [of 0 ?k "unat pc - ?k"] by (simp add: upt_conv_Cons)
  moreover have "fold_m ?body [0..<?k] buf s = Some (Inr (pas_words phys ?k @ drop (2 * ?k) buf), s)"
    by (rule fill_rounds [OF k(2,3)])
  moreover have "?body ?k (pas_words phys ?k @ drop (2 * ?k) buf) s = Some (Inl (Undefined ''array index''), s)"
  proof (cases "even (length buf)")
    case True
    then show ?thesis by (simp add: Let_def fill_step [OF k(4)] write_word_def prog_simps)
  next
    case False
    then have "length buf - 2 * ?k = 1" by presburger
    then show ?thesis by (simp add: Let_def fill_step [OF k(4)] write_word_def prog_simps)
  qed
  ultimately show ?thesis
    by (simp only: fill_pas_list_def fold_m_append) (simp add: bnd_def)
qed

end
