(* ===== verification/Queue_Correct.thy ===== *)
theory Queue_Correct
  imports Queue_Pool
begin

text \<open>
  The contract of \<open>alloc_queue\<close>: what a new queue is, what becomes of the two pools it takes
  an element from, and what happens when \<open>malloc\<close> returns no more memory than it was asked for.
\<close>

section \<open>Elements and their data\<close>

text \<open>The element a pointer leads to, and the pool with its data changed.\<close>

definition elem_at :: "('pd, 'bd, 'ed) pool \<Rightarrow> nat \<times> nat \<Rightarrow> 'ed element option" where
  "elem_at p e = (case p_heap p (fst e) of None \<Rightarrow> None
     | Some blk \<Rightarrow> if snd e < length (b_start blk) then Some (b_start blk ! snd e) else None)"

definition set_data :: "nat \<times> nat \<Rightarrow> ('ed \<Rightarrow> 'ed) \<Rightarrow> ('pd, 'bd, 'ed) pool \<Rightarrow> ('pd, 'bd, 'ed) pool" where
  "set_data e f p = p\<lparr>p_heap := (p_heap p)(fst e := map_option (\<lambda>blk. blk\<lparr>b_start :=
     (b_start blk)[snd e := (b_start blk ! snd e)\<lparr>e_data := f (e_data (b_start blk ! snd e))\<rparr>]\<rparr>) (p_heap p (fst e)))\<rparr>"

lemma get_element_run [prog_simps]: "elem_at p e = Some el \<Longrightarrow> get_element e p = Some (Inr el, p)"
  by (cases e) (auto simp: elem_at_def get_element_def prog_simps split: option.splits if_splits)

lemma put_data_run [prog_simps]:
  "elem_at p e = Some el \<Longrightarrow> put_data e f (p, s) = Some (Inr (), (set_data e f p, s))"
  by (cases e) (auto simp: elem_at_def put_data_def set_data_def prog_simps split: option.splits if_splits)

lemma elem_at_set_data [simp]:
  "elem_at (set_data e f p) e' = (if e' = e then map_option (\<lambda>el. el\<lparr>e_data := f (e_data el)\<rparr>) (elem_at p e) else elem_at p e')"
  by (cases e; cases e') (auto simp: elem_at_def set_data_def split: option.splits)

lemma set_data_set_data [simp]: "set_data e g (set_data e f p) = set_data e (g \<circ> f) p"
proof (cases "p_heap p (fst e)")
  case (Some blk)
  then show ?thesis by (cases "snd e < length (b_start blk)") (auto simp: set_data_def not_less list_update_beyond)
qed (simp add: set_data_def)

lemma set_data_frame [simp]:
  "p_size (set_data e f p) = p_size p" "p_max (set_data e f p) = p_max p" "p_data (set_data e f p) = p_data p"
  "p_block_size (set_data e f p) = p_block_size p" "p_brk (set_data e f p) = p_brk p"
  "p_start (set_data e f p) = p_start p" "p_end (set_data e f p) = p_end p"
  "p_block_count (set_data e f p) = p_block_count p"
  by (simp_all add: set_data_def)

lemma map_e_used_data [simp]:
  "map e_used (es[i := (es ! i)\<lparr>e_data := d\<rparr>]) = map e_used es"
  by (cases "i < length es") (auto intro!: nth_equalityI simp: nth_list_update list_update_beyond not_less split: if_splits)

lemma filter_used_data [simp]:
  "length (filter e_used (es[i := (es ! i)\<lparr>e_data := d\<rparr>])) = length (filter e_used es)"
  by (simp add: count_used)

lemma list_all_block_data [simp]:
  "list_all (\<lambda>e. e_block e = b) (es[i := (es ! i)\<lparr>e_data := d\<rparr>]) = list_all (\<lambda>e. e_block e = b) es"
  by (cases "i < length es") (auto simp: list_all_length nth_list_update list_update_beyond not_less split: if_splits)

lemma links_set_data: "links (p_heap (set_data e f p)) = links (p_heap p)"
  by (rule ext) (auto simp: set_data_def links_def option.map_comp o_def)

lemma heap_set_data:
  "row_of (p_heap (set_data e f p)) b = row_of (p_heap p) b"
  "used_in (p_heap (set_data e f p)) b = used_in (p_heap p) b"
  "p_heap (set_data e f p) b = None \<longleftrightarrow> p_heap p b = None"
  by (auto simp: row_of_def set_data_def used_in_row split: option.splits)

lemma block_at_set_data: "block_at n (p_heap (set_data e f p)) b = block_at n (p_heap p) b"
  by (auto simp: block_at_def set_data_def block_ok_def split: option.splits)

lemma pool_inv_set_data [simp]:
  "pool_inv pr (set_data e f p) bs = pool_inv pr p bs"
  "used_slots (set_data e f p) bs = used_slots p bs"
  by (simp_all add: pool_inv_def pool_wf_def used_slots_def heap_set_data links_set_data block_at_set_data cong: list.pred_cong map_cong option.case_cong)

lemma elem_at_used:
  assumes "pool_inv pr p bs" "e \<in> used_slots p bs"
  obtains el where "elem_at p e = Some el" "e_used el" "e_block el = fst e"
proof -
  obtain b i where e: "e = (b, i)" by (cases e)
  with assms(2) have b: "b \<in> set bs" by (auto dest: used_slots_in)
  from assms(1) wf_block b obtain blk where blk: "p_heap p b = Some blk" "block_ok (p_block_size p) b blk"
    unfolding pool_inv_def by metis
  with assms(2) e have "i < length (b_start blk)" "e_used (b_start blk ! i)" by (auto simp: used_slots_def row_of_Some)
  with blk e that [of "b_start blk ! i"] show ?thesis
    by (simp add: elem_at_def block_ok_def list_all_length)
qed

section \<open>Allocating a queue\<close>

text \<open>The pages a queue of \<open>sz\<close> entries needs, \<open>pec\<close> to a page.\<close>

lemma queue_pages_run:
  assumes "pec \<noteq> 0"
  shows "queue_pages sz pec s = Some (Inr (of_nat ((unat sz + unat pec - 1) div unat pec)), s)"
proof -
  let ?n = "ucast pec :: u64"
  define x k where "x = unat sz" and "k = unat pec"
  have k: "0 < k" using assms(1) by (simp add: k_def unat_gt_0)
  have n: "unat ?n = k" by (simp add: k_def)
  have m: "sz mod ?n = 0 \<longleftrightarrow> x mod k = 0"
    by (simp add: unat_eq_0 [symmetric] unat_mod_distrib x_def k_def)
  have d: "unat (sz div ?n) = x div k" by (simp add: unat_div_distrib x_def k_def)
  have "(ucast (if sz mod ?n \<noteq> 0 then sz div ?n + 1 else sz div ?n) :: u32) = of_nat ((x + k - 1) div k)"
  proof (cases "x mod k = 0")
    case True
    then obtain q where q: "x = q * k" by (metis mod_0_imp_dvd dvd_def mult.commute)
    have "(x + k - 1) div k = q" unfolding q using k by (intro div_nat_eqI) (auto simp: algebra_simps)
    moreover have "x div k = q" using q k by simp
    moreover have "(ucast (sz div ?n) :: u32) = of_nat (x div k)" unfolding d [symmetric] by (rule of_nat_unat [symmetric])
    ultimately show ?thesis using True m by simp
  next
    case False
    define q r where "q = x div k" and "r = x mod k"
    have x: "x = k * q + r" and r: "0 < r" "r < k" using False k by (simp_all add: q_def r_def)
    have "x + k - 1 = k * (q + 1) + (r - 1)" using x r by (simp add: distrib_left)
    then have "(x + k - 1) div k = (q + 1) + (r - 1) div k" using k by (metis div_mult_self4 less_numeral_extra(3))
    then have "(x + k - 1) div k = x div k + 1" using r by (simp add: q_def)
    then have e: "(x + k - 1) div k = x div k + 1" .
    have "unat (sz div ?n + 1) = x div k + 1"
    proof -
      have "1 < k" "0 < x" using x r by (cases k; auto)+
      then have "x div k < x" by simp
      then have "x div k + 1 < 2 ^ 64" using unat_less_64 [of sz] by (simp add: x_def)
      then show ?thesis by (simp add: unat_word_ariths(1) d)
    qed
    then have "(ucast (sz div ?n + 1) :: u32) = of_nat (x div k + 1)" by (metis of_nat_unat)
    with False m e show ?thesis by simp
  qed
  then show ?thesis using assms(1) by (simp add: queue_pages_def prog_simps Let_def x_def k_def)
qed

text \<open>
  What a new queue is: a ring on the DMA memory that was allocated for it, with a UAR page
  of its own and the list of all its pages' addresses.
\<close>

definition queue_built :: "'h platform \<Rightarrow> u64 \<Rightarrow> u32 \<Rightarrow> DMA_MEM \<Rightarrow> nat \<times> nat \<Rightarrow> 'c QOP_ED \<Rightarrow> bool" where
  "queue_built E sz pc dm up d \<longleftrightarrow> q_size d = sz \<and> q_head d = 0 \<and> q_start d = dm_virt dm \<and> q_dma_mem d = dm
     \<and> qo_uarp d = Some up
     \<and> qo_pas_list d = pas_words (dm_phys dm) (unat pc) @ drop (2 * unat pc) (malloc_words E (unat pc))"

definition page_count_of :: "u64 \<Rightarrow> u32 \<Rightarrow> u32" where
  "page_count_of sz pec = of_nat ((unat sz + unat pec - 1) div unat pec)"

lemma alloc_queue_front:
  assumes run: "alloc_page queue_alloc_block (p, (u, m)) = Some (Inr (Some e), (p', (u1, m1)))"
    and el: "elem_at p' e = Some el"
    and uar: "uar_alloc_page (u1, m1) = Some (Inr (Some up), (u', m2))" and ue: "elem_at u' up = Some ul"
    and pec: "page_entry_count (p_data p') \<noteq> 0"
    and pc: "pc = page_count_of sz (page_entry_count (p_data p'))"
    and dma: "alloc_dma_mem E (ucast (4096 * pc)) m2 = Some (Inr dm, m3)"
  shows "alloc_queue E sz (p, (u, m)) =
     bnd (fill_pas_list (dm_phys dm) pc (malloc_words E (unat pc))) (\<lambda>buf.
     andthen (put_data e (\<lambda>d. d\<lparr>qo_pas_list := buf\<rparr>))
    (andthen (put_data e (\<lambda>d. d\<lparr>q_start := dm_virt dm\<rparr>))
    (andthen (put_data e (\<lambda>d. d\<lparr>q_head := 0\<rparr>)) (ret e))))
    (set_data e (\<lambda>d. d\<lparr>qo_uarp := Some up, q_size := sz, qo_pas_list := malloc_words E (unat pc),
        q_dma_mem := dm\<rparr>) p', (u', m3))"
  using run el uar ue dma
  by (simp add: alloc_queue_def deref_def prog_simps Let_def queue_pages_run [OF pec] pc page_count_of_def comp_def)

text \<open>The pool's own operations leave its environment alone.\<close>

lemma keeps_on_pool [keeps_intros]: "keeps (\<lambda>t. snd t = s) (on_pool m)"
  by (rule keepsI) (auto simp: on_pool_def elim: zoom_finished)

lemma keeps_modify_pool [keeps_intros]: "keeps (\<lambda>t. snd t = s) (modify (\<lambda>(p, s). (f p s, s)))"
  by (rule keeps_modify) auto

lemma keeps_alloc_page:
  assumes "keeps (\<lambda>t. snd t = s) alloc_block" shows "keeps (\<lambda>t. snd t = s) (alloc_page alloc_block)"
  using assms unfolding alloc_page_def alloc_round_def
  by (auto intro!: keeps_intros split: sum.splits)

lemma queue_alloc_page_ok:
  fixes p :: "'c Queue_Obj_Pool" and s :: "'h q_env"
  assumes inv: "pool_inv pr p bs" and room: "p_size p \<noteq> p_max p"
  obtains e p' bs' where "alloc_page queue_alloc_block (p, s) = Some (Inr (Some e), (p', s))"
    "pool_inv pr p' bs'" "e \<notin> used_slots p bs" "used_slots p' bs' = insert e (used_slots p bs)"
    "data_kept p p' bs" "set bs \<subseteq> set bs'"
proof -
  obtain r p' s' where run: "alloc_page queue_alloc_block (p, s) = Some (r, (p', s'))"
    and post: "alloc_post (queue_block_ok s) pr p bs r p'"
    using queue_pool.alloc_page_correct [OF inv, of s] by blast
  have "keeps (\<lambda>t. snd t = s) (queue_alloc_block :: ('h, 'c, unit) queue_prog)"
    unfolding queue_alloc_block_def by (intro keeps_intros)
  from keepsD [OF keeps_alloc_page [OF this] _ run] have s: "s' = s" by simp
  have "r \<noteq> Inl err" for err
  proof
    assume "r = Inl err"
    with run queue_pool.alloc_page_error [OF inv, of s err] have "queue_alloc_block (p, s) = Some (Inl err, (p', s'))" by simp
    moreover have "end_ok p" using inv wf_end_ok by (auto simp: pool_inv_def)
    ultimately show False using queue_alloc_block_run [of p s] by auto
  qed
  moreover have "r \<noteq> Inr None" using post room by (auto simp: alloc_post_def)
  ultimately obtain e where r: "r = Inr (Some e)"
    by (cases r; cases "projr r") auto
  from post r have kept: "data_kept p p' bs" by (auto simp: alloc_post_def)
  from alloc_post_used [OF inv post [unfolded r]] obtain bs' where "pool_inv pr p' bs'" "e \<notin> used_slots p bs"
    "used_slots p' bs' = insert e (used_slots p bs)" "set bs \<subseteq> set bs'" by (metis set_append Un_upper1 subset_refl)
  with run r s kept that show thesis by blast
qed

lemma elem_data_kept:
  assumes "data_kept p p' bs" "fst e \<in> set bs"
  shows "map_option e_data (elem_at p' e) = map_option e_data (elem_at p e)"
proof -
  have d: "data_of (p_heap p') (fst e) = data_of (p_heap p) (fst e)"
    using assms by (simp add: data_kept_def list_all_iff)
  have x: "map_option e_data (elem_at q e) = (case data_of (p_heap q) (fst e) of None \<Rightarrow> None
      | Some (_, eds) \<Rightarrow> if snd e < length eds then Some (eds ! snd e) else None)"
    for q :: "('a, 'b, 'c) pool" by (auto simp: elem_at_def data_of_def split: option.splits)
  show ?thesis by (simp add: x d)
qed

text \<open>
  What \<open>alloc_queue\<close> comes to: it takes an element and a UAR page, and builds the queue if the
  memory \<open>malloc\<close> returned for the list of pages holds two words per page; if not, it ends with
  the write past that memory.
\<close>

lemma alloc_queue_outcome:
  fixes m :: "'h machine"
  assumes inv: "pool_inv pr p bs" and room: "p_size p \<noteq> p_max p"
    and uinv: "uar_inv ur u us" and uroom: "p_size u \<noteq> p_max u"
    and pec: "page_entry_count (p_data p) \<noteq> 0" and pc: "pc = page_count_of sz (page_entry_count (p_data p))"
    and dma: "alloc_dma_mem E (ucast (4096 * pc)) m = Some (Inr dm, m')"
    and small: "unat pc \<le> 2 ^ 20"
  shows "\<exists>r e p' u' bs' us' up el. alloc_queue E sz (p, (u, m)) = Some (r, (p', (u', m')))
    \<and> pool_inv pr p' bs' \<and> e \<notin> used_slots p bs \<and> used_slots p' bs' = insert e (used_slots p bs)
    \<and> uar_inv ur u' us' \<and> up \<notin> used_slots u us \<and> used_slots u' us' = insert up (used_slots u us)
    \<and> elem_at p' e = Some el
    \<and> (if 2 * unat pc \<le> length (malloc_words E (unat pc)) then r = Inr e \<and> queue_built E sz pc dm up (e_data el)
       else r = Inl (Undefined ''array index''))
    \<and> p_data p' = p_data p
    \<and> (\<forall>x. x \<in> used_slots p bs \<longrightarrow> map_option e_data (elem_at p' x) = map_option e_data (elem_at p x))"
proof -
  obtain e p1 bs' where run: "alloc_page queue_alloc_block (p, (u, m)) = Some (Inr (Some e), (p1, (u, m)))"
    and q: "pool_inv pr p1 bs'" "e \<notin> used_slots p bs" "used_slots p1 bs' = insert e (used_slots p bs)"
      "data_kept p p1 bs" "set bs \<subseteq> set bs'"
    using queue_alloc_page_ok [OF inv room] by metis
  have "e \<in> used_slots p1 bs'" using q by simp
  then obtain el where el: "elem_at p1 e = Some el" using elem_at_used [OF q(1)] by metis
  obtain up u' s' us' where uar: "uar_alloc_page (u, m) = Some (Inr (Some up), (u', s'))"
    and ui: "uar_inv ur u' us'" "up \<notin> used_slots u us" "used_slots u' us' = insert up (used_slots u us)"
    using uar_alloc_page_inv [OF uinv uroom, of m] by metis
  have "keeps (\<lambda>t. snd t = m) (uar_alloc_page :: ('h machine, _) uar_prog)"
    unfolding uar_alloc_page_def uar_alloc_block_def by (intro keeps_alloc_page keeps_intros)
  from keepsD [OF this _ uar] have s': "s' = m" by simp
  have "up \<in> used_slots u' us'" "pool_inv ur u' us'" using ui by (simp_all add: uar_inv_def)
  then obtain ul where ul: "elem_at u' up = Some ul" using elem_at_used by metis
  have pd: "p_data p1 = p_data p" using q(4) by (simp add: data_kept_def)
  note front = alloc_queue_front [OF run el uar [unfolded s'] ul pec [folded pd] pc [folded pd] dma]
  have old: "map_option e_data (elem_at (set_data e f p1) x) = map_option e_data (elem_at p x)"
    if "x \<in> used_slots p bs" for x f
    using that q(2) elem_data_kept [OF q(4), of x] by (cases x) (auto dest: used_slots_in)
  show ?thesis
  proof (cases "2 * unat pc \<le> length (malloc_words E (unat pc))")
    case True
    let ?buf = "pas_words (dm_phys dm) (unat pc) @ drop (2 * unat pc) (malloc_words E (unat pc))"
    let ?f = "\<lambda>d. d\<lparr>qo_uarp := Some up, q_size := sz, q_dma_mem := dm, qo_pas_list := ?buf, q_start := dm_virt dm, q_head := 0\<rparr>"
    have r: "alloc_queue E sz (p, (u, m)) = Some (Inr e, (set_data e ?f p1, (u', m')))"
      using el by (simp add: front prog_simps fill_pas_list_run [OF True small] comp_def)
    have "elem_at (set_data e ?f p1) e = Some (el\<lparr>e_data := ?f (e_data el)\<rparr>)" "queue_built E sz pc dm up (?f (e_data el))"
      using el by (simp_all add: queue_built_def)
    note built = this
    show ?thesis
      by (rule exI [of _ "Inr e"], rule exI [of _ e], rule exI [of _ "set_data e ?f p1"], rule exI [of _ u'], rule exI [of _ bs'],
          rule exI [of _ us'], rule exI [of _ up], rule exI [of _ "el\<lparr>e_data := ?f (e_data el)\<rparr>"])
        (use r q(1-3) ui built old [of _ ?f] True pd in simp)
  next
    case False
    then have short: "length (malloc_words E (unat pc)) < 2 * unat pc" by simp
    let ?f = "\<lambda>d. d\<lparr>qo_uarp := Some up, q_size := sz, qo_pas_list := malloc_words E (unat pc), q_dma_mem := dm\<rparr>"
    have r: "alloc_queue E sz (p, (u, m)) = Some (Inl (Undefined ''array index''), (set_data e ?f p1, (u', m')))"
      by (simp add: front prog_simps fill_pas_list_overrun [OF short small])
    have "elem_at (set_data e ?f p1) e = Some (el\<lparr>e_data := ?f (e_data el)\<rparr>)" using el by simp
    note built = this
    show ?thesis
      by (rule exI [of _ "Inl (Undefined ''array index'')"], rule exI [of _ e], rule exI [of _ "set_data e ?f p1"], rule exI [of _ u'], rule exI [of _ bs'],
          rule exI [of _ us'], rule exI [of _ up], rule exI [of _ "el\<lparr>e_data := ?f (e_data el)\<rparr>"])
        (use r q(1-3) ui built old [of _ ?f] False pd in simp)
  qed
qed

end
