(* ===== verification/Queue_Properties.thy ===== *)
theory Queue_Properties
  imports Queue_Correct Memory_Properties
begin

text \<open>
  The properties of the queue pools: what \<open>alloc_queue\<close> builds, and its overrun of the list
  of pages.
\<close>

section \<open>A sample pool of queues\<close>

definition queue_pool1 :: "unit Queue_Obj_Pool" where
  "queue_pool1 = (let q = \<lparr>q_start = 0, q_size = 0, q_head = 0, q_dma_mem = \<lparr>dm_cap = 0, dm_virt = 0, dm_phys = 0\<rparr>,
       qo_id = 0, qo_uarp = None, qo_pas_list = [], qo_q_ctx = ()\<rparr> in
     empty_pool 1024 64 \<lparr>page_entry_count = 64, q_index = (\<lambda>_. None)\<rparr>
       \<lparr>p_max = 0, p_size = 0, p_block_size = 0, p_block_count = 0,
        p_data = \<lparr>page_entry_count = 0, q_index = (\<lambda>_. None)\<rparr>, p_start = None, p_end = None,
        p_heap = (\<lambda>_. None), p_brk = 0, p_raw_data = (\<lambda>_. ()),
        p_raw_elems = (\<lambda>_ _. \<lparr>e_used = True, e_data = q, e_block = 0\<rparr>)\<rparr>)"

lemma queue_pool1_inv: "pool_inv None queue_pool1 []"
  unfolding queue_pool1_def Let_def by (rule inv_empty_pool) simp_all

lemma queue_pool1_simps [simp]:
  "p_size queue_pool1 = 0" "p_max queue_pool1 = 1024" "page_entry_count (p_data queue_pool1) = 64"
  by (simp_all add: queue_pool1_def empty_pool_def)

lemma uar_pool1_room: "p_size uar_pool1 \<noteq> p_max uar_pool1"
  by (simp add: uar_pool1_def Let_def)

lemma bump_dma:
  "alloc_dma_mem bump_platform 0x1000 bump_machine =
    Some (Inr \<lparr>dm_cap = 1, dm_virt = 0x10200000, dm_phys = 0x200000\<rparr>, bump_machine\<lparr>hw := 0x400000\<rparr>)"
  "alloc_dma_mem roomy_platform 0x1000 bump_machine =
    Some (Inr \<lparr>dm_cap = 1, dm_virt = 0x10200000, dm_phys = 0x200000\<rparr>, bump_machine\<lparr>hw := 0x400000\<rparr>)"
  by (simp_all add: alloc_dma_mem_def prog_simps chkcap_def chksys_def round_superpage_def)

section \<open>Queues\<close>

text \<open>
  C19: what \<open>alloc_queue\<close> does, for every \<open>malloc\<close>. With room in both pools, DMA memory and at
  most \<open>2 ^ 20\<close> pages, it takes an element that was not in use and a UAR page that was not in
  use; both pools keep their invariant, and the other queues their data. If the memory that
  \<open>malloc\<close> returned for one word per page happens to hold two, it returns the element, with an
  empty ring of the size asked for on the DMA memory, that UAR page, and upper and lower half
  of every page's physical address, in order, in \<open>pas_list\<close>. In every other case, and so
  always for a queue that is not empty when \<open>malloc\<close> returns just what it is asked for (C20), it
  ends with a write past \<open>pas_list\<close>, with the element and the UAR page taken.
\<close>

theorem alloc_queue_correct:
  fixes m :: "'h machine"
  assumes "pool_inv pr p bs" "p_size p \<noteq> p_max p" "uar_inv ur u us" "p_size u \<noteq> p_max u"
    and "page_entry_count (p_data p) \<noteq> 0" "pc = page_count_of sz (page_entry_count (p_data p))"
    and "alloc_dma_mem E (ucast (4096 * pc)) m = Some (Inr dm, m')" "unat pc \<le> 2 ^ 20"
  shows "\<exists>r e p' u' bs' us' up el. alloc_queue E sz (p, (u, m)) = Some (r, (p', (u', m')))
    \<and> pool_inv pr p' bs' \<and> e \<notin> used_slots p bs \<and> used_slots p' bs' = insert e (used_slots p bs)
    \<and> uar_inv ur u' us' \<and> up \<notin> used_slots u us \<and> used_slots u' us' = insert up (used_slots u us)
    \<and> elem_at p' e = Some el
    \<and> (if 2 * unat pc \<le> length (malloc_words E (unat pc)) then r = Inr e \<and> queue_built E sz pc dm up (e_data el)
       else r = Inl (Undefined ''array index''))
    \<and> p_data p' = p_data p
    \<and> (\<forall>x. x \<in> used_slots p bs \<longrightarrow> map_option e_data (elem_at p' x) = map_option e_data (elem_at p x))"
  by (rule alloc_queue_outcome [OF assms])

lemma alloc_queue_correct_witness:
  "(\<exists>p' u'. alloc_queue bump_platform 4 (queue_pool1, (uar_pool1, bump_machine)) =
      Some (Inl (Undefined ''array index''), (p', (u', bump_machine\<lparr>hw := 0x400000\<rparr>))))
    \<and> (\<exists>e p' u' up el. alloc_queue roomy_platform 4 (queue_pool1, (uar_pool1, bump_machine)) =
      Some (Inr e, (p', (u', bump_machine\<lparr>hw := 0x400000\<rparr>)))
    \<and> elem_at p' e = Some el \<and> up \<notin> used_slots uar_pool1 [0]
    \<and> queue_built roomy_platform 4 1 \<lparr>dm_cap = 1, dm_virt = 0x10200000, dm_phys = 0x200000\<rparr> up (e_data el))"
proof -
  have pc: "1 = page_count_of 4 (page_entry_count (p_data queue_pool1))" by (simp add: page_count_of_def)
  note run = alloc_queue_correct [OF queue_pool1_inv _ uar_pool1_inv uar_pool1_room _ pc,
    of _ bump_machine "\<lparr>dm_cap = 1, dm_virt = 0x10200000, dm_phys = 0x200000\<rparr>" "bump_machine\<lparr>hw := 0x400000\<rparr>"]
  show ?thesis using run [of bump_platform] run [of roomy_platform] by (simp add: bump_dma) blast
qed

text \<open>
  C20: \<open>pas_list\<close> is allocated half as large as it is used. If \<open>malloc\<close> returns exactly the
  words it is asked for, one per page, then every \<open>alloc_queue\<close> that gets that far writes
  past the end of the list.
\<close>

theorem alloc_queue_overruns:
  fixes m :: "'h machine"
  assumes "pool_inv pr p bs" "p_size p \<noteq> p_max p" "uar_inv ur u us" "p_size u \<noteq> p_max u"
    and "page_entry_count (p_data p) \<noteq> 0" "pc = page_count_of sz (page_entry_count (p_data p))"
    and "alloc_dma_mem E (ucast (4096 * pc)) m = Some (Inr dm, m')"
    and "malloc_exact E" "0 < unat pc" "unat pc \<le> 2 ^ 20"
  shows "\<exists>t. alloc_queue E sz (p, (u, m)) = Some (Inl (Undefined ''array index''), t)"
proof -
  have "\<not> 2 * unat pc \<le> length (malloc_words E (unat pc))" using assms(8,9) by (simp add: malloc_exact_def)
  with alloc_queue_outcome [OF assms(1-7,10)] show ?thesis by auto
qed

lemma alloc_queue_overruns_witness:
  "\<exists>t. alloc_queue bump_platform 4 (queue_pool1, (uar_pool1, bump_machine)) = Some (Inl (Undefined ''array index''), t)"
proof -
  have "1 = page_count_of 4 (page_entry_count (p_data queue_pool1))" by (simp add: page_count_of_def)
  from alloc_queue_overruns [OF queue_pool1_inv _ uar_pool1_inv uar_pool1_room _ this,
      of bump_platform bump_machine "\<lparr>dm_cap = 1, dm_virt = 0x10200000, dm_phys = 0x200000\<rparr>" "bump_machine\<lparr>hw := 0x400000\<rparr>"]
  show ?thesis by (simp add: bump_dma malloc_exact_def)
qed

end
