(* ===== verification/Driver_Context.thy ===== *)
theory Driver_Context
  imports Queue_Pool Cmd
begin

text \<open>
  The context all operations on the device share, \<open>MLX5_Context\<close> of \<open>server/src/driver.h\<close>,
  with the queue contexts its pools hold (\<open>event.h\<close>, \<open>cq.h\<close>, \<open>wq.h\<close>), access to its parts, and
  the sequence of calls by which every operation of the driver executes a command.
\<close>

section \<open>Data\<close>

record EQ_CTX =
  eq_irq_num :: u32
  eq_type :: u32

record CQ_CTX =
  cq_eq_number :: u32

record WQC =
  wqc_type :: u32
  wqc_page_offset_and_lwm :: u32
  wqc_pd :: u32
  wqc_uar :: u32
  wqc_dbr :: "u32 \<times> u32"
  wqc_hw_counter :: u32
  wqc_sw_counter :: u32
  wqc_log_wq_sizes :: u32
  wqc_rsvd :: "u32 list"

record WQ_CTX =
  wq_wqc :: WQC

text \<open>The registers of \<open>Init_Seg\<close>, by index: the structure is packed.\<close>

definition init_fw_rev :: nat where "init_fw_rev = 0"
definition init_cmdif_rev_fw_sub :: nat where "init_cmdif_rev_fw_sub = 1"
definition init_cmdq_addr_msb :: nat where "init_cmdq_addr_msb = 4"
definition init_cmdq_addr_lsb_info :: nat where "init_cmdq_addr_lsb_info = 5"
definition init_dbv :: nat where "init_dbv = 6"
definition init_initializing :: nat where "init_initializing = 127"

lemmas init_layout [layout_defs] = init_fw_rev_def init_cmdif_rev_fw_sub_def init_cmdq_addr_msb_def
  init_cmdq_addr_lsb_info_def init_dbv_def init_initializing_def

text \<open>\<open>HCA_CAP\<close> is an empty structure and has no field here.\<close>

record 'h MLX5_Context = "'h CMD_Args" +
  init_seg :: u64
  uar_page_pool :: UAR_Page_Pool
  mem_page_pool :: MEM_Page_Pool
  event_queue_pool :: "EQ_CTX Queue_Obj_Pool"
  compl_queue_pool :: "CQ_CTX Queue_Obj_Pool"
  work_queue_pool :: "WQ_CTX Queue_Obj_Pool"

type_synonym ('h, 'a) driver = "('h MLX5_Context, 'a) prog"

section \<open>Access to the parts\<close>

definition on_mem_pool :: "('h, 'a) mem_prog \<Rightarrow> ('h, 'a) driver" where
  "on_mem_pool m = zoom (\<lambda>c. (mem_page_pool c, mach c)) (\<lambda>(p, x) c. c\<lparr>mem_page_pool := p, mach := x\<rparr>) m"

definition on_event_pool :: "('h, EQ_CTX, 'a) queue_prog \<Rightarrow> ('h, 'a) driver" where
  "on_event_pool m = zoom (\<lambda>c. (event_queue_pool c, (uar_page_pool c, mach c)))
     (\<lambda>(p, (u, x)) c. c\<lparr>event_queue_pool := p, uar_page_pool := u, mach := x\<rparr>) m"

definition on_compl_pool :: "('h, CQ_CTX, 'a) queue_prog \<Rightarrow> ('h, 'a) driver" where
  "on_compl_pool m = zoom (\<lambda>c. (compl_queue_pool c, (uar_page_pool c, mach c)))
     (\<lambda>(p, (u, x)) c. c\<lparr>compl_queue_pool := p, uar_page_pool := u, mach := x\<rparr>) m"

definition on_work_pool :: "('h, WQ_CTX, 'a) queue_prog \<Rightarrow> ('h, 'a) driver" where
  "on_work_pool m = zoom (\<lambda>c. (work_queue_pool c, (uar_page_pool c, mach c)))
     (\<lambda>(p, (u, x)) c. c\<lparr>work_queue_pool := p, uar_page_pool := u, mach := x\<rparr>) m"

text \<open>A local array of \<open>n\<close> words that is not initialised.\<close>

definition stack_array :: "'h platform \<Rightarrow> u32 \<Rightarrow> (('h, 'z) CMD_Args_scheme, u32 list) prog" where
  "stack_array E n = gets (\<lambda>c. words_at (stack_junk E (mach c)) (unat n))"

text \<open>A result of arithmetic in the 32-bit type \<open>int\<close>, which must not overflow.\<close>

definition int32 :: "int \<Rightarrow> ('s, int) prog" where
  "int32 x = (if - (2 ^ 31) \<le> x \<and> x < 2 ^ 31 then ret x else throw (Undefined ''signed overflow''))"

section \<open>Executing a command\<close>

text \<open>
  The three calls every command is executed with: \<open>slot = create_cqe(...)\<close>,
  \<open>ring_doorbell(ctx.dbv, &slot, 1)\<close>, \<open>validate_cqe(ctx.cq, &slot, 1)\<close>. A null payload is the
  empty list.
\<close>

definition execute :: "'h platform \<Rightarrow> OPCODE \<Rightarrow> u32 \<Rightarrow> u32 list \<Rightarrow> u32 \<Rightarrow> u32 \<Rightarrow> (('h, 'z) CMD_Args_scheme, u32) prog" where
  "execute E opc op_mod payload payload_length output_length =
     bnd (create_cqe opc op_mod payload payload_length output_length) (\<lambda>slot.
     bnd (gets dbv) (\<lambda>db.
     andthen (on_mach (ring_doorbell db [slot] 1))
    (bnd (gets cq) (\<lambda>q.
     andthen (on_mach (validate_cqe E q [slot] 1))
             (ret slot)))))"

end
