(* ===== verification/Driver_Init.thy ===== *)
theory Driver_Init
  imports Driver_Context
begin

text \<open>
  \<open>server/src/driver.cc\<close> without the event queues: waiting for the device, the commands that
  configure it, the memory pages lent to it and taken back, UARs and protection domains,
  and \<open>init_hca\<close>, which composes them. Output to the console is left out.
\<close>

abbreviation (input) INIT_TIMEOUT_MS :: nat where "INIT_TIMEOUT_MS \<equiv> 5000"
abbreviation (input) IMB_MAX_PAGE_PAYLOAD :: u32 where "IMB_MAX_PAGE_PAYLOAD \<equiv> 2 + IMB_MAX_DATA"
abbreviation (input) MBB_MAX_COUNT :: int where "MBB_MAX_COUNT \<equiv> 50"
abbreviation (input) QUERY_HCA_CAP_OUTPUT_LENGTH :: u32 where "QUERY_HCA_CAP_OUTPUT_LENGTH \<equiv> 406"
abbreviation (input) QUERY_PAGES_OUTPUT_LENGTH :: u32 where "QUERY_PAGES_OUTPUT_LENGTH \<equiv> 2"
abbreviation (input) SET_HCA_CAP_OUTPUT_LENGTH :: u32 where "SET_HCA_CAP_OUTPUT_LENGTH \<equiv> 2"
abbreviation (input) QUERY_ISSI_OUTPUT_LENGTH :: u32 where "QUERY_ISSI_OUTPUT_LENGTH \<equiv> 26"

section \<open>Waiting for the device\<close>

definition init_wait :: "'h platform \<Rightarrow> u64 \<Rightarrow> ('h machine, unit) prog" where
  "init_wait E initializing =
     bnd (gets clock) (\<lambda>start.
     loop (\<lambda>_.
       bnd (gets (\<lambda>m. ucast (drop_bit 31 (ioread32be initializing m)) :: u8)) (\<lambda>init.
       if init = 0 then ret (Inl ())
       else bnd (gets clock) (\<lambda>now.
            if now - start \<ge> INIT_TIMEOUT_MS then throw (Runtime_error ''Init Timeout'')
            else andthen (modify (elapse E 20)) (ret (Inr ()))))) ())"

section \<open>Interface version\<close>

text \<open>The C library's \<open>ffs\<close>: the number of the lowest bit set, counted from 1, or 0.\<close>

definition ffs :: "u32 \<Rightarrow> u32" where
  "ffs w = (case find (bit w) [0..<32] of None \<Rightarrow> 0 | Some k \<Rightarrow> of_nat k + 1)"

text \<open>
  The loop \<open>for (i = end; i >= start; i--)\<close>, which leaves at the first word with a bit set:
  \<open>count\<close> words without one, and the \<open>pos\<close> found in the last word looked at.
\<close>

fun scan_issi :: "u32 list \<Rightarrow> nat list \<Rightarrow> u32 \<Rightarrow> u32 \<Rightarrow> u32 \<times> u32" where
  "scan_issi ws [] pos count = (pos, count)"
| "scan_issi ws (i # is) pos count = (let pos = ffs (ws ! i) in
     if pos \<noteq> 0 then (pos, count) else scan_issi ws is pos (count + 1))"

definition issi_of :: "u32 list \<Rightarrow> u32" where
  "issi_of ws = (let (pos, count) = scan_issi ws (rev [6..<26]) 0 0 in count * 32 + pos)"

definition get_issi_support :: "'h platform \<Rightarrow> u32 \<Rightarrow> (('h, 'z) CMD_Args_scheme, u32) prog" where
  "get_issi_support E slot =
     bnd (stack_array E QUERY_ISSI_OUTPUT_LENGTH) (\<lambda>issi_out.
     bnd (get_cmd_output slot issi_out QUERY_ISSI_OUTPUT_LENGTH) (\<lambda>issi_out.
     ret (issi_of issi_out)))"

definition configure_issi :: "'h platform \<Rightarrow> (('h, 'z) CMD_Args_scheme, u32) prog" where
  "configure_issi E =
     bnd (execute E QUERY_ISSI 0 [] 0 QUERY_ISSI_OUTPUT_LENGTH) (\<lambda>slot.
     bnd (get_issi_support E slot) (\<lambda>issi.
     if issi \<noteq> 0
     then bnd (execute E SET_ISSI 0 [1] 1 0) (\<lambda>_. ret 1)
     else throw (Runtime_error ''ISSI version 1 not supported by Hardware'')))"

section \<open>Capabilities and version\<close>

text \<open>The changes to the capabilities read from the device.\<close>

definition edit_hca_cap :: "u32 list \<Rightarrow> u32 list" where
  "edit_hca_cap hca_cap =
     (let cache_line_128byte = drop_bit 27 (hca_cap ! 13) AND 1;
          hca_cap = (if cache_line_128byte \<noteq> 0 then hca_cap[13 := push_bit 27 1] else hca_cap);
          cmdif_checksum = drop_bit 14 (hca_cap ! 18) AND 3;
          hca_cap = (if cmdif_checksum \<ge> 1 then hca_cap[18 := push_bit 14 1] else hca_cap);
          log_max_sq = drop_bit 16 (hca_cap ! 29) AND 0x1f
      in if log_max_sq \<noteq> 0 then hca_cap[29 := push_bit 16 log_max_sq] else hca_cap)"

definition configure_hca_cap :: "'h platform \<Rightarrow> (('h, 'z) CMD_Args_scheme, bool) prog" where
  "configure_hca_cap E =
     bnd (execute E QUERY_HCA_CAP 0 [0] 1 QUERY_HCA_CAP_OUTPUT_LENGTH) (\<lambda>slot.
     bnd (stack_array E QUERY_HCA_CAP_OUTPUT_LENGTH) (\<lambda>hca_cap.
     bnd (get_cmd_output slot hca_cap QUERY_HCA_CAP_OUTPUT_LENGTH) (\<lambda>hca_cap.
     let hca_cap = edit_hca_cap hca_cap; driver_version = drop_bit 30 (hca_cap ! 21) AND 1 in
     bnd (execute E SET_HCA_CAP 0 hca_cap QUERY_HCA_CAP_OUTPUT_LENGTH SET_HCA_CAP_OUTPUT_LENGTH) (\<lambda>_.
     ret (driver_version \<noteq> 0)))))"

text \<open>\<open>memcpy\<close> to an array of words from the word \<open>i\<close> on: bytes in memory order.\<close>

primrec words_of_bytes :: "nat \<Rightarrow> u8 list \<Rightarrow> u32 list" where
  "words_of_bytes 0 bs = []"
| "words_of_bytes (Suc n) bs = of_bytes (take 4 bs) # words_of_bytes n (drop 4 bs)"

definition copy_bytes :: "u32 list \<Rightarrow> nat \<Rightarrow> u8 list \<Rightarrow> u32 list" where
  "copy_bytes ws i bs = (let mem = concat (map bytes_of ws) in
     words_of_bytes (length ws) (take (4 * i) mem @ bs @ drop (4 * i + length bs) mem))"

text \<open>\<open>char version[24]\<close>, of which 23 bytes are copied: the text and its terminating zero.\<close>

definition version_bytes :: "u8 list" where
  "version_bytes = map of_char ''l4re,mlx5,1.000.000000'' @ [0]"

definition set_driver_version :: "'h platform \<Rightarrow> (('h, 'z) CMD_Args_scheme, unit) prog" where
  "set_driver_version E =
     bnd (stack_array E 18) (\<lambda>driver.
     bnd (execute E SET_DRIVER_VERSION 0 (copy_bytes driver 2 version_bytes) 18 0) (\<lambda>_. ret ()))"

section \<open>Memory pages\<close>

text \<open>One page of the list a \<open>MANAGE_PAGES\<close> command hands over: \<open>buf\<close> is \<open>page_payload\<close>.\<close>

definition provide_page :: "'h platform \<Rightarrow> nat \<Rightarrow> u32 list \<Rightarrow> ('h, u32 list) driver" where
  "provide_page E j buf =
     bnd (on_mem_pool (mem_alloc_page E)) (\<lambda>mp.
     bnd (on_mem_pool (on_pool (get_element mp))) (\<lambda>el.
     let phys = me_phys (e_data el); k = of_nat j * 2 :: u32 in
     bnd (write_word buf (unat (2 + k)) (ucast (drop_bit 32 phys))) (\<lambda>buf.
     write_word buf (unat (2 + k + 1)) (ucast phys))))"

text \<open>One round of the outer loop: the \<open>i\<close>-th of \<open>cmd_count\<close> commands.\<close>

definition provide_round :: "'h platform \<Rightarrow> u32 \<Rightarrow> u32 \<Rightarrow> nat \<Rightarrow> u32 list \<Rightarrow> ('h, u32 list) driver" where
  "provide_round E cmd_count remainder i buf =
     (let payload_page_count = (if of_nat i = cmd_count - 1
            then if remainder \<noteq> 0 then remainder div 2 else IMB_MAX_DATA div 2
            else IMB_MAX_DATA div 2);
          payload_length = 2 + payload_page_count * 2 in
     bnd (write_word buf 0 0) (\<lambda>buf.
     bnd (write_word buf 1 payload_page_count) (\<lambda>buf.
     bnd (fold_m (provide_page E) [0..<unat payload_page_count] buf) (\<lambda>buf.
     bnd (execute E MANAGE_PAGES 1 buf payload_length 2) (\<lambda>_. ret buf)))))"

definition provide_pages :: "'h platform \<Rightarrow> u32 \<Rightarrow> ('h, unit) driver" where
  "provide_pages E page_count =
     (let remainder = (page_count * 2) mod IMB_MAX_DATA;
          cmd_count = (page_count * 2) div IMB_MAX_DATA + (if remainder \<noteq> 0 then 1 else 0) in
     bnd (stack_array E IMB_MAX_PAGE_PAYLOAD) (\<lambda>page_payload.
     bnd (fold_m (provide_round E cmd_count remainder) [0..<unat cmd_count] page_payload) (\<lambda>_.
     ret ())))"

text \<open>The \<open>l4_int32_t\<close> of the code is a word here, read with \<open>sint\<close> where its sign matters.\<close>

definition get_number_of_pages :: "'h platform \<Rightarrow> u32 \<Rightarrow> (('h, 'z) CMD_Args_scheme, u32) prog" where
  "get_number_of_pages E slot =
     bnd (stack_array E QUERY_ISSI_OUTPUT_LENGTH) (\<lambda>pages_out.
     bnd (get_cmd_output slot pages_out QUERY_PAGES_OUTPUT_LENGTH) (\<lambda>pages_out.
     ret (pages_out ! 1)))"

definition provide_boot_pages :: "'h platform \<Rightarrow> ('h, u32) driver" where
  "provide_boot_pages E =
     bnd (execute E QUERY_PAGES 1 [] 0 QUERY_PAGES_OUTPUT_LENGTH) (\<lambda>slot.
     bnd (get_number_of_pages E slot) (\<lambda>boot_page_count.
     if sint boot_page_count < 0 then throw Terminate
     else andthen (provide_pages E boot_page_count) (ret boot_page_count)))"

definition provide_init_pages :: "'h platform \<Rightarrow> ('h, u32) driver" where
  "provide_init_pages E =
     bnd (execute E QUERY_PAGES 2 [] 0 QUERY_PAGES_OUTPUT_LENGTH) (\<lambda>slot.
     bnd (get_number_of_pages E slot) (\<lambda>init_page_count.
     if sint init_page_count < 0 then throw Terminate
     else andthen (provide_pages E init_page_count) (ret init_page_count)))"

text \<open>One page given back: its address is the \<open>i\<close>-th of the output.\<close>

definition reclaim_page :: "'h platform \<Rightarrow> u32 list \<Rightarrow> nat \<Rightarrow> ('h, unit) driver" where
  "reclaim_page E output i =
     bnd (read_word output (2 + i * 2)) (\<lambda>hi.
     bnd (read_word output (2 + i * 2 + 1)) (\<lambda>lo.
     on_mem_pool (mem_free_page E (push_bit 32 (ucast hi) OR ucast lo))))"

definition reclaim_pages :: "'h platform \<Rightarrow> int \<Rightarrow> ('h, int) driver" where
  "reclaim_pages E page_count =
     bnd (int32 (page_count * 2)) (\<lambda>words.
     bnd (int32 (2 + words)) (\<lambda>words.
     let output_length = word_of_int words :: u32 in
     bnd (stack_array E (OMB_MAX_DATA + 2)) (\<lambda>output.
     bnd (execute E MANAGE_PAGES 2 [0, word_of_int page_count] 2 output_length) (\<lambda>slot.
     bnd (gets (\<lambda>c. sint (ioread32be (reg (cqe_at (cq c) slot) (cod_output 0)) (mach c)))) (\<lambda>reclaim_page_count.
     bnd (get_cmd_output slot output output_length) (\<lambda>output.
     andthen (for_each (reclaim_page E output) [0..<nat reclaim_page_count])
             (ret reclaim_page_count)))))))"

definition reclaim_all_pages :: "'h platform \<Rightarrow> ('h, int) driver" where
  "reclaim_all_pages E =
     loop (\<lambda>result.
       bnd (reclaim_pages E (64 * MBB_MAX_COUNT)) (\<lambda>reclaim_page_count.
       bnd (int32 (result + reclaim_page_count)) (\<lambda>result.
       ret (if reclaim_page_count = 0 then Inl result else Inr result)))) 0"

section \<open>UARs and protection domains\<close>

definition alloc_uar :: "'h platform \<Rightarrow> u64 \<Rightarrow> ('h, unit) driver" where
  "alloc_uar E bar0 =
     bnd (stack_array E 2) (\<lambda>output.
     bnd (execute E ALLOC_UAR 0 [] 0 2) (\<lambda>slot.
     bnd (get_cmd_output slot output 2) (\<lambda>output.
     let index = output ! 0; addr = bar0 + ucast (4096 * index :: u32) in
     modify (\<lambda>c. c\<lparr>uar_page_pool := (uar_page_pool c)\<lparr>p_max := 1024, p_size := 0, p_block_size := 64,
       p_block_count := 0, p_data := \<lparr>u_index = index, u_addr = addr\<rparr>, p_start := None\<rparr>\<rparr>))))"

definition dealloc_uar :: "'h platform \<Rightarrow> ('h, unit) driver" where
  "dealloc_uar E =
     bnd (gets (\<lambda>c. u_index (p_data (uar_page_pool c)))) (\<lambda>uar_index.
     bnd (execute E DEALLOC_UAR 0 [uar_index, 0] 2 0) (\<lambda>_. ret ()))"

definition alloc_pd :: "'h platform \<Rightarrow> (('h, 'z) CMD_Args_scheme, u32) prog" where
  "alloc_pd E =
     bnd (stack_array E 2) (\<lambda>output.
     bnd (execute E ALLOC_PD 0 [] 0 2) (\<lambda>slot.
     bnd (get_cmd_output slot output 2) (\<lambda>output.
     ret (output ! 0))))"

definition dealloc_pd :: "'h platform \<Rightarrow> u32 \<Rightarrow> (('h, 'z) CMD_Args_scheme, unit) prog" where
  "dealloc_pd E pd = bnd (execute E DEALLOC_PD 0 [pd, 0] 2 0) (\<lambda>_. ret ())"

section \<open>Initialisation\<close>

text \<open>A queue pool as \<open>init_queue_obj_pool\<close> sets it up; index and \<open>end\<close> are not touched.\<close>

definition init_queue_pool :: "u32 \<Rightarrow> 'c Queue_Obj_Pool \<Rightarrow> 'c Queue_Obj_Pool" where
  "init_queue_pool entries p = p\<lparr>p_max := 1024, p_size := 0, p_block_size := 64, p_block_count := 0,
     p_data := (p_data p)\<lparr>page_entry_count := entries\<rparr>, p_start := None\<rparr>"

definition init_queue_obj_pool :: "('h, unit) driver" where
  "init_queue_obj_pool = modify (\<lambda>c. c\<lparr>
     event_queue_pool := init_queue_pool 64 (event_queue_pool c),
     compl_queue_pool := init_queue_pool 64 (compl_queue_pool c),
     work_queue_pool := init_queue_pool 1 (work_queue_pool c)\<rparr>)"

text \<open>The checks of the command queue's dimensions, which end in \<open>throw;\<close>.\<close>

definition check_cmdq :: "u32 \<Rightarrow> ('s, unit) prog" where
  "check_cmdq info = (let log_size = unat (drop_bit 4 info AND 0xf); log_stride = unat (info AND 0xf) in
     if (2 :: nat) ^ log_size > 32 then throw Terminate
     else if log_size + log_stride > 12 then throw Terminate
     else ret ())"

definition init_hca :: "'h platform \<Rightarrow> ('h, unit) driver" where
  "init_hca E =
     bnd (gets init_seg) (\<lambda>seg.
     andthen (on_mach (init_wait E (reg seg init_initializing)))
    (bnd (gets (\<lambda>c. ioread32be (reg seg init_cmdq_addr_lsb_info) (mach c) AND 0xff)) (\<lambda>info.
     andthen (check_cmdq info)
    (bnd (gets (\<lambda>c. dm_phys (q_dma_mem (cq c)))) (\<lambda>addr.
     andthen (on_mach (modify (iowrite32be (reg seg init_cmdq_addr_msb) (ucast (drop_bit 32 addr)))))
    (andthen (on_mach (modify (iowrite32be (reg seg init_cmdq_addr_lsb_info) (ucast addr))))
    (andthen (on_mach (init_wait E (reg seg init_initializing)))
    (bnd (execute E ENABLE_HCA 0 [] 0 0) (\<lambda>_.
     bnd (configure_issi E) (\<lambda>_.
     bnd (provide_boot_pages E) (\<lambda>_.
     bnd (configure_hca_cap E) (\<lambda>set_driver.
     bnd (provide_init_pages E) (\<lambda>_.
     bnd (execute E INIT_HCA 0 [] 0 0) (\<lambda>_.
     andthen (if set_driver then set_driver_version E else ret ())
    (andthen (alloc_uar E seg)
             init_queue_obj_pool)))))))))))))))"

end
