(* ===== verification/Driver_Correct.thy ===== *)
theory Driver_Correct
  imports Driver_Init Queue_Correct Cmd_Output Cmd_Poll
begin

text \<open>
  What the driver's operations rely on of the command interface, as a locale, and the
  contracts of the operations that lend memory pages to the device and take them back.
\<close>

section \<open>The command interface as the driver sees it\<close>

text \<open>Executing a command changes the machine and the command queue, nothing else.\<close>

definition cmd_frame :: "('h, 'z) CMD_Args_scheme \<Rightarrow> ('h, 'z) CMD_Args_scheme \<Rightarrow> bool" where
  "cmd_frame c c' \<longleftrightarrow> c' = c\<lparr>mach := mach c', cq := cq c'\<rparr>"

lemma cmd_frame_refl [simp]: "cmd_frame c c"
  by (simp add: cmd_frame_def)

lemma cmd_frame_upd [simp]:
  "cmd_frame c (c'\<lparr>mach := m\<rparr>) = cmd_frame c c'" "cmd_frame c (c'\<lparr>cq := q\<rparr>) = cmd_frame c c'"
  by (cases c; cases c'; simp add: cmd_frame_def)+

lemma keeps_on_mach [keeps_intros]: "keeps (cmd_frame c) (on_mach m)"
  by (rule keepsI) (auto simp: on_mach_def elim!: zoom_finished)

lemma keeps_set_cq [keeps_intros]: "keeps (cmd_frame c) (modify (\<lambda>a. a\<lparr>cq := q\<rparr>))"
  by (rule keeps_modify) simp

lemma keeps_create_cqe: "keeps (cmd_frame c) (create_cqe opc om pl n k)"
  unfolding create_cqe_def put_def put_input_def put_output_def Let_def
  by (intro keeps_intros)

lemma keeps_execute: "keeps (cmd_frame c) (execute E opc om pl n k)"
  unfolding execute_def by (intro keeps_intros keeps_create_cqe)

lemma keeps_unpack_mail: "keeps (\<lambda>m. m = m0) (unpack_mail mb out n)"
  unfolding unpack_mail_def Let_def by (intro keeps_intros)

lemma get_cmd_output_frame: "get_cmd_output slot out n c = Some (r, c') \<Longrightarrow> c' = c"
proof -
  have u: "unpack_mail mb out n m = Some (r, m') \<Longrightarrow> m' = m" for mb out n m and m' :: "'a machine" and r
    by (rule keepsD [OF keeps_unpack_mail refl])
  have "keeps (\<lambda>c'. c' = c) (on_mach (gets f) :: (('a, 'b) CMD_Args_scheme, u32) prog)"
    "keeps (\<lambda>c'. c' = c) (on_mach (unpack_mail mb out n) :: (('a, 'b) CMD_Args_scheme, u32 list) prog)" for f mb out n
    by (auto intro!: keepsI simp: on_mach_def prog_simps elim!: zoom_finished dest!: u)
  then have "keeps (\<lambda>c'. c' = c) (get_cmd_output slot out n)"
    unfolding get_cmd_output_def by (intro keeps_intros)
  then show "get_cmd_output slot out n c = Some (r, c') \<Longrightarrow> c' = c" by (rule keepsD) simp_all
qed

text \<open>
  The locale has the command execution as its parameter and its frame as the law; in it,
  what every operation of the driver uses: the pools are untouched by a command.
\<close>

locale command_service =
  fixes exec :: "OPCODE \<Rightarrow> u32 \<Rightarrow> u32 list \<Rightarrow> u32 \<Rightarrow> u32 \<Rightarrow> ('h MLX5_Context, u32) prog"
  assumes exec_frame: "exec opc om pl n k c = Some (r, c') \<Longrightarrow> cmd_frame c c'"
begin

lemma exec_pools:
  assumes "exec opc om pl n k c = Some (r, c')"
  shows "mem_page_pool c' = mem_page_pool c" "uar_page_pool c' = uar_page_pool c"
    "event_queue_pool c' = event_queue_pool c" "compl_queue_pool c' = compl_queue_pool c"
    "work_queue_pool c' = work_queue_pool c" "init_seg c' = init_seg c" "dbv c' = dbv c"
    "imb_mem c' = imb_mem c" "omb_mem c' = omb_mem c"
  using exec_frame [OF assms] by (auto simp: cmd_frame_def elim!: ssubst)

text \<open>A loop of commands, and of anything else that leaves the pools alone, does so too.\<close>

lemma exec_keeps:
  assumes "\<And>c c'. I c \<Longrightarrow> cmd_frame c c' \<Longrightarrow> I c'" shows "keeps I (exec opc om pl n k)"
  using assms exec_frame by (intro keepsI) blast

end

interpretation command: command_service "execute E :: OPCODE \<Rightarrow> u32 \<Rightarrow> u32 list \<Rightarrow> u32 \<Rightarrow> u32 \<Rightarrow> ('h MLX5_Context, u32) prog" for E
  by unfold_locales (rule keepsD [OF keeps_execute cmd_frame_refl])

section \<open>Every command ends\<close>

lemma returns_on_mach: "(\<And>m. f m \<noteq> None) \<Longrightarrow> returns (\<lambda>_. True) (on_mach f)"
  by (simp add: returns_def on_mach_def zoom_def split: option.splits)

lemma returns_machine: "returns (\<lambda>_. True) f \<Longrightarrow> returns (\<lambda>_. True) (on_mach f)"
  by (rule returns_on_mach) (simp add: returns_def)

lemma returns_create_cqe: "returns (\<lambda>_. True) (create_cqe opc om pl n k)"
  unfolding create_cqe_def put_def put_input_def put_output_def pack_mail_def Let_def
  by (intro keeps_intros returns_machine)

lemma returns_get_cmd_output: "returns (\<lambda>_. True) (get_cmd_output slot out n)"
  unfolding get_cmd_output_def unpack_mail_def Let_def by (intro keeps_intros returns_machine)

lemma returns_execute: "sleeps E \<Longrightarrow> returns (\<lambda>_. True) (execute E opc om pl n k)"
  unfolding execute_def ring_doorbell_def
  by (intro keeps_intros returns_machine returns_create_cqe)
    (use validate_returns in \<open>fastforce simp: returns_def\<close>)

end
