(* ===== verification/Driver_Device.thy ===== *)
theory Driver_Device
  imports Driver_Correct
begin

text \<open>
  Driver and device together: a device that completes the command it reads from the entry
  makes \<open>execute\<close> succeed, and what the operations of the driver then return.
\<close>

section \<open>Short commands\<close>

text \<open>A command of at most two input words is read from the entry's registers alone.\<close>

lemma read_command_cong:
  assumes "\<And>r. r < 16 \<Longrightarrow> ioread32be (reg cqe r) m' = ioread32be (reg cqe r) m"
    and "unat (ioread32be (reg cqe cqe_input_length) m) div 4 - 2 \<le> 2"
  shows "read_command tr m' cqe = read_command tr m cqe"
proof -
  have "ioread32be (reg cqe (cid_data i)) m' = ioread32be (reg cqe (cid_data i)) m" if "i < 2" for i
    using that by (intro assms(1)) (simp add: cqe_layout)
  then have "read_input tr m' cqe n = read_input tr m cqe n" if "n \<le> 2" for n
    using that by (simp add: read_input_def Let_def)
  then show ?thesis
    using assms by (simp add: read_command_def cqe_layout del: reg_0)
qed

section \<open>Completion\<close>

text \<open>The machine at the doorbell: the entry written, the doorbell rung for its slot.\<close>

definition issued :: "OPCODE \<Rightarrow> u32 \<Rightarrow> u32 list \<Rightarrow> u32 \<Rightarrow> u32 \<Rightarrow> ('h, 'z) CMD_Args_scheme \<Rightarrow> 'h machine" where
  "issued opc om pl n k a = iowrite32be (dbv a) (push_bit (unat (q_head (cq a))) 1)
     (cqe_written (cqe_at (cq a) (q_head (cq a))) (imb_mem a) (omb_mem a) opc om pl (unat n) (unat k) (mach a))"

lemma poll_once:
  assumes "hw_owned cqe m" "\<not> hw_owned cqe (elapse E 20 m)"
  shows "poll_ownership E cqe m = Some (Inr (), elapse E 20 m)"
proof -
  have "poll_round E cqe (clock m) () m = Some (Inr (Inr ()), elapse E 20 m)"
    using assms(1) by (simp add: poll_round_run)
  moreover have "loop (poll_round E cqe (clock m)) () (elapse E 20 m) = Some (Inr (), elapse E 20 m)"
    using assms(2) by (intro loop_leave) (simp add: poll_round_run)
  ultimately show ?thesis unfolding poll_ownership_run by (metis loop_again)
qed

text \<open>The register of the doorbell is not one of the entry's.\<close>

definition doorbell_apart :: "('h, 'z) CMD_Args_scheme \<Rightarrow> bool" where
  "doorbell_apart a \<longleftrightarrow> apart (cqe_at (cq a) (q_head (cq a))) 16 (dbv a) 1"

lemma issued_entry:
  assumes "doorbell_apart a" "r < 16"
  shows "ioread32be (reg (cqe_at (cq a) (q_head (cq a))) r) (issued opc om pl n k a) =
    ioread32be (reg (cqe_at (cq a) (q_head (cq a))) r)
      (cqe_written (cqe_at (cq a) (q_head (cq a))) (imb_mem a) (omb_mem a) opc om pl (unat n) (unat k) (mach a))"
  using apart_regs [OF assms(1) [unfolded doorbell_apart_def] assms(2), of 0]
  by (simp add: issued_def be.rd_wr_other)

lemma execute_run:
  assumes pl: "unat n \<le> length pl" "unat n \<le> 2 ^ 26" "unat k \<le> 2 ^ 26" and slot: "unat (q_head (cq a)) < 32"
    and lay: "cmd_layout (cqe_at (cq a) (q_head (cq a))) (imb_mem a) (omb_mem a) (unat n) (unat k)"
    and db: "doorbell_apart a"
    and dev: "completed (cqe_at (cq a) (q_head (cq a))) (elapse E 20 (issued opc om pl n k a))"
  shows "execute E opc om pl n k a = Some (Inr (q_head (cq a)),
    a\<lparr>mach := elapse E 20 (issued opc om pl n k a), cq := snd (enqueue (cq a))\<rparr>)"
proof -
  let ?cqe = "cqe_at (cq a) (q_head (cq a))"
  have "hw_owned ?cqe (issued opc om pl n k a)"
    using cqe_written_read [OF _ pl(2,3) lay, of 15 opc om pl "mach a"] issued_entry [OF db, of 15 opc om pl n k]
    by (simp add: hw_owned_def cqe_layout)
  moreover have "\<not> hw_owned ?cqe (elapse E 20 (issued opc om pl n k a))" using dev by (simp add: completed_def)
  ultimately have "poll_ownership E ?cqe (issued opc om pl n k a) = Some (Inr (), elapse E 20 (issued opc om pl n k a))"
    by (rule poll_once)
  moreover have "cqe_at (snd (enqueue (cq a))) (q_head (cq a)) = ?cqe"
    by (simp add: cqe_at_def enqueue_def Let_def)
  ultimately have v: "validate_cqe E (snd (enqueue (cq a))) [q_head (cq a)] 1 (issued opc om pl n k a) =
      Some (Inr (), elapse E 20 (issued opc om pl n k a))"
    using dev by (simp add: validate_cqe_def prog_simps check_cqe_status_run check_cod_status_run completed_def)
  have "ring_doorbell db [q_head (cq a)] 1 m = Some (Inr (), iowrite32be db (push_bit (unat (q_head (cq a))) 1) m)"
    for db and m :: "'a machine"
    using ring_doorbell_run [of 1 "[q_head (cq a)]" db m] slot by simp
  then show ?thesis
    using v by (simp add: execute_def prog_simps create_cqe_run [OF pl] issued_def)
qed

text \<open>What the device reads, for a short command.\<close>

lemma issued_command:
  assumes pl: "unat n \<le> length pl" "unat n \<le> 2" "unat k \<le> 2 ^ 26"
    and lay: "cmd_layout (cqe_at (cq a) (q_head (cq a))) (imb_mem a) (omb_mem a) (unat n) (unat k)"
    and db: "doorbell_apart a"
  shows "read_command (dma_virt (imb_mem a)) (issued opc om pl n k a) (cqe_at (cq a) (q_head (cq a))) =
    Some \<lparr>c_opcode = opc, c_op_mod = ucast om, c_input = take (unat n) pl, c_output_words = unat k\<rparr>"
proof -
  have n: "unat n \<le> 2 ^ 26" using pl(2) by simp
  let ?cqe = "cqe_at (cq a) (q_head (cq a))"
  let ?m = "cqe_written ?cqe (imb_mem a) (omb_mem a) opc om pl (unat n) (unat k) (mach a)"
  have "ioread32be (reg ?cqe cqe_input_length) ?m = of_nat ((unat n + 2) * 4)"
    using cqe_written_read [OF _ n pl(3) lay, of 1 opc om pl "mach a"] by (simp add: cqe_layout)
  then have "unat (ioread32be (reg ?cqe cqe_input_length) ?m) div 4 - 2 \<le> 2"
    using pl(2) unat_length [OF n] by simp
  then have "read_command (dma_virt (imb_mem a)) (issued opc om pl n k a) ?cqe = read_command (dma_virt (imb_mem a)) ?m ?cqe"
    by (intro read_command_cong issued_entry db)
  with read_command_written [OF pl(1) n pl(3) lay, of opc om "mach a"] show ?thesis by simp
qed

text \<open>
  The contract of the device for one command: within the first sleep after it was issued, it
  completes the command, and its output, up to two words, is \<open>ans\<close>.
\<close>

definition serves :: "'h platform \<Rightarrow> (u64 \<Rightarrow> u64) \<Rightarrow> u64 \<Rightarrow> Command \<Rightarrow> u32 list \<Rightarrow> bool" where
  "serves E tr cqe cmd ans \<longleftrightarrow> length ans = 2 \<and> (\<forall>m. read_command tr m cqe = Some cmd \<longrightarrow>
     completed cqe (elapse E 20 m)
     \<and> list_all (\<lambda>i. ioread32be (reg cqe (cod_output i)) (elapse E 20 m) = ans ! i) [0..<2])"

lemma query_run:
  assumes pl: "unat n \<le> length pl" "unat n \<le> 2" and slot: "unat (q_head (cq a)) < 32"
    and lay: "cmd_layout (cqe_at (cq a) (q_head (cq a))) (imb_mem a) (omb_mem a) (unat n) 2"
    and db: "doorbell_apart a"
    and dev: "serves E (dma_virt (imb_mem a)) (cqe_at (cq a) (q_head (cq a)))
      \<lparr>c_opcode = opc, c_op_mod = ucast om, c_input = take (unat n) pl, c_output_words = 2\<rparr> ans"
    and out: "2 \<le> length out"
  shows "bnd (execute E opc om pl n 2) (\<lambda>slot. get_cmd_output slot out 2) a = Some (Inr (ans @ drop 2 out),
    a\<lparr>mach := elapse E 20 (issued opc om pl n 2 a), cq := snd (enqueue (cq a))\<rparr>)"
proof -
  let ?cqe = "cqe_at (cq a) (q_head (cq a))" and ?m = "elapse E 20 (issued opc om pl n 2 a)"
  let ?a = "a\<lparr>mach := ?m, cq := snd (enqueue (cq a))\<rparr>"
  have n: "unat n \<le> 2 ^ 26" "unat (2 :: u32) \<le> 2 ^ 26" using pl(2) by simp_all
  have "read_command (dma_virt (imb_mem a)) (issued opc om pl n 2 a) ?cqe =
      Some \<lparr>c_opcode = opc, c_op_mod = ucast om, c_input = take (unat n) pl, c_output_words = 2\<rparr>"
    using issued_command [OF pl n(2) _ db, of opc om] lay by simp
  with dev have d: "completed ?cqe ?m" "length ans = 2"
    "list_all (\<lambda>i. ioread32be (reg ?cqe (cod_output i)) ?m = ans ! i) [0..<2]" by (auto simp: serves_def)
  have e: "execute E opc om pl n 2 a = Some (Inr (q_head (cq a)), ?a)"
    using execute_run [OF pl(1) n slot _ db d(1)] lay by simp
  have at: "cqe_at (cq ?a) (q_head (cq a)) = ?cqe" by (simp add: cqe_at_def enqueue_def Let_def)
  have "map (output_word ?cqe (omb_mem a) ?m) [0..<2] = ans"
    using d(2,3) by (intro nth_equalityI) (auto simp: output_word_def list_all_iff less_2_cases_iff)
  then have "get_cmd_output (q_head (cq a)) out 2 ?a = Some (Inr (ans @ drop 2 out), ?a)"
    using get_cmd_output_run [of 2 out "q_head (cq a)" ?a] out at by simp
  with e show ?thesis by (simp add: bnd_def)
qed

section \<open>Protection domains\<close>

lemma alloc_pd_run:
  assumes "unat (q_head (cq a)) < 32" "cmd_layout (cqe_at (cq a) (q_head (cq a))) (imb_mem a) (omb_mem a) 0 2" "doorbell_apart a"
    and "serves E (dma_virt (imb_mem a)) (cqe_at (cq a) (q_head (cq a)))
      \<lparr>c_opcode = ALLOC_PD, c_op_mod = 0, c_input = [], c_output_words = 2\<rparr> ans"
  shows "\<exists>m. alloc_pd E a = Some (Inr (ans ! 0), a\<lparr>mach := m, cq := snd (enqueue (cq a))\<rparr>)"
proof -
  have "0 < length ans" using assms(4) by (simp add: serves_def)
  then show ?thesis
    using query_run [of 0 "[]" a E ALLOC_PD 0 ans "words_at (stack_junk E (mach a)) 2"] assms
    by (auto simp: alloc_pd_def stack_array_def prog_simps bnd_def split: option.splits sum.splits)
qed

text \<open>\<open>alloc_uar\<close>: the base of the UAR pool is the page the device names.\<close>

lemma alloc_uar_run:
  assumes "unat (q_head (cq c)) < 32" "cmd_layout (cqe_at (cq c) (q_head (cq c))) (imb_mem c) (omb_mem c) 0 2" "doorbell_apart c"
    and "serves E (dma_virt (imb_mem c)) (cqe_at (cq c) (q_head (cq c)))
      \<lparr>c_opcode = ALLOC_UAR, c_op_mod = 0, c_input = [], c_output_words = 2\<rparr> ans"
  shows "\<exists>m. alloc_uar E bar0 c = Some (Inr (), c\<lparr>mach := m, cq := snd (enqueue (cq c)),
    uar_page_pool := empty_pool 1024 64 \<lparr>u_index = ans ! 0, u_addr = bar0 + ucast (4096 * ans ! 0 :: u32)\<rparr> (uar_page_pool c)\<rparr>)"
proof -
  have "0 < length ans" using assms(4) by (simp add: serves_def)
  then show ?thesis
    using query_run [of 0 "[]" c E ALLOC_UAR 0 ans "words_at (stack_junk E (mach c)) 2"] assms
    by (auto simp: alloc_uar_def stack_array_def prog_simps bnd_def empty_pool_def Let_def split: option.splits sum.splits)
qed

end
