(* ===== verification/Event.thy ===== *)
theory Event
  imports Driver_Init
begin

text \<open>
  Event queues: \<open>server/src/event.h\<close> and \<open>event.cc\<close>. The driver lends the device a ring of
  64-byte entries, each with an ownership bit, and is told by it, through a page request
  event, how many memory pages the device wants or gives back.
\<close>

section \<open>Layout\<close>

abbreviation (input) EQC_STATUS_MASK :: u32 where "EQC_STATUS_MASK \<equiv> 0xf0000000"
abbreviation (input) EQC_STATE_MASK :: u32 where "EQC_STATE_MASK \<equiv> 0x00000f00"
abbreviation (input) EQC_UAR_MASK :: u32 where "EQC_UAR_MASK \<equiv> 0x00ffffff"
abbreviation (input) EQC_LOG_EQ_SIZE_MASK :: u32 where "EQC_LOG_EQ_SIZE_MASK \<equiv> 0x1f000000"
abbreviation (input) EQC_INTR_MASK :: u32 where "EQC_INTR_MASK \<equiv> 0x000000ff"
abbreviation (input) EQC_OWNERSHIP_MASK :: u32 where "EQC_OWNERSHIP_MASK \<equiv> 0x00000001"
abbreviation (input) EQC_STATUS_OFFSET :: nat where "EQC_STATUS_OFFSET \<equiv> 28"
abbreviation (input) EQC_STATE_OFFSET :: nat where "EQC_STATE_OFFSET \<equiv> 8"
abbreviation (input) EQC_LOG_EQ_SIZE_OFFSET :: nat where "EQC_LOG_EQ_SIZE_OFFSET \<equiv> 24"
abbreviation (input) PAGE_EQE_COUNT :: u32 where "PAGE_EQE_COUNT \<equiv> 64"
abbreviation (input) EQI_SIZE :: u32 where "EQI_SIZE \<equiv> 66"

text \<open>
  An event queue entry (\<open>EQE\<close>) has 16 registers; the input structure \<open>EQI\<close> has 66 words, the
  context \<open>EQC\<close> from word 2 on.
\<close>

definition eqe_data :: "nat \<Rightarrow> nat" where "eqe_data i = 8 + i"
definition eqe_ctrl :: nat where "eqe_ctrl = 15"
definition eqi_status :: nat where "eqi_status = 2"
definition eqi_log_eq_size_and_uar :: nat where "eqi_log_eq_size_and_uar = 5"
definition eqi_intr :: nat where "eqi_intr = 7"
definition eqi_type :: "nat \<Rightarrow> nat" where "eqi_type i = 20 + i"

lemmas event_layout [layout_defs] = eqe_data_def eqe_ctrl_def eqi_status_def
  eqi_log_eq_size_and_uar_def eqi_intr_def eqi_type_def

text \<open>\<open>&((EQE*)eq->data.start)[i]\<close>\<close>

definition eqe_at :: "u64 \<Rightarrow> u64 \<Rightarrow> u64" where
  "eqe_at start i = start + i * 64"

datatype EVENT_TYPE =
    EVENT_TYPE_COMPLETION_EVENT
  | EVENT_TYPE_LAST_WQE_REACHED
  | EVENT_TYPE_CQ_ERROR
  | EVENT_TYPE_INTERNAL_ERROR
  | EVENT_TYPE_PORT_STATE_CHANGE
  | EVENT_TYPE_TEMP_WARNING_EVENT
  | EVENT_TYPE_COMMAND_INTERFACE_COMPLETION
  | EVENT_TYPE_PAGE_REQUEST

fun event_type_word :: "EVENT_TYPE \<Rightarrow> u32" where
  "event_type_word EVENT_TYPE_COMPLETION_EVENT = 0x0"
| "event_type_word EVENT_TYPE_LAST_WQE_REACHED = 0x13"
| "event_type_word EVENT_TYPE_CQ_ERROR = 0x4"
| "event_type_word EVENT_TYPE_INTERNAL_ERROR = 0x8"
| "event_type_word EVENT_TYPE_PORT_STATE_CHANGE = 0x9"
| "event_type_word EVENT_TYPE_TEMP_WARNING_EVENT = 0x17"
| "event_type_word EVENT_TYPE_COMMAND_INTERFACE_COMPLETION = 0xa"
| "event_type_word EVENT_TYPE_PAGE_REQUEST = 0xb"

section \<open>Entries\<close>

text \<open>
  \<open>ctx.event_queue_pool.data.index[eq_number]\<close> and the data of the element it points to.
\<close>

definition event_queue :: "u32 \<Rightarrow> ('h, nat \<times> nat) driver" where
  "event_queue eq_number = bnd (on_event_pool (get_queue eq_number)) deref"

definition event_queue_data :: "u32 \<Rightarrow> ('h, EQ_CTX QOP_ED) driver" where
  "event_queue_data eq_number =
     bnd (event_queue eq_number) (\<lambda>eq.
     bnd (on_event_pool (on_pool (get_element eq))) (\<lambda>el. ret (e_data el)))"

text \<open>The loop that gives the entries to the device, \<open>i < eq->data.size - 1\<close> in 64 bits.\<close>

definition init_eq :: "EQ_CTX QOP_ED \<Rightarrow> ('h machine, unit) prog" where
  "init_eq eq = modify (fold (\<lambda>i. iowrite32be (reg (eqe_at (q_start eq) (of_nat i)) eqe_ctrl) 1)
     [0..<unat (q_size eq - 1)])"

definition eqe_owned_by_hw :: "u32 \<Rightarrow> ('h, bool) driver" where
  "eqe_owned_by_hw eq_number =
     bnd (event_queue_data eq_number) (\<lambda>eq.
     bnd (on_mach (gets (ioread32be (reg (eqe_at (q_start eq) (ucast (q_head eq))) eqe_ctrl)))) (\<lambda>ownership.
     ret (ownership AND EQC_OWNERSHIP_MASK \<noteq> 0)))"

text \<open>The seven words of the entry at the head, which moves on.\<close>

definition read_eqe :: "u32 \<Rightarrow> ('h, u32 list) driver" where
  "read_eqe eq_number =
     bnd (event_queue eq_number) (\<lambda>e.
     bnd (on_event_pool (on_pool (get_element e))) (\<lambda>el.
     let (slot, q) = enqueue (e_data el) in
     andthen (on_event_pool (put_data e (\<lambda>_. q)))
             (gets (\<lambda>c. map (\<lambda>i. ioread32be (reg (eqe_at (q_start q) (ucast slot)) (eqe_data i)) (mach c)) [0..<7]))))"

text \<open>\<open>arm_eq\<close> writes the queue's number to the doorbell register of its UAR page.\<close>

definition arm_eq :: "u32 \<Rightarrow> ('h, unit) driver" where
  "arm_eq eq_number =
     bnd (event_queue_data eq_number) (\<lambda>eq.
     bnd (deref (qo_uarp eq)) (\<lambda>up.
     bnd (on_event_pool (on_env (on_pool (get_element up)))) (\<lambda>u.
     on_mach (modify (iowrite32be (reg (u_addr (e_data u)) uar_eqn_arm_and_update_ci)
       (push_bit UAR_EQN_OFFSET (qo_id eq) AND UAR_EQN_MASK))))))"

section \<open>Creating an event queue\<close>

text \<open>
  \<open>(l4_uint32_t)log2(size)\<close>, for a size whose logarithm is exact enough in \<open>double\<close> (below
  \<open>2 ^ 48\<close>): the place of the highest bit. The conversion of \<open>log2(0)\<close>, minus infinity, is
  undefined.
\<close>

definition log2 :: "u64 \<Rightarrow> ('s, nat) prog" where
  "log2 w = (case find (bit w) (rev [0..<64]) of
     None \<Rightarrow> throw (Undefined ''log2 of zero'')
   | Some k \<Rightarrow> ret k)"

text \<open>\<open>std::bitset<64>\<close> with the bit of the type set; an index beyond it is undefined.\<close>

definition event_mask :: "u32 \<Rightarrow> ('s, u64) prog" where
  "event_mask t = (if t = 0 then ret 0
     else if unat t < 64 then ret (push_bit (unat t) 1)
     else throw (Undefined ''bitset index''))"

text \<open>The input structure; all of its other words are zero.\<close>

definition make_eqi :: "nat \<Rightarrow> u32 \<Rightarrow> u32 \<Rightarrow> u64 \<Rightarrow> u32 list" where
  "make_eqi log_size uar_index irq_num types = (replicate 66 0)
     [eqi_log_eq_size_and_uar := (push_bit EQC_LOG_EQ_SIZE_OFFSET (of_nat log_size) AND EQC_LOG_EQ_SIZE_MASK)
        OR (uar_index AND EQC_UAR_MASK),
      eqi_intr := irq_num AND EQC_INTR_MASK,
      eqi_type 0 := ucast (drop_bit 32 types), eqi_type 1 := ucast types]"

text \<open>The last loop: the first \<open>page_count\<close> words of \<open>pas_list\<close>, after the structure at \<open>base\<close>.\<close>

definition copy_pas :: "u32 list \<Rightarrow> nat \<Rightarrow> u32 \<Rightarrow> u32 list \<Rightarrow> ('s, u32 list) prog" where
  "copy_pas pas base page_count payload =
     fold_m (\<lambda>i payload. bnd (read_word pas i) (\<lambda>w. write_word payload (base + i) w))
       [0..<unat page_count] payload"

definition create_eq :: "'h platform \<Rightarrow> u64 \<Rightarrow> u32 \<Rightarrow> u32 \<Rightarrow> ('h, u32) driver" where
  "create_eq E sz type irq_num =
     bnd (on_event_pool (alloc_queue E sz)) (\<lambda>e.
     andthen (on_event_pool (put_data e (\<lambda>d. d\<lparr>qo_q_ctx := \<lparr>eq_irq_num = irq_num, eq_type = type\<rparr>\<rparr>)))
    (bnd (on_event_pool (on_pool (get_element e))) (\<lambda>el.
     let eq = e_data el in
     bnd (queue_pages (q_size eq) PAGE_EQE_COUNT) (\<lambda>page_count.
     if page_count > (128 - EQI_SIZE) div 2 then throw (Runtime_error ''Event Queue too large!'')
     else
     bnd (log2 (q_size eq)) (\<lambda>log_size.
     bnd (deref (qo_uarp eq)) (\<lambda>up.
     bnd (on_event_pool (on_env (on_pool (get_element up)))) (\<lambda>u.
     bnd (event_mask type) (\<lambda>types.
     let eqi = make_eqi log_size (u_index (e_data u)) irq_num types;
         payload_length = EQI_SIZE + page_count * 2 in
     bnd (stack_array E 128) (\<lambda>payload.
     bnd (copy_pas (qo_pas_list eq) 66 page_count (eqi @ drop 66 payload)) (\<lambda>payload.
     andthen (on_mach (init_eq eq))
    (bnd (execute E CREATE_EQ 0 payload payload_length 2) (\<lambda>slot.
     bnd (stack_array E 2) (\<lambda>output.
     bnd (get_cmd_output slot output 2) (\<lambda>output.
     let eq_number = output ! 0 in
     andthen (on_event_pool (put_data e (\<lambda>d. d\<lparr>qo_id := eq_number\<rparr>)))
    (andthen (on_event_pool (index_queue e))
             (ret eq_number))))))))))))))))"

definition get_eq_state :: "'h platform \<Rightarrow> u32 \<Rightarrow> ('h, u32) driver" where
  "get_eq_state E eq_number =
     bnd (event_queue_data eq_number) (\<lambda>eq.
     bnd (queue_pages (q_size eq) PAGE_EQE_COUNT) (\<lambda>page_count.
     let output_length = EQI_SIZE + page_count * 2 in
     bnd (execute E QUERY_EQ 0 [qo_id eq, 0] 2 output_length) (\<lambda>slot.
     bnd (stack_array E 128) (\<lambda>output.
     bnd (get_cmd_output slot output output_length) (\<lambda>output.
     let status = output ! eqi_status in
     if drop_bit EQC_STATUS_OFFSET (status AND EQC_STATUS_MASK) \<noteq> 0 then throw (Runtime_error ''EQC Error!'')
     else ret (drop_bit EQC_STATE_OFFSET (status AND EQC_STATE_MASK)))))))"

definition destroy_eq :: "'h platform \<Rightarrow> u32 \<Rightarrow> ('h, unit) driver" where
  "destroy_eq E eq_number =
     bnd (event_queue_data eq_number) (\<lambda>eq.
     bnd (execute E DESTROY_EQ 0 [qo_id eq, 0] 2 2) (\<lambda>_. ret ()))"

end
