(* ===== verification/Work_Completion.thy ===== *)
theory Work_Completion
  imports Event
begin

text \<open>
  Completion queues and work queue contexts: \<open>server/src/cq.h\<close>, \<open>cq.cc\<close>, \<open>wq.h\<close> and \<open>wq.cc\<close>.
\<close>

section \<open>Completion queues\<close>

abbreviation (input) CQC_SIZE_MASK :: u32 where "CQC_SIZE_MASK \<equiv> 0x1f000000"
abbreviation (input) CQC_UAR_MASK :: u32 where "CQC_UAR_MASK \<equiv> 0x00ffffff"
abbreviation (input) CQC_SIZE_OFFSET :: nat where "CQC_SIZE_OFFSET \<equiv> 24"
abbreviation (input) PAGE_CQE_COUNT :: u32 where "PAGE_CQE_COUNT \<equiv> 64"
abbreviation (input) CQC_SIZE :: u32 where "CQC_SIZE \<equiv> 16"

text \<open>The 16 words of the context \<open>CQC\<close>, in their order.\<close>

definition make_cqc :: "nat \<Rightarrow> u32 \<Rightarrow> u32 \<Rightarrow> u64 \<Rightarrow> u32 list" where
  "make_cqc log_size uar_index eqn phys =
     [0, 0, 0, (push_bit CQC_SIZE_OFFSET (of_nat log_size) AND CQC_SIZE_MASK) OR (uar_index AND CQC_UAR_MASK),
      0, eqn, 0, 0, 0, 0, 0, 0, 0, 0, ucast (drop_bit 32 phys), ucast phys]"

definition create_cq :: "'h platform \<Rightarrow> u64 \<Rightarrow> ('h, u32) driver" where
  "create_cq E sz =
     bnd (on_mem_pool (mem_alloc_page E)) (\<lambda>mp.
     bnd (on_mem_pool (on_pool (get_element mp))) (\<lambda>page.
     let phys = me_phys (e_data page) in
     bnd (create_eq E 4 (event_type_word EVENT_TYPE_COMPLETION_EVENT) 0) (\<lambda>eq_number.
     bnd (on_compl_pool (alloc_queue E sz)) (\<lambda>e.
     bnd (log2 sz) (\<lambda>log_size.
     bnd (on_compl_pool (on_pool (get_element e))) (\<lambda>el.
     let q = e_data el in
     bnd (deref (qo_uarp q)) (\<lambda>up.
     bnd (on_compl_pool (on_env (on_pool (get_element up)))) (\<lambda>u.
     let cqc = make_cqc log_size (u_index (e_data u)) eq_number phys in
     bnd (queue_pages sz PAGE_CQE_COUNT) (\<lambda>page_count.
     let payload_length = 2 + CQC_SIZE + 24 + page_count * 2 in
     bnd (stack_array E 128) (\<lambda>payload.
     bnd (copy_pas (qo_pas_list q) 42 page_count ([0, 0] @ cqc @ drop 18 payload)) (\<lambda>payload.
     bnd (execute E CREATE_CQ 0 payload payload_length 2) (\<lambda>slot.
     bnd (stack_array E 2) (\<lambda>output.
     bnd (get_cmd_output slot output 2) (\<lambda>output.
     let cq_number = output ! 0 in
     andthen (on_compl_pool (put_data e (\<lambda>d. d\<lparr>qo_id := cq_number\<rparr>)))
    (andthen (on_compl_pool (index_queue e))
             (ret cq_number))))))))))))))))"

section \<open>Work queue contexts\<close>

abbreviation (input) WQE_WQ_SIZE_MASK :: u32 where "WQE_WQ_SIZE_MASK \<equiv> 0x0000001f"

text \<open>\<open>log2\<close> of the size in bytes, a product in 64 bits.\<close>

definition create_wqc :: "'h platform \<Rightarrow> u64 \<Rightarrow> u32 \<Rightarrow> ('h, u32) driver" where
  "create_wqc E sz wq_number =
     bnd (on_work_pool (alloc_queue E sz)) (\<lambda>e.
     andthen (on_work_pool (put_data e (\<lambda>d. d\<lparr>qo_id := wq_number\<rparr>)))
    (andthen (on_work_pool (index_queue e))
    (bnd (on_mem_pool (mem_alloc_page E)) (\<lambda>mp.
     bnd (on_mem_pool (on_pool (get_element mp))) (\<lambda>page.
     let phys = me_phys (e_data page);
         set_wqc = (\<lambda>f. on_work_pool (put_data e (\<lambda>d. d\<lparr>qo_q_ctx := \<lparr>wq_wqc = f (wq_wqc (qo_q_ctx d))\<rparr>\<rparr>))) in
     andthen (set_wqc (\<lambda>w. w\<lparr>wqc_type := 0, wqc_page_offset_and_lwm := 0\<rparr>))
    (bnd (alloc_pd E) (\<lambda>pd.
     andthen (set_wqc (\<lambda>w. w\<lparr>wqc_pd := pd\<rparr>))
    (bnd (on_work_pool (on_pool (get_element e))) (\<lambda>el.
     bnd (deref (qo_uarp (e_data el))) (\<lambda>up.
     bnd (on_work_pool (on_env (on_pool (get_element up)))) (\<lambda>u.
     andthen (set_wqc (\<lambda>w. w\<lparr>wqc_uar := u_index (e_data u),
       wqc_dbr := (ucast (drop_bit 32 phys), ucast phys), wqc_hw_counter := 0, wqc_sw_counter := 0\<rparr>))
    (bnd (log2 (sz * HCA_PAGE_SIZE)) (\<lambda>log_size.
     andthen (set_wqc (\<lambda>w. w\<lparr>wqc_log_wq_sizes := of_nat log_size AND WQE_WQ_SIZE_MASK\<rparr>))
             (ret wq_number))))))))))))))"

definition destroy_wqc :: "'h platform \<Rightarrow> u32 \<Rightarrow> ('h, unit) driver" where
  "destroy_wqc E wq_number =
     bnd (bnd (on_work_pool (get_queue wq_number)) deref) (\<lambda>wq.
     bnd (on_work_pool (on_pool (get_element wq))) (\<lambda>el.
     dealloc_pd E (wqc_pd (wq_wqc (qo_q_ctx (e_data el))))))"

definition setup_work_queue :: "'h platform \<Rightarrow> ('h, unit) driver" where
  "setup_work_queue E = bnd (create_wqc E 2 0) (\<lambda>wq_number. destroy_wqc E wq_number)"

end
