(* ===== verification/Interrupt.thy ===== *)
theory Interrupt
  imports Driver_Context
begin

text \<open>
  MSI-X interrupts: \<open>server/src/interrupt.h\<close> and \<open>interrupt.cc\<close>. The kernel's interrupt
  objects are parameters.
\<close>

section \<open>The services used\<close>

text \<open>\<open>l4_icu_msi_info_t\<close>\<close>

record msi_info =
  msi_addr :: u64
  msi_data :: u32

text \<open>
  The kernel operations on interrupts, with their result, negative on failure. A capability
  is a number. \<open>irq_receive\<close> waits for the interrupt with a timeout; the device runs meanwhile.
\<close>

record 'h irq_services =
  irq_cap_alloc :: "'h machine \<Rightarrow> u64 option \<times> 'h machine"
  irq_create :: "u64 \<Rightarrow> 'h machine \<Rightarrow> int \<times> 'h machine"
  irq_bind_thread :: "u64 \<Rightarrow> u64 \<Rightarrow> 'h machine \<Rightarrow> int \<times> 'h machine"
  icu_bind :: "u64 \<Rightarrow> u32 \<Rightarrow> u64 \<Rightarrow> 'h machine \<Rightarrow> int \<times> 'h machine"
  icu_msi_info :: "u64 \<Rightarrow> u32 \<Rightarrow> u64 \<Rightarrow> 'h machine \<Rightarrow> (int \<times> msi_info) \<times> 'h machine"
  icu_unmask :: "u64 \<Rightarrow> u32 \<Rightarrow> 'h machine \<Rightarrow> int \<times> 'h machine"
  irq_receive :: "u64 \<Rightarrow> 'h machine \<Rightarrow> 'h machine"
  irq_detach :: "u64 \<Rightarrow> 'h machine \<Rightarrow> 'h machine"
  icu_msi_flag :: u32

section \<open>Operations\<close>

text \<open>What the handler thread is told; \<open>opt\<close> is part of the state of the threads.\<close>

record IRQH_Args =
  ia_irq_num :: u32
  ia_msix_vec_l4 :: u32
  ia_icu :: u64
  ia_icu_src :: u64
  ia_msix_table :: u64

definition create_msix_entry :: "u32 \<Rightarrow> u64 \<Rightarrow> msi_info \<Rightarrow> 'h machine \<Rightarrow> 'h machine" where
  "create_msix_entry irq_num msix_table info m =
     (let entry = reg msix_table (unat (irq_num * 4));
          m = iowrite32be entry (ucast (msi_addr info) AND 0xfffffffc) m;
          m = iowrite32be (reg entry 1) (ucast (drop_bit 32 (msi_addr info))) m;
          m = iowrite32be (reg entry 2) (msi_data info) m
      in iowrite32be (reg entry 3) 0 m)"

definition create_and_bind_irq :: "'h irq_services \<Rightarrow> u32 \<Rightarrow> u64 \<Rightarrow> u64 \<Rightarrow> ('h machine, u64) prog" where
  "create_and_bind_irq I irq_num icu thread =
     bnd (pure_op (irq_cap_alloc I)) (\<lambda>c.
     bnd (chkcap ''Failed to allocated IRQ capability.'' c) (\<lambda>irq.
     bnd (pure_op (irq_create I irq)) (\<lambda>r.
     andthen (chksys '''' r)
    (bnd (pure_op (irq_bind_thread I irq thread)) (\<lambda>r.
     andthen (chksys ''Failed to bind IRQ to calling thread.'' r)
    (bnd (pure_op (icu_bind I icu irq_num irq)) (\<lambda>r.
     andthen (chksys ''Binding interrupt to ICU.'' r)
             (ret irq))))))))"

definition create_msix_irq :: "'h irq_services \<Rightarrow> u64 \<Rightarrow> IRQH_Args \<Rightarrow> ('h machine, u64) prog" where
  "create_msix_irq I self args =
     bnd (create_and_bind_irq I (ia_msix_vec_l4 args) (ia_icu args) self) (\<lambda>irq.
     bnd (pure_op (icu_msi_info I (ia_icu args) (ia_msix_vec_l4 args) (ia_icu_src args))) (\<lambda>(r, info).
     andthen (chksys ''Failed to retrieve MSI info.'' r)
    (andthen (modify (create_msix_entry (ia_irq_num args) (ia_msix_table args) info))
    (bnd (pure_op (icu_unmask I (ia_icu args) (ia_msix_vec_l4 args))) (\<lambda>r.
     andthen (chksys ''Failed to unmask interrupt'' r)
             (ret irq))))))"

text \<open>
  The arguments \<open>create_msix_thread\<close> lays out in its own stack frame and passes a pointer to;
  the thread it creates is in \<^theory_text>\<open>Threads\<close>.
\<close>

definition make_irqh_args :: "'h irq_services \<Rightarrow> u64 \<Rightarrow> u64 \<Rightarrow> u32 \<Rightarrow> u64 \<Rightarrow> IRQH_Args" where
  "make_irqh_args I icu_src msix_table irq_num icu =
     \<lparr>ia_irq_num = irq_num, ia_msix_vec_l4 = irq_num OR icu_msi_flag I, ia_icu = icu,
      ia_icu_src = icu_src, ia_msix_table = msix_table\<rparr>"

section \<open>The vector table\<close>

text \<open>An entry gets the message's address, aligned, its data, and an unmasked control word.\<close>

lemma create_msix_entry_read:
  assumes "r < 2 ^ 62"
  shows "ioread32be (reg msix_table r) (create_msix_entry n msix_table info m) =
    (let k = unat (n * 4) in
     if r = k then ucast (msi_addr info) AND 0xfffffffc
     else if r = k + 1 then ucast (drop_bit 32 (msi_addr info))
     else if r = k + 2 then msi_data info
     else if r = k + 3 then 0 else ioread32be (reg msix_table r) m)"
proof -
  have "unat (n * 4) < 2 ^ 32" using unsigned_less [of "n * 4"] by simp
  then have k: "unat (n * 4) + 3 < 2 ^ 62" by simp
  show ?thesis
    using assms k by (simp add: create_msix_entry_def Let_def be.rd_wr reg_inj)
qed

end
