(* ===== verification/Threads.thy ===== *)
theory Threads
  imports Work_Completion Interrupt
begin

text \<open>
  The two threads of the server: the rest of \<open>server/src/driver.cc\<close> (\<open>teardown_hca\<close>,
  \<open>page_request_handler\<close>, \<open>setup_event_queue\<close>) and the end of \<open>main.cc\<close>, which sets up the
  queues, serves, and shuts down. Their steps interleave.
\<close>

section \<open>Teardown\<close>

text \<open>
  One round of the loops over the event queues: \<open>start[i]\<close> for the pointer \<open>start\<close> to a single
  block is that block for \<open>i = 0\<close> and undefined for every other \<open>i\<close>.
\<close>

definition destroy_event_queue_at :: "'h platform \<Rightarrow> nat \<Rightarrow> nat \<Rightarrow> ('h, unit) driver" where
  "destroy_event_queue_at E i j =
     bnd (gets (\<lambda>c. p_start (event_queue_pool c))) (\<lambda>start.
     bnd (deref (map_option (\<lambda>b. (b, j)) start)) (\<lambda>e.
     if i \<noteq> 0 then throw (Undefined ''array index'')
     else bnd (on_event_pool (on_pool (get_element e))) (\<lambda>el.
          if e_used el then destroy_eq E (qo_id (e_data el)) else ret ())))"

definition destroy_event_queues :: "'h platform \<Rightarrow> ('h, unit) driver" where
  "destroy_event_queues E =
     bnd (gets event_queue_pool) (\<lambda>p.
     for_each (\<lambda>i. for_each (destroy_event_queue_at E i) [0..<unat (p_block_size p)])
       [0..<unat (p_block_count p)])"

definition teardown_hca :: "'h platform \<Rightarrow> ('h, unit) driver" where
  "teardown_hca E =
     andthen (destroy_event_queues E)
    (andthen (dealloc_uar E)
    (bnd (execute E TEARDOWN_HCA 0 [] 0 0) (\<lambda>_.
     bnd (reclaim_all_pages E) (\<lambda>_.
     bnd (execute E DISABLE_HCA 0 [] 0 0) (\<lambda>_. ret ())))))"

section \<open>The handler of page requests\<close>

text \<open>What the handler does with a page request for \<open>n\<close> pages.\<close>

definition answer_page_request :: "'h platform \<Rightarrow> u32 \<Rightarrow> ('h, unit) driver" where
  "answer_page_request E page_count =
     (if 0 < sint page_count then provide_pages E page_count
      else bnd (int32 (abs (sint page_count))) (\<lambda>n. bnd (reclaim_pages E n) (\<lambda>_. ret ())))"

definition handler_round :: "'h platform \<Rightarrow> 'h irq_services \<Rightarrow> u64 \<Rightarrow> u32 \<Rightarrow> ('h, unit) driver" where
  "handler_round E I irq eq =
     andthen (on_mach (modify (irq_receive I irq)))
    (bnd (eqe_owned_by_hw eq) (\<lambda>hw.
     if hw then ret ()
     else bnd (read_eqe eq) (\<lambda>payload. answer_page_request E (payload ! 1))))"

section \<open>The main thread\<close>

text \<open>\<open>setup_event_queue\<close> before and after it creates the handler thread.\<close>

definition setup_event_queue :: "'h platform \<Rightarrow> ('h, u32) driver" where
  "setup_event_queue E =
     bnd (create_eq E 4 (event_type_word EVENT_TYPE_PAGE_REQUEST) 0) (\<lambda>eq_number.
     bnd (get_eq_state E eq_number) (\<lambda>_. ret eq_number))"

definition arm_event_queue :: "'h platform \<Rightarrow> u32 \<Rightarrow> ('h, unit) driver" where
  "arm_event_queue E eq_number =
     andthen (arm_eq eq_number)
    (bnd (get_eq_state E eq_number) (\<lambda>_. ret ()))"

section \<open>The two threads together\<close>

text \<open>
  Where the main thread is: before \<open>setup_event_queue\<close>; inside \<open>create_msix_thread\<close>, after the
  thread was created; after it, arming the queue; setting the work queue up; in the server
  loop; waiting for the handler; tearing down; done.
\<close>

datatype main_pc = Main_Setup | Main_In_Create | Main_Arming | Main_Work_Queue | Main_Serving | Main_Joining
  | Main_Teardown | Main_Done

text \<open>
  Where the handler is, with its local variables: not created; created, its pointer not yet
  read; with its copy of the arguments and of \<open>opt->eq\<close>; with its interrupt before the test of
  \<open>opt->active\<close>, before the wait, before the look at the entry, before reading it, and before the
  answer to a request for pages; ended.
\<close>

datatype handler_pc = Handler_None | Handler_Created | Handler_Copied IRQH_Args u32
  | Handler_Loop u64 u32 | Handler_Wait u64 u32 | Handler_Check u64 u32 | Handler_Read u64 u32
  | Handler_Answer u64 u32 u32 | Handler_Ended

text \<open>
  What the threads share: the context, \<open>opt.active\<close>, \<open>opt.eq\<close>, and the arguments in the stack frame
  of \<open>create_msix_thread\<close> while it has not returned. The error, if any, has ended the program.
\<close>

record 'h threads =
  t_ctx :: "'h MLX5_Context"
  t_active :: bool
  t_eq :: u32
  t_frame :: "IRQH_Args option"
  t_main :: main_pc
  t_handler :: handler_pc
  t_died :: "error option"

text \<open>
  \<open>create_msix_thread\<close> up to the creation of the thread, which gets a pointer to the arguments
  in the frame; its return, which ends the frame, is a step of its own.
\<close>

definition create_msix_thread :: "IRQH_Args \<Rightarrow> 'h threads \<Rightarrow> 'h threads" where
  "create_msix_thread args s = s\<lparr>t_frame := Some args, t_main := Main_In_Create, t_handler := Handler_Created\<rparr>"

text \<open>
  What the main thread does next, from \<open>setup_event_queue\<close> on: its effect on the context, and on
  the rest. Up to \<open>pthread_create\<close> there is no other thread; then each call is a step. The server
  loop may be left at any time. It waits for the handler to end in \<open>pthread_join\<close>, the only
  place where it may not go on.
\<close>

fun main_next :: "'h platform \<Rightarrow> IRQH_Args \<Rightarrow> 'h threads \<Rightarrow> main_pc \<Rightarrow> ('h, 'h threads \<Rightarrow> 'h threads) driver" where
  "main_next E args s Main_Setup = bnd (setup_event_queue E) (\<lambda>eq.
     ret (\<lambda>s. create_msix_thread args (s\<lparr>t_active := True, t_eq := eq\<rparr>)))"
| "main_next E args s Main_In_Create = ret (\<lambda>s. s\<lparr>t_frame := None, t_main := Main_Arming\<rparr>)"
| "main_next E args s Main_Arming = andthen (arm_event_queue E (t_eq s)) (ret (\<lambda>s. s\<lparr>t_main := Main_Work_Queue\<rparr>))"
| "main_next E args s Main_Work_Queue = andthen (setup_work_queue E) (ret (\<lambda>s. s\<lparr>t_main := Main_Serving\<rparr>))"
| "main_next E args s Main_Serving = ret (\<lambda>s. s\<lparr>t_active := False, t_main := Main_Joining\<rparr>)"
| "main_next E args s Main_Joining = ret (\<lambda>s. s\<lparr>t_main := Main_Teardown\<rparr>)"
| "main_next E args s Main_Teardown = andthen (teardown_hca E) (ret (\<lambda>s. s\<lparr>t_main := Main_Done\<rparr>))"
| "main_next E args s Main_Done = ret (\<lambda>s. s)"

definition main_waits :: "'h threads \<Rightarrow> bool" where
  "main_waits s \<longleftrightarrow> t_main s = Main_Done \<or> t_main s = Main_Joining \<and> t_handler s \<noteq> Handler_Ended"

text \<open>
  What the handler does next, from its first statement to its end. Its argument points to the
  frame of \<open>create_msix_thread\<close>: once that has returned, there are no arguments to be read.
\<close>

fun handler_next :: "'h platform \<Rightarrow> 'h irq_services \<Rightarrow> u64 \<Rightarrow> 'h threads \<Rightarrow> handler_pc \<Rightarrow> ('h, handler_pc) driver" where
  "handler_next E I self s Handler_None = ret Handler_None"
| "handler_next E I self s Handler_Created = (case t_frame s of
     None \<Rightarrow> throw (Undefined ''stack frame'')
   | Some args \<Rightarrow> ret (Handler_Copied args (t_eq s)))"
| "handler_next E I self s (Handler_Copied args eq) =
     bnd (on_mach (create_msix_irq I self args)) (\<lambda>irq. ret (Handler_Loop irq eq))"
| "handler_next E I self s (Handler_Loop irq eq) =
     (if t_active s then ret (Handler_Wait irq eq)
      else andthen (on_mach (modify (irq_detach I irq))) (ret Handler_Ended))"
| "handler_next E I self s (Handler_Wait irq eq) =
     andthen (on_mach (modify (irq_receive I irq))) (ret (Handler_Check irq eq))"
| "handler_next E I self s (Handler_Check irq eq) =
     bnd (eqe_owned_by_hw eq) (\<lambda>hw. ret (if hw then Handler_Loop irq eq else Handler_Read irq eq))"
| "handler_next E I self s (Handler_Read irq eq) =
     bnd (read_eqe eq) (\<lambda>payload. ret (Handler_Answer irq eq (payload ! 1)))"
| "handler_next E I self s (Handler_Answer irq eq page_count) =
     andthen (answer_page_request E page_count) (ret (Handler_Loop irq eq))"
| "handler_next E I self s Handler_Ended = ret Handler_Ended"

definition handler_runs :: "'h threads \<Rightarrow> bool" where
  "handler_runs s \<longleftrightarrow> t_handler s \<noteq> Handler_None \<and> t_handler s \<noteq> Handler_Ended"

text \<open>
  The steps of each thread. An exception leaves neither thread's function, so it ends the
  program, and so does undefined behaviour. A call that does not return is no step. Each call
  of the driver is one step: the orders of the calls show, the data races inside them do not.
\<close>

inductive main_step :: "'h platform \<Rightarrow> IRQH_Args \<Rightarrow> 'h threads \<Rightarrow> 'h threads \<Rightarrow> bool"
  for E :: "'h platform" and args :: IRQH_Args where
  Main_Goes: "t_died s = None \<Longrightarrow> \<not> main_waits s \<Longrightarrow> main_next E args s (t_main s) (t_ctx s) = Some (Inr f, c) \<Longrightarrow>
    main_step E args s (f (s\<lparr>t_ctx := c\<rparr>))"
| Main_Dies: "t_died s = None \<Longrightarrow> \<not> main_waits s \<Longrightarrow> main_next E args s (t_main s) (t_ctx s) = Some (Inl e, c) \<Longrightarrow>
    main_step E args s (s\<lparr>t_ctx := c, t_died := Some e\<rparr>)"

inductive handler_step :: "'h platform \<Rightarrow> 'h irq_services \<Rightarrow> u64 \<Rightarrow> 'h threads \<Rightarrow> 'h threads \<Rightarrow> bool"
  for E :: "'h platform" and I :: "'h irq_services" and self :: u64 where
  Handler_Goes: "t_died s = None \<Longrightarrow> handler_runs s \<Longrightarrow> handler_next E I self s (t_handler s) (t_ctx s) = Some (Inr h, c) \<Longrightarrow>
    handler_step E I self s (s\<lparr>t_ctx := c, t_handler := h\<rparr>)"
| Handler_Dies: "t_died s = None \<Longrightarrow> handler_runs s \<Longrightarrow> handler_next E I self s (t_handler s) (t_ctx s) = Some (Inl e, c) \<Longrightarrow>
    handler_step E I self s (s\<lparr>t_ctx := c, t_died := Some e\<rparr>)"

definition thread_step :: "'h platform \<Rightarrow> 'h irq_services \<Rightarrow> u64 \<Rightarrow> IRQH_Args \<Rightarrow> 'h threads \<Rightarrow> 'h threads \<Rightarrow> bool" where
  "thread_step E I self args s t \<longleftrightarrow> main_step E args s t \<or> handler_step E I self s t"

text \<open>The states the server reaches from the end of \<open>init_hca\<close>.\<close>

definition threads_start :: "'h MLX5_Context \<Rightarrow> 'h threads" where
  "threads_start c = \<lparr>t_ctx = c, t_active = False, t_eq = 0, t_frame = None, t_main = Main_Setup,
     t_handler = Handler_None, t_died = None\<rparr>"

abbreviation reaches :: "'h platform \<Rightarrow> 'h irq_services \<Rightarrow> u64 \<Rightarrow> IRQH_Args \<Rightarrow> 'h threads \<Rightarrow> 'h threads \<Rightarrow> bool" where
  "reaches E I self args \<equiv> (thread_step E I self args)\<^sup>*\<^sup>*"

section \<open>The order of the two threads\<close>

text \<open>
  What holds in every state: the handler exists once it was created, \<open>active\<close> is set exactly
  from then to the shutdown, the frame of \<open>create_msix_thread\<close> is there while that function has
  not returned, and the main thread tears down only after the handler has ended.
\<close>

definition threads_ok :: "'h threads \<Rightarrow> bool" where
  "threads_ok s \<longleftrightarrow> (t_main s = Main_Setup \<longleftrightarrow> t_handler s = Handler_None)
     \<and> (t_active s \<longleftrightarrow> t_main s \<in> {Main_In_Create, Main_Arming, Main_Work_Queue, Main_Serving})
     \<and> (t_frame s \<noteq> None \<longleftrightarrow> t_main s = Main_In_Create)
     \<and> (t_handler s = Handler_Ended \<longrightarrow> \<not> t_active s)
     \<and> (t_main s \<in> {Main_Teardown, Main_Done} \<longrightarrow> t_handler s = Handler_Ended)"

inductive_cases main_stepE: "main_step E args s t"
inductive_cases handler_stepE: "handler_step E I self s t"

text \<open>What a call returns in the two functions, by the place of the thread.\<close>

lemmas next_ok = bnd_ok andthen_def ret_def throw_def create_msix_thread_def

lemma main_next_ok:
  "main_next E args s mp c = Some (Inr f, c') \<Longrightarrow> t_main (f t) = (case mp of Main_Setup \<Rightarrow> Main_In_Create
     | Main_In_Create \<Rightarrow> Main_Arming | Main_Arming \<Rightarrow> Main_Work_Queue | Main_Work_Queue \<Rightarrow> Main_Serving
     | Main_Serving \<Rightarrow> Main_Joining | Main_Joining \<Rightarrow> Main_Teardown | Main_Teardown \<Rightarrow> Main_Done | Main_Done \<Rightarrow> t_main t)
   \<and> t_handler (f t) = (if mp = Main_Setup then Handler_Created else t_handler t)
   \<and> t_active (f t) = (if mp = Main_Setup then True else if mp = Main_Serving then False else t_active t)
   \<and> t_frame (f t) = (if mp = Main_Setup then Some args else if mp = Main_In_Create then None else t_frame t)
   \<and> t_died (f t) = t_died t \<and> t_ctx (f t) = t_ctx t"
  by (cases mp) (auto simp: next_ok)

text \<open>Where the handler goes: on through the loop, or from its head to the end.\<close>

lemma handler_next_ok:
  "handler_next E I self s hp c = Some (Inr h, c') \<Longrightarrow> hp \<noteq> Handler_None \<Longrightarrow> h \<noteq> Handler_None
   \<and> (h = Handler_Ended \<longrightarrow> hp = Handler_Ended \<or> \<not> t_active s)
   \<and> (\<forall>irq eq. h = Handler_Wait irq eq \<longrightarrow> t_active s)"
  by (cases hp) (auto simp: next_ok split: option.splits if_splits)

lemma thread_step_ok: "thread_step E I self args s t \<Longrightarrow> threads_ok s \<Longrightarrow> threads_ok t"
proof -
  have m: "main_step E args s t \<Longrightarrow> threads_ok s \<Longrightarrow> threads_ok t"
  proof (erule main_stepE)
    fix f c assume t: "t = f (s\<lparr>t_ctx := c\<rparr>)" and w: "\<not> main_waits s" and ok: "threads_ok s"
      and n: "main_next E args s (t_main s) (t_ctx s) = Some (Inr f, c)"
    show "threads_ok t"
      using main_next_ok [OF n, of "s\<lparr>t_ctx := c\<rparr>"] w ok unfolding t
      by (cases "t_main s") (auto simp: threads_ok_def main_waits_def)
  qed (auto simp: threads_ok_def)
  have h: "handler_step E I self s t \<Longrightarrow> threads_ok s \<Longrightarrow> threads_ok t"
  proof (erule handler_stepE)
    fix h c assume t: "t = s\<lparr>t_ctx := c, t_handler := h\<rparr>" and r: "handler_runs s" and ok: "threads_ok s"
      and n: "handler_next E I self s (t_handler s) (t_ctx s) = Some (Inr h, c)"
    show "threads_ok t"
      using handler_next_ok [OF n] r ok unfolding t by (auto simp: threads_ok_def handler_runs_def)
  qed (auto simp: threads_ok_def)
  show "thread_step E I self args s t \<Longrightarrow> threads_ok s \<Longrightarrow> threads_ok t"
    using m h by (auto simp: thread_step_def)
qed

lemma threads_start_ok: "threads_ok (threads_start c)"
  by (simp add: threads_ok_def threads_start_def)

end
