(* ===== verification/Driver_Facts.thy ===== *)
theory Driver_Facts
  imports Driver_Device Threads
begin

text \<open>
  Further contracts of the driver's operations: the interface version it settles on, pages
  taken back, the payload of event queues, and the teardown.
\<close>

section \<open>The interface version\<close>

lemma ffs_zero: "ffs w = 0 \<longleftrightarrow> w = 0"
proof
  assume "ffs w = 0"
  have "find (bit w) [0..<32] \<noteq> Some k" if "k < 32" for k
  proof
    assume "find (bit w) [0..<32] = Some k"
    with \<open>ffs w = 0\<close> have "(of_nat k + 1 :: u32) = 0" by (simp add: ffs_def)
    then have "unat (of_nat k + 1 :: u32) = 0" by simp
    with that show False by (simp add: unat_word_ariths unsigned_of_nat take_bit_nat_eq_self)
  qed
  then have "find (bit w) [0..<32] = None" by (metis find_Some_iff length_upt diff_zero nth_upt add_0 option.exhaust)
  then have "\<not> bit w n" if "n < 32" for n using that by (simp add: find_None_iff)
  then show "w = 0" by (intro bit_word_eqI) simp
next
  assume "w = 0"
  then have "find (bit w) [0..<32] = None" unfolding find_None_iff by simp
  then show "ffs w = 0" by (simp add: ffs_def)
qed

text \<open>The lowest bit set of a word that is not 0.\<close>

definition lowest_bit :: "u32 \<Rightarrow> nat" where
  "lowest_bit w = (LEAST k. bit w k)"

lemma ffs_lowest: "w \<noteq> 0 \<Longrightarrow> ffs w = of_nat (lowest_bit w) + 1 \<and> lowest_bit w < 32"
proof -
  assume "w \<noteq> 0"
  then have "ffs w \<noteq> 0" by (simp add: ffs_zero)
  then obtain k where f: "find (bit w) [0..<32] = Some k" by (auto simp: ffs_def split: option.splits)
  then have k: "k < 32" "bit w k" "\<And>j. j < k \<Longrightarrow> \<not> bit w j" by (auto simp: find_Some_iff)
  then have "lowest_bit w = k" unfolding lowest_bit_def by (intro Least_equality) (auto intro: leI)
  with f k show ?thesis by (simp add: ffs_def)
qed

text \<open>
  What \<open>get_issi_support\<close> computes: the last of the words 6 to 25 with a bit set, and its lowest
  bit; 640 when there is none.
\<close>

definition last_set :: "u32 list \<Rightarrow> nat option" where
  "last_set ws = find (\<lambda>i. ws ! i \<noteq> 0) (rev [6..<26])"

lemma last_set_nonzero: "last_set ws = Some i \<Longrightarrow> ws ! i \<noteq> 0"
  unfolding last_set_def find_Some_iff by blast

lemma scan_issi_find:
  "scan_issi ws is p n = (case find (\<lambda>i. ws ! i \<noteq> 0) is of
     None \<Rightarrow> (if is = [] then p else 0, n + of_nat (length is))
   | Some i \<Rightarrow> (ffs (ws ! i), n + of_nat (length (takeWhile (\<lambda>i. ws ! i = 0) is))))"
  by (induction "is" arbitrary: p n) (auto simp: Let_def ffs_zero split: option.splits)

lemma takeWhile_down:
  "last_set ws = Some i \<Longrightarrow> length (takeWhile (\<lambda>i. ws ! i = 0) (rev [6..<26])) = 25 - i \<and> i < 26 \<and> 6 \<le> i"
proof -
  assume "last_set ws = Some i"
  then obtain k where k: "k < length (rev [6..<26])" "ws ! (rev [6..<26] ! k) \<noteq> 0" "i = rev [6..<26] ! k"
    "\<And>j. j < k \<Longrightarrow> ws ! (rev [6..<26] ! j) = 0" unfolding last_set_def find_Some_iff by blast
  from k(1) have "rev [6..<26] ! k = 25 - k" by (simp add: rev_nth del: upt_rec_numeral)
  moreover have "takeWhile (\<lambda>i. ws ! i = 0) (rev [6..<26]) = take k (rev [6..<26])"
    using k by (intro takeWhile_eq_take_P_nth) auto
  moreover have "k < 20" using k(1) by simp
  ultimately show ?thesis using k(3) by (auto simp del: upt_rec_numeral)
qed

lemma issi_of_found:
  "issi_of ws = (case last_set ws of None \<Rightarrow> 640 | Some i \<Rightarrow> of_nat ((25 - i) * 32 + lowest_bit (ws ! i) + 1))"
proof (cases "last_set ws")
  case None
  then have "find (\<lambda>i. ws ! i \<noteq> 0) (rev [6..<26]) = None" by (simp add: last_set_def)
  then have "scan_issi ws (rev [6..<26]) 0 0 = (0, 20)" unfolding scan_issi_find by simp
  then show ?thesis using None by (simp add: issi_of_def)
next
  case (Some i)
  have "ws ! i \<noteq> 0" using Some by (rule last_set_nonzero)
  then have "ffs (ws ! i) = of_nat (lowest_bit (ws ! i)) + 1" using ffs_lowest by blast
  moreover have "scan_issi ws (rev [6..<26]) 0 0 = (ffs (ws ! i), of_nat (25 - i))"
    using Some takeWhile_down [OF Some] unfolding scan_issi_find last_set_def by simp
  ultimately show ?thesis using Some by (simp add: issi_of_def)
qed

lemma issi_of_range: "0 < unat (issi_of ws) \<and> unat (issi_of ws) \<le> 640"
proof (cases "last_set ws")
  case (Some i)
  have "ws ! i \<noteq> 0" using Some by (rule last_set_nonzero)
  then have l: "lowest_bit (ws ! i) < 32" using ffs_lowest by blast
  have i: "6 \<le> i" "i < 26" using takeWhile_down [OF Some] by auto
  then have "(25 - i) * 32 + lowest_bit (ws ! i) + 1 \<le> 640" using l by linarith
  moreover have "issi_of ws = of_nat ((25 - i) * 32 + lowest_bit (ws ! i) + 1)" using Some issi_of_found [of ws] by simp
  ultimately show ?thesis by (simp only: unsigned_of_nat take_bit_nat_eq_self) (simp add: take_bit_nat_eq_self)
qed (simp add: issi_of_found)

text \<open>
  The words 25 down to 6 are a number of 640 bits, the lowest in word 25. The result is one more
  than its lowest bit set.
\<close>

definition issi_bit :: "u32 list \<Rightarrow> nat \<Rightarrow> bool" where
  "issi_bit ws k \<longleftrightarrow> k < 640 \<and> bit (ws ! (25 - k div 32)) (k mod 32)"

lemma lowest_bit_least:
  assumes "w \<noteq> 0" shows "bit w (lowest_bit w)" "k < lowest_bit w \<Longrightarrow> \<not> bit w k"
proof -
  from assms have "\<exists>k. bit w k" by (metis bit_0_eq bit_eqI bot_apply bot_bool_def)
  then show "bit w (lowest_bit w)" unfolding lowest_bit_def by (rule LeastI_ex)
  show "k < lowest_bit w \<Longrightarrow> \<not> bit w k" unfolding lowest_bit_def by (rule not_less_Least)
qed

lemma last_set_zero: "last_set ws = Some i \<Longrightarrow> i < j \<Longrightarrow> j < 26 \<Longrightarrow> ws ! j = 0"
proof -
  assume "last_set ws = Some i" and j: "i < j" "j < 26"
  then obtain k where k: "k < 20" "i = rev [6..<26] ! k" "\<And>j. j < k \<Longrightarrow> ws ! (rev [6..<26] ! j) = 0"
    unfolding last_set_def find_Some_iff by (auto simp del: upt_rec_numeral)
  then have "i = 25 - k" by (simp add: rev_nth del: upt_rec_numeral)
  with j k(1) have "25 - j < k" "rev [6..<26] ! (25 - j) = j" by (auto simp: rev_nth simp del: upt_rec_numeral)
  with k(3) show "ws ! j = 0" by metis
qed

lemma last_set_None: "last_set ws = None \<Longrightarrow> 6 \<le> i \<Longrightarrow> i < 26 \<Longrightarrow> ws ! i = 0"
  unfolding last_set_def find_None_iff by (auto simp del: upt_rec_numeral)

lemma issi_of_lowest: "unat (issi_of ws) = (if \<exists>k. issi_bit ws k then Suc (LEAST k. issi_bit ws k) else 640)"
proof (cases "last_set ws")
  case None
  have "\<not> issi_bit ws k" for k
  proof
    assume "issi_bit ws k"
    moreover have "ws ! (25 - k div 32) = 0" if "k < 640" using that by (intro last_set_None [OF None]) auto
    ultimately show False by (simp add: issi_bit_def)
  qed
  with None show ?thesis by (simp add: issi_of_found)
next
  case (Some i)
  let ?l = "lowest_bit (ws ! i)" let ?k = "(25 - i) * 32 + ?l"
  have w: "ws ! i \<noteq> 0" using Some by (rule last_set_nonzero)
  then have l: "?l < 32" using ffs_lowest by blast
  have i: "6 \<le> i" "i < 26" using takeWhile_down [OF Some] by auto
  have d: "?k div 32 = 25 - i" "?k mod 32 = ?l" using l by simp_all
  have set: "issi_bit ws ?k" unfolding issi_bit_def d using i l lowest_bit_least(1) [OF w] by simp
  have "(LEAST k. issi_bit ws k) = ?k"
  proof (rule Least_equality, rule set, rule leI, rule notI)
    fix k assume b: "issi_bit ws k" and "k < ?k"
    show False
    proof (cases "k div 32 < 25 - i")
      case True
      then have "ws ! (25 - k div 32) = 0" by (intro last_set_zero [OF Some]) auto
      with b show False by (simp add: issi_bit_def)
    next
      case False
      have "k div 32 \<le> ?k div 32" using \<open>k < ?k\<close> by (intro div_le_mono) simp
      with False d have "k div 32 = 25 - i" by linarith
      moreover from this have "k mod 32 < ?l" using \<open>k < ?k\<close> div_mult_mod_eq [of k 32] by linarith
      ultimately show False using b i lowest_bit_least(2) [OF w] by (simp add: issi_bit_def)
    qed
  qed
  moreover have "unat (issi_of ws) = Suc ?k"
  proof -
    have e: "issi_of ws = of_nat (Suc ?k)" using Some by (simp add: issi_of_found)
    have "Suc ?k < 2 ^ 32" using l by simp
    then show ?thesis unfolding e by (simp only: unsigned_of_nat) (simp add: take_bit_nat_eq_self)
  qed
  ultimately show ?thesis using set by auto
qed

text \<open>So the version check of \<open>configure_issi\<close> never fails.\<close>

lemma configure_issi_no_check:
  "configure_issi E a = bnd (execute E QUERY_ISSI 0 [] 0 26) (\<lambda>slot.
     bnd (get_issi_support E slot) (\<lambda>_. bnd (execute E SET_ISSI 0 [1] 1 0) (\<lambda>_. ret 1))) a"
proof -
  have "issi \<noteq> 0" if "get_issi_support E slot b = Some (Inr issi, b')" for slot issi and b b' :: "('a, 'b) CMD_Args_scheme"
  proof -
    from that obtain ws where "issi = issi_of ws"
      unfolding get_issi_support_def bnd_ok by (auto simp: prog_simps)
    with issi_of_range [of ws] show ?thesis by auto
  qed
  then show ?thesis
    by (auto simp: configure_issi_def bnd_def split: option.splits sum.splits)
qed

section \<open>Taking pages back\<close>

text \<open>
  The length of the output follows the number asked for, the local array does not: more than
  3200 pages overrun it, once the command has succeeded.
\<close>

lemma reclaim_pages_overrun:
  assumes n: "3200 < n" "n < 2 ^ 30 - 1"
    and run: "execute E MANAGE_PAGES 2 [0, word_of_int n] 2 (word_of_int (2 + n * 2)) c = Some (Inr slot, c')"
  shows "reclaim_pages E n c = Some (Inl (Undefined ''array index''), c')"
proof -
  have "int32 (n * 2) s = Some (Inr (n * 2), s)" "int32 (2 + n * 2) s = Some (Inr (2 + n * 2), s)" for s :: "'a MLX5_Context"
    using n by (simp_all add: int32_def prog_simps)
  moreover have "6402 < unat (word_of_int (2 + n * 2) :: u32)"
  proof -
    have "uint (word_of_int (2 + n * 2) :: u32) = 2 + n * 2"
      unfolding uint_word_of_int_eq using n by (intro take_bit_int_eq_self) simp_all
    then have "unat (word_of_int (2 + n * 2) :: u32) = nat (2 + n * 2)"
      by (simp only: unat_eq_nat_uint)
    then show ?thesis using n by linarith
  qed
  then have "get_cmd_output slot (words_at (stack_junk E (mach c)) 6402) (word_of_int (2 + n * 2)) c' =
      Some (Inl (Undefined ''array index''), c')"
    by (intro get_cmd_output_overrun) simp_all
  ultimately show ?thesis
    using run by (simp add: reclaim_pages_def stack_array_def prog_simps Let_def)
qed

section \<open>The list of an event queue's pages\<close>

text \<open>Only as many words of the list are passed on as the queue has pages, half of them.\<close>

lemma copy_pas_run:
  assumes "unat pc \<le> length pas" "base + unat pc \<le> length payload"
  shows "copy_pas pas base pc payload s =
    Some (Inr (take base payload @ take (unat pc) pas @ drop (base + unat pc) payload), s)"
proof -
  have "fold_m (\<lambda>i payload. bnd (read_word pas i) (\<lambda>w. write_word payload (base + i) w)) [0..<n] payload s =
      Some (Inr (take base payload @ take n pas @ drop (base + n) payload), s)"
    if "n \<le> length pas" "base + n \<le> length payload" for n
    using that
  proof (induction n)
    case (Suc n)
    then have "drop (base + n) payload = payload ! (base + n) # drop (Suc (base + n)) payload"
      by (intro Cons_nth_drop_Suc [symmetric]) simp
    with Suc show ?case
      by (simp add: prog_simps list_update_append take_Suc_conv_app_nth nth_append)
  qed (simp add: prog_simps)
  from this [OF assms] show ?thesis by (simp add: copy_pas_def)
qed

lemma copy_pas_overrun:
  assumes "base + unat pc > length payload" "base \<le> length payload" "unat pc \<le> length pas"
  shows "copy_pas pas base pc payload s = Some (Inl (Undefined ''array index''), s)"
proof -
  let ?k = "length payload - base" and ?body = "\<lambda>i payload. bnd (read_word pas i) (\<lambda>w. write_word payload (base + i) w)"
  have "[0..<unat pc] = [0..<?k] @ [?k..<unat pc]"
    using upt_add_eq_append [of 0 ?k "unat pc - ?k"] assms by simp
  then have up: "[0..<unat pc] = [0..<?k] @ ?k # [Suc ?k..<unat pc]" using assms by (simp add: upt_conv_Cons)
  have k: "unat (of_nat ?k :: u32) = ?k"
  proof -
    have "unat pc < 2 ^ 32" using unsigned_less [of pc] by simp
    then have "?k < 2 ^ 32" using assms by linarith
    then show ?thesis by (simp only: unsigned_of_nat of_nat_id) (simp add: take_bit_nat_eq_self)
  qed
  have "fold_m ?body [0..<?k] payload s = Some (Inr (take base payload @ take ?k pas @ drop (base + ?k) payload), s)"
    using copy_pas_run [of "of_nat ?k" pas base payload s] assms k by (simp add: copy_pas_def)
  moreover have "?body ?k (take base payload @ take ?k pas @ drop (base + ?k) payload) s = Some (Inl (Undefined ''array index''), s)"
    using assms by (simp add: prog_simps)
  ultimately show ?thesis
    unfolding copy_pas_def up by (simp only: fold_m_append) (simp add: bnd_def)
qed

section \<open>Events\<close>

text \<open>\<open>log2\<close> is the place of the highest bit.\<close>

lemma log2_run:
  assumes "w \<noteq> 0"
  shows "\<exists>k. log2 w s = Some (Inr k, s) \<and> 2 ^ k \<le> unat w \<and> unat w < 2 ^ Suc k"
proof -
  have "find (bit w) (rev [0..<64]) \<noteq> None"
  proof
    assume "find (bit w) (rev [0..<64]) = None"
    then have "\<not> bit w n" if "n < 64" for n using that by (simp add: find_None_iff)
    then have "w = 0" by (intro bit_word_eqI) simp
    with assms show False ..
  qed
  then obtain k where f: "find (bit w) (rev [0..<64]) = Some k" by blast
  then obtain j where j: "j < 64" "bit w (rev [0..<64] ! j)" "k = rev [0..<64] ! j"
    "\<And>i. i < j \<Longrightarrow> \<not> bit w (rev [0..<64] ! i)" unfolding find_Some_iff by auto
  then have k: "k = 63 - j" by (simp add: rev_nth)
  have hi: "\<not> bit w n" if "k < n" for n
  proof (cases "n < 64")
    case True
    with that k j(4) [of "63 - n"] show ?thesis by (simp add: rev_nth)
  qed (use bit_imp_le_length [of w n] in auto)
  have "unat w < 2 ^ Suc k"
  proof -
    have "take_bit (Suc k) w = w" by (rule bit_word_eqI) (auto simp: bit_simps dest: hi intro: leI less_SucI intro!: le_imp_less_Suc)
    then have "take_bit (Suc k) (unat w) = unat w" by (metis unsigned_take_bit_eq)
    then show ?thesis by (metis take_bit_nat_less_exp)
  qed
  moreover have "bit (unat w) k" using j k by (simp add: bit_unsigned_iff rev_nth)
  then have "2 ^ k \<le> unat w" by (metis bit_iff_odd div_less even_zero not_le)
  ultimately show ?thesis using f by (simp add: log2_def prog_simps)
qed

text \<open>The fields of the input structure of a queue.\<close>

lemma make_eqi_fields:
  assumes "log_size < 32" "unat uar_index < 2 ^ 24" "unat irq_num < 2 ^ 8"
  shows "length (make_eqi log_size uar_index irq_num types) = 66
    \<and> drop_bit 24 (make_eqi log_size uar_index irq_num types ! 5) = of_nat log_size
    \<and> take_bit 24 (make_eqi log_size uar_index irq_num types ! 5) = uar_index
    \<and> make_eqi log_size uar_index irq_num types ! 7 = irq_num
    \<and> push_bit 32 (ucast (make_eqi log_size uar_index irq_num types ! 20)) OR
        ucast (make_eqi log_size uar_index irq_num types ! 21) = types
    \<and> (\<forall>i. i < 66 \<and> i \<notin> {5, 7, 20, 21} \<longrightarrow> make_eqi log_size uar_index irq_num types ! i = 0)"
proof -
  let ?l = "of_nat log_size :: u32"
  have m: "EQC_LOG_EQ_SIZE_MASK = push_bit 24 (mask 5)" "EQC_UAR_MASK = mask 24" "EQC_INTR_MASK = mask 8"
    by (simp_all add: mask_eq_exp_minus_1)
  have bits: "take_bit k w = w" if "unat w < 2 ^ k" for w :: u32 and k
    using that by (metis take_bit_nat_eq_self_iff unsigned_take_bit_eq word_unat_eq_iff)
  have l: "take_bit 5 ?l = ?l" using assms(1) by (intro bits) (simp add: unsigned_of_nat take_bit_nat_eq_self)
  have u: "take_bit 24 uar_index = uar_index" "take_bit 8 irq_num = irq_num" using assms(2,3) by (simp_all add: bits)
  let ?w = "(push_bit 24 ?l AND EQC_LOG_EQ_SIZE_MASK) OR (uar_index AND EQC_UAR_MASK)"
  have w: "?w = push_bit 24 (take_bit 5 ?l) OR take_bit 24 uar_index"
    unfolding m by (rule bit_word_eqI) (auto simp: bit_simps)
  have "drop_bit 24 ?w = take_bit 5 ?l" unfolding w by (rule bit_word_eqI) (auto simp: bit_simps)
  moreover have "take_bit 24 ?w = take_bit 24 uar_index" unfolding w by (rule bit_word_eqI) (auto simp: bit_simps)
  moreover have "irq_num AND EQC_INTR_MASK = take_bit 8 irq_num" unfolding m by (simp add: take_bit_eq_mask)
  moreover have "push_bit 32 (ucast (ucast (drop_bit 32 types) :: u32)) OR ucast (ucast types :: u32) = types"
    by (rule bit_word_eqI) (auto simp: bit_simps)
  ultimately show ?thesis unfolding l u by (auto simp: make_eqi_def layout_defs nth_list_update)
qed

section \<open>Reading events\<close>

text \<open>The event queue \<open>eq_number\<close> of the context is the element \<open>e\<close>, with the data \<open>q\<close>.\<close>

definition eq_at :: "'h MLX5_Context \<Rightarrow> u32 \<Rightarrow> nat \<times> nat \<Rightarrow> EQ_CTX QOP_ED \<Rightarrow> bool" where
  "eq_at c eq_number e q \<longleftrightarrow> q_index (p_data (event_queue_pool c)) (ucast eq_number) = Some (Some e)
     \<and> map_option e_data (elem_at (event_queue_pool c) e) = Some q"

lemma on_event_pool_run [prog_simps]:
  "m (event_queue_pool c, (uar_page_pool c, mach c)) = Some (r, (p, (u, x))) \<Longrightarrow>
   on_event_pool m c = Some (r, c\<lparr>event_queue_pool := p, uar_page_pool := u, mach := x\<rparr>)"
  by (simp add: on_event_pool_def prog_simps)

lemma context_same [simp]:
  "c\<lparr>event_queue_pool := event_queue_pool c, uar_page_pool := uar_page_pool c, mach := mach c\<rparr> = (c :: 'h MLX5_Context)"
  "c\<lparr>event_queue_pool := p, uar_page_pool := uar_page_pool c, mach := mach c\<rparr> = c\<lparr>event_queue_pool := p\<rparr>"
  by (cases c; simp)+

lemma event_queue_data_run:
  assumes "eq_at c eq_number e q"
  shows "event_queue eq_number c = Some (Inr e, c)" "event_queue_data eq_number c = Some (Inr q, c)"
proof -
  from assms obtain el where el: "elem_at (event_queue_pool c) e = Some el" "e_data el = q"
    by (auto simp: eq_at_def)
  show e: "event_queue eq_number c = Some (Inr e, c)"
    using assms by (simp add: event_queue_def eq_at_def get_queue_def prog_simps deref_def)
  show "event_queue_data eq_number c = Some (Inr q, c)"
    using e el by (simp add: event_queue_data_def prog_simps)
qed

text \<open>The seven words of the entry in slot \<open>i\<close>.\<close>

definition eqe_words :: "u64 \<Rightarrow> nat \<Rightarrow> 'h machine \<Rightarrow> u32 list" where
  "eqe_words start i m = map (\<lambda>k. ioread32be (reg (eqe_at start (of_nat i)) (eqe_data k)) m) [0..<7]"

lemma read_eqe_run:
  assumes "eq_at c eq_number e q"
  shows "\<exists>c'. read_eqe eq_number c = Some (Inr (eqe_words (q_start q) (unat (q_head q)) (mach c)), c')
    \<and> c' = c\<lparr>event_queue_pool := event_queue_pool c'\<rparr> \<and> mach c' = mach c \<and> eq_at c' eq_number e (snd (enqueue q))"
proof -
  from assms obtain el where el: "elem_at (event_queue_pool c) e = Some el" "e_data el = q"
    by (auto simp: eq_at_def)
  let ?c = "c\<lparr>event_queue_pool := set_data e (\<lambda>_. snd (enqueue q)) (event_queue_pool c)\<rparr>"
  have w: "(of_nat (unat w) :: u64) = ucast w" for w :: u32 by simp
  have get: "on_event_pool (on_pool (get_element e)) c = Some (Inr el, c)"
    using el by (simp add: prog_simps)
  have put: "on_event_pool (put_data e (\<lambda>_. snd (enqueue q))) c = Some (Inr (), ?c)"
    using el by (simp add: prog_simps)
  have en: "enqueue (e_data el) = (q_head q, snd (enqueue q))" "q_start (snd (enqueue q)) = q_start q"
    using el by (simp_all add: enqueue_def Let_def)
  have "read_eqe eq_number c = Some (Inr (eqe_words (q_start q) (unat (q_head q)) (mach c)), ?c)"
    unfolding read_eqe_def bnd_Inr [where m = "event_queue eq_number" and s = c, OF event_queue_data_run(1) [OF assms]]
      bnd_Inr [where m = "on_event_pool (on_pool (get_element e))" and s = c, OF get] en Let_def prod.case
      andthen_run bnd_Inr [where m = "on_event_pool (put_data e (\<lambda>_. snd (enqueue q)))" and s = c, OF put]
    by (simp add: gets_def eqe_words_def w del: upt_rec_numeral)
  moreover have "eq_at ?c eq_number e (snd (enqueue q))"
    using assms el by (simp add: eq_at_def)
  ultimately show ?thesis by (intro exI [of _ ?c]) simp
qed

text \<open>\<open>n\<close> events read one after the other, as the handler does it.\<close>

primrec read_eqes :: "nat \<Rightarrow> u32 \<Rightarrow> ('h, u32 list list) driver" where
  "read_eqes 0 eq_number = ret []"
| "read_eqes (Suc n) eq_number = bnd (read_eqe eq_number) (\<lambda>ws. bnd (read_eqes n eq_number) (\<lambda>wss. ret (ws # wss)))"

text \<open>They are the entries of the ring in order, over and over: nothing is written to them.\<close>

lemma read_eqes_run:
  assumes "eq_at c eq_number e q" "ring_ok q"
  shows "\<exists>c' q'. read_eqes n eq_number c = Some (Inr (map (\<lambda>i. eqe_words (q_start q)
      ((unat (q_head q) + i) mod unat (q_size q)) (mach c)) [0..<n]), c')
    \<and> mach c' = mach c \<and> eq_at c' eq_number e q' \<and> unat (q_head q') = (unat (q_head q) + n) mod unat (q_size q)"
  using assms
proof (induction n arbitrary: c q)
  case 0
  then show ?case by (auto simp: prog_simps ring_ok_def)
next
  case (Suc n)
  from read_eqe_run [OF Suc.prems(1)] obtain c1 where r1:
    "read_eqe eq_number c = Some (Inr (eqe_words (q_start q) (unat (q_head q)) (mach c)), c1)"
    "mach c1 = mach c" "eq_at c1 eq_number e (snd (enqueue q))" by blast
  let ?q = "snd (enqueue q)"
  have en: "enqueue q = (fst (enqueue q), ?q)" by simp
  note ring = enqueue_ring [OF Suc.prems(2) en]
  have st: "q_start ?q = q_start q" by (simp add: enqueue_def Let_def)
  from Suc.IH [OF r1(3) ring(4)] obtain c' q' where IH:
    "read_eqes n eq_number c1 = Some (Inr (map (\<lambda>i. eqe_words (q_start ?q)
      ((unat (q_head ?q) + i) mod unat (q_size ?q)) (mach c1)) [0..<n]), c')"
    "mach c' = mach c1" "eq_at c' eq_number e q'" "unat (q_head q') = (unat (q_head ?q) + n) mod unat (q_size ?q)" by blast
  have h: "unat (q_head q) mod unat (q_size q) = unat (q_head q)" using Suc.prems(2) by (simp add: ring_ok_def)
  have sh: "((unat (q_head q) + 1) mod unat (q_size q) + i) mod unat (q_size q) = (unat (q_head q) + Suc i) mod unat (q_size q)" for i
    by (simp add: mod_add_left_eq)
  have up: "[0..<Suc n] = 0 # map Suc [0..<n]" by (simp add: upt_conv_Cons map_Suc_upt del: upt_Suc)
  show ?case
    using r1 IH unfolding read_eqes.simps up
    by (intro exI [of _ c'] exI [of _ q']) (simp add: prog_simps ring(2,3) st sh [simplified] h del: upt_Suc)
qed

section \<open>Teardown\<close>

lemma for_each_ok:
  "for_each body is s = Some (Inr (), t) \<Longrightarrow> i \<in> set is \<Longrightarrow> \<exists>s' t'. body i s' = Some (Inr (), t')"
proof (induction "is" arbitrary: s)
  case (Cons j "is")
  then show ?case by (auto simp: andthen_def bnd_ok)
qed simp

text \<open>A pool of event queues with more than one block is never torn down.\<close>

lemma destroy_event_queues_fails:
  assumes "2 \<le> unat (p_block_count (event_queue_pool c))" "0 < p_block_size (event_queue_pool c)"
  shows "destroy_event_queues E c \<noteq> Some (Inr (), c')"
proof
  let ?p = "event_queue_pool c"
  assume "destroy_event_queues E c = Some (Inr (), c')"
  then have "for_each (\<lambda>i. for_each (destroy_event_queue_at E i) [0..<unat (p_block_size ?p)])
      [0..<unat (p_block_count ?p)] c = Some (Inr (), c')" by (simp add: destroy_event_queues_def prog_simps)
  from for_each_ok [OF this, of 1] assms(1) obtain s t where
    "for_each (destroy_event_queue_at E 1) [0..<unat (p_block_size ?p)] s = Some (Inr (), t)" by auto
  from for_each_ok [OF this, of 0] assms(2) obtain s' t' where "destroy_event_queue_at E 1 0 s' = Some (Inr (), t')"
    by (auto simp: word_less_nat_alt)
  then show False by (auto simp: destroy_event_queue_at_def bnd_ok throw_def)
qed

lemma returns_zoom: "returns (\<lambda>_. True) m \<Longrightarrow> returns I (zoom g h m)"
proof (unfold returns_def, intro allI impI)
  fix s
  assume "\<forall>s. True \<longrightarrow> m s \<noteq> None"
  then have "m (g s) \<noteq> None" by blast
  then obtain r t where "m (g s) = Some (r, t)" by (cases "m (g s)") auto
  then show "zoom g h m s \<noteq> None" by (simp add: zoom_def)
qed

lemma returns_get_element: "returns I (get_element e)"
proof -
  have "returns I (get_block b)" "keeps I (get_block b)" for I :: "('a, 'b, 'c) pool \<Rightarrow> bool" and b
    by (auto simp: returns_def keeps_def get_block_def prog_simps split: option.splits)
  then show ?thesis unfolding get_element_def by (intro keeps_intros)
qed

lemma returns_deref: "returns I (deref x)" "keeps I (deref x)"
  unfolding deref_def by (intro keeps_intros)+

lemma returns_get_queue: "returns (\<lambda>_. True) (get_queue i)"
  unfolding get_queue_def by (intro keeps_intros)

lemmas returns_driver = returns_zoom returns_get_element returns_deref returns_get_queue returns_execute

lemma returns_destroy_eq: "sleeps E \<Longrightarrow> returns (\<lambda>_. True) (destroy_eq E n)"
  unfolding destroy_eq_def event_queue_data_def event_queue_def on_event_pool_def on_pool_def
  by (intro keeps_intros returns_driver)

lemma destroy_event_queues_returns: "sleeps E \<Longrightarrow> returns (\<lambda>_. True) (destroy_event_queues E)"
  unfolding destroy_event_queues_def destroy_event_queue_at_def on_event_pool_def on_pool_def
  by (intro keeps_intros returns_driver returns_destroy_eq)

text \<open>Destroying the event queues does not touch the page pool.\<close>

lemma keeps_mem_pool [keeps_intros]:
  fixes c :: "'h MLX5_Context"
  shows "keeps (\<lambda>c'. mem_page_pool c' = mem_page_pool c) (on_event_pool m)"
    "keeps (\<lambda>c' :: 'h MLX5_Context. mem_page_pool c' = mem_page_pool c) (execute E opc om pl n k)"
proof -
  show "keeps (\<lambda>c'. mem_page_pool c' = mem_page_pool c) (on_event_pool m)"
    by (rule keepsI) (auto simp: on_event_pool_def elim!: zoom_finished)
  show "keeps (\<lambda>c' :: 'h MLX5_Context. mem_page_pool c' = mem_page_pool c) (execute E opc om pl n k)"
    by (rule keepsI) (simp add: command.exec_pools(1))
qed

lemma destroy_event_queues_keeps:
  fixes c :: "'h MLX5_Context" and E :: "'h platform"
  shows "keeps (\<lambda>c'. mem_page_pool c' = mem_page_pool c) (destroy_event_queues E)"
  unfolding destroy_event_queues_def destroy_event_queue_at_def destroy_eq_def event_queue_data_def event_queue_def deref_def
  by (intro keeps_intros)

lemma teardown_fails:
  assumes "sleeps E" "2 \<le> unat (p_block_count (event_queue_pool c))" "0 < p_block_size (event_queue_pool c)"
  shows "\<exists>e c'. teardown_hca E c = Some (Inl e, c') \<and> mem_page_pool c' = mem_page_pool c"
proof -
  from destroy_event_queues_returns [OF assms(1)] obtain r c' where r: "destroy_event_queues E c = Some (r, c')"
    using returnsD [of "\<lambda>_. True" "destroy_event_queues E" c] by blast
  with destroy_event_queues_fails [OF assms(2,3), of E c'] obtain e where "r = Inl e" by (cases r) auto
  moreover have "mem_page_pool c' = mem_page_pool c" using keepsD [OF destroy_event_queues_keeps refl r] .
  ultimately show ?thesis using r by (simp add: teardown_hca_def prog_simps)
qed

end
