(* ===== verification/Driver_Pages.thy ===== *)
theory Driver_Pages
  imports Driver_Correct Mem_Correct
begin

text \<open>
  The memory pages lent to the device: \<open>provide_pages\<close> lends exactly as many as it is asked
  for and names them to the device, in commands of at most 3200 pages.
\<close>

section \<open>Pages lent from the pool\<close>

text \<open>
  The pages \<open>es\<close> were not in use in \<open>p\<close> and now are, in \<open>p'\<close>; all else is as it was, and the
  pages of the old blocks have kept their addresses.
\<close>

definition lent :: "nat option \<Rightarrow> MEM_Page_Pool \<Rightarrow> nat list \<Rightarrow> (nat \<times> nat) list \<Rightarrow> MEM_Page_Pool \<Rightarrow> nat list \<Rightarrow> bool" where
  "lent pr p bs es p' bs' \<longleftrightarrow> pool_inv pr p' bs' \<and> distinct es \<and> set es \<inter> used_slots p bs = {}
     \<and> used_slots p' bs' = used_slots p bs \<union> set es \<and> set bs \<subseteq> set bs'
     \<and> list_all (\<lambda>b. block_phys p' b = block_phys p b) bs
     \<and> unat (p_size p') = unat (p_size p) + length es"

lemma lent_refl: "pool_inv pr p bs \<Longrightarrow> lent pr p bs [] p bs"
  by (simp add: lent_def list_all_iff)

lemma lent_trans: "lent pr p bs es p1 bs1 \<Longrightarrow> lent pr p1 bs1 es' p2 bs2 \<Longrightarrow> lent pr p bs (es @ es') p2 bs2"
  unfolding lent_def by (auto simp: list_all_iff)

lemma lent_phys: "lent pr p bs es p' bs' \<Longrightarrow> fst e \<in> set bs \<Longrightarrow> phys_of p' e = phys_of p e"
  by (simp add: lent_def list_all_iff phys_of_def)

lemma lent_blocks: "lent pr p bs es p' bs' \<Longrightarrow> e \<in> set es \<Longrightarrow> fst e \<in> set bs'"
  unfolding lent_def by (metis UnI2 used_slots_in)

text \<open>\<open>MEM::alloc_page\<close> lends one page, or fails and leaves the pages in use as they are.\<close>

lemma mem_alloc_page_lent:
  assumes inv: "pool_inv pr p bs" and run: "mem_alloc_page E (p, m) = Some (r, (p', m'))"
  shows "(case r of Inl _ \<Rightarrow> pool_inv pr p' bs \<and> used_slots p' bs = used_slots p bs \<and> p_size p' = p_size p
    | Inr e \<Rightarrow> p_size p < p_max p \<and> (\<exists>bs'. lent pr p bs [e] p' bs'))"
proof -
  obtain r1 p1 m1 where alloc: "alloc_page (mem_alloc_block E) (p, m) = Some (r1, (p1, m1))"
    and post: "alloc_post (mem_block_ok E m) pr p bs r1 p1"
    using mem_pool.alloc_page_correct [OF inv, of E m] by blast
  consider (err) e where "r1 = Inl e" | (full) "r1 = Inr None" | (page) e where "r1 = Inr (Some e)"
    by (cases r1; cases "projr r1") auto
  then show ?thesis
  proof cases
    case err
    then have r: "r = Inl e" "p' = p1" using run alloc by (simp_all add: mem_alloc_page_def prog_simps)
    from post err have occ: "occupancy p1 bs = occupancy p bs" and "pool_inv pr p1 bs" "p_size p1 = p_size p"
      by (auto simp: alloc_post_def)
    moreover have "used_slots p1 bs = used_slots p bs" using occ by (auto simp: used_slots_nth set_eq_iff)
    ultimately show ?thesis by (simp add: r)
  next
    case full
    with run alloc post inv show ?thesis by (auto simp: mem_alloc_page_def prog_simps alloc_post_def)
  next
    case page
    from post page have kept: "data_kept p p1 bs" and sz: "p_size p < p_max p" "p_size p1 = p_size p + 1"
      by (auto simp: alloc_post_def)
    from alloc_post_used [OF inv post [unfolded page]] obtain bs' where u: "pool_inv pr p1 bs'" "e \<notin> used_slots p bs"
      "used_slots p1 bs' = insert e (used_slots p bs)" "set bs \<subseteq> set bs'" by (metis set_append Un_upper1 subset_refl)
    from element_at_slot [of pr p1 bs' e] u obtain el where
      el: "get_element e p1 = Some (Inr el, p1)" "me_phys (e_data el) = phys_of p1 e"
      by (auto simp: pool_inv_def)
    with run alloc page have r: "r = Inr e" "p' = p1\<lparr>p_data := (p_data p1)(phys_of p1 e \<mapsto> e)\<rparr>"
      by (simp_all add: mem_alloc_page_def prog_simps)
    have "unat (p_size p1) = unat (p_size p) + 1"
    proof -
      have "unat (p_size p) + 1 < 2 ^ 64" using sz(1) unat_less_64 [of "p_max p"] by (simp add: word_less_nat_alt)
      then show ?thesis using sz(2) by (simp add: unat_word_ariths)
    qed
    then have "lent pr p bs [e] p' bs'"
      using u block_phys_kept [OF kept] by (auto simp: lent_def r list_all_iff)
    with sz r show ?thesis by auto
  qed
qed

section \<open>The payload of one command\<close>

text \<open>Upper and lower half of every address, in order.\<close>

definition page_words :: "u64 list \<Rightarrow> u32 list" where
  "page_words as = concat (map (\<lambda>a. [ucast (drop_bit 32 a), ucast a]) as)"

lemma length_page_words [simp]: "length (page_words as) = 2 * length as"
  by (induction as) (simp_all add: page_words_def)

lemma page_words_append: "page_words (as @ bs) = page_words as @ page_words bs"
  by (simp add: page_words_def)

lemma payload_index:
  assumes "j < 3200"
  shows "unat (2 + of_nat j * 2 :: u32) = 2 + 2 * j" "unat (3 + of_nat j * 2 :: u32) = 3 + 2 * j"
  using assms by (simp_all add: unat_word_ariths unsigned_of_nat take_bit_nat_eq_self)

text \<open>Only the page pool and the machine change.\<close>

definition pages_frame :: "'h MLX5_Context \<Rightarrow> 'h MLX5_Context \<Rightarrow> bool" where
  "pages_frame c c' \<longleftrightarrow> c' = c\<lparr>mach := mach c', cq := cq c', mem_page_pool := mem_page_pool c'\<rparr>"

lemma pages_frame_refl [simp]: "pages_frame c c"
  by (simp add: pages_frame_def)

lemma pages_frame_trans: "pages_frame c c1 \<Longrightarrow> pages_frame c1 c2 \<Longrightarrow> pages_frame c c2"
  unfolding pages_frame_def by (cases c; cases c1; cases c2) simp

lemma pages_frame_cmd: "cmd_frame c c' \<Longrightarrow> pages_frame c c'"
  unfolding cmd_frame_def pages_frame_def by (cases c; cases c') simp

lemma provide_page_lent:
  assumes inv: "pool_inv pr (mem_page_pool c) bs" and j: "j < 3200" and len: "length buf = 6402"
    and run: "provide_page E j buf c = Some (Inr buf', c')"
  shows "\<exists>e bs'. lent pr (mem_page_pool c) bs [e] (mem_page_pool c') bs' \<and> pages_frame c c'
    \<and> buf' = buf[2 + 2 * j := ucast (drop_bit 32 (phys_of (mem_page_pool c') e)),
                 3 + 2 * j := ucast (phys_of (mem_page_pool c') e)]"
proof -
  from run obtain e c1 where alloc: "on_mem_pool (mem_alloc_page E) c = Some (Inr e, c1)"
    and rest: "bnd (on_mem_pool (on_pool (get_element e))) (\<lambda>el.
     let phys = me_phys (e_data el); k = of_nat j * 2 :: u32 in
     bnd (write_word buf (unat (2 + k)) (ucast (drop_bit 32 phys))) (\<lambda>buf.
     write_word buf (unat (2 + k + 1)) (ucast phys))) c1 = Some (Inr buf', c')"
    unfolding provide_page_def bnd_ok by blast
  from alloc obtain p' m' where a: "mem_alloc_page E (mem_page_pool c, mach c) = Some (Inr e, (p', m'))"
    and c1: "c1 = c\<lparr>mem_page_pool := p', mach := m'\<rparr>"
    unfolding on_mem_pool_def by (auto elim!: zoom_finished)
  from mem_alloc_page_lent [OF inv a] obtain bs' where l: "lent pr (mem_page_pool c) bs [e] p' bs'" by auto
  then have "pool_inv pr p' bs'" "e \<in> used_slots p' bs'" by (simp_all add: lent_def)
  then obtain el where "get_element e p' = Some (Inr el, p')" "me_phys (e_data el) = phys_of p' e"
    using element_at_slot [of pr p' bs' e] by (auto simp: pool_inv_def)
  with rest c1 j len have "c' = c1" "buf' = buf[2 + 2 * j := ucast (drop_bit 32 (phys_of p' e)), 3 + 2 * j := ucast (phys_of p' e)]"
    by (simp_all add: on_mem_pool_def prog_simps Let_def payload_index [OF j])
  with l c1 show ?thesis
    by (intro exI [of _ e] exI [of _ bs']) (simp add: pages_frame_def)
qed

lemma provide_page_loop:
  assumes inv: "pool_inv pr (mem_page_pool c) bs" and n: "n \<le> 3200" and len: "length buf = 6402"
    and run: "fold_m (provide_page E) [0..<n] buf c = Some (Inr buf', c')"
  shows "\<exists>es bs'. length es = n \<and> lent pr (mem_page_pool c) bs es (mem_page_pool c') bs' \<and> pages_frame c c'
    \<and> buf' = take 2 buf @ page_words (map (phys_of (mem_page_pool c')) es) @ drop (2 + 2 * n) buf"
  using n run
proof (induction n arbitrary: buf' c')
  case 0
  then show ?case
    using lent_refl [OF inv] by (intro exI [of _ "[]"] exI [of _ bs]) (simp add: prog_simps page_words_def)
next
  case (Suc n)
  from Suc.prems obtain b1 c1 where r1: "fold_m (provide_page E) [0..<n] buf c = Some (Inr b1, c1)"
    and r2: "provide_page E n b1 c1 = Some (Inr buf', c')"
    by (auto simp: prog_simps bnd_ok)
  from Suc.IH [OF _ r1] Suc.prems obtain es bs1 where IH: "length es = n"
    "lent pr (mem_page_pool c) bs es (mem_page_pool c1) bs1" "pages_frame c c1"
    "b1 = take 2 buf @ page_words (map (phys_of (mem_page_pool c1)) es) @ drop (2 + 2 * n) buf" by auto
  have inv1: "pool_inv pr (mem_page_pool c1) bs1" using IH(2) by (simp add: lent_def)
  have len1: "length b1 = 6402" using IH Suc.prems(1) len by simp
  from provide_page_lent [OF inv1 _ len1 r2] Suc.prems(1) obtain e bs2 where
    e: "lent pr (mem_page_pool c1) bs1 [e] (mem_page_pool c') bs2" "pages_frame c1 c'"
    "buf' = b1[2 + 2 * n := ucast (drop_bit 32 (phys_of (mem_page_pool c') e)), 3 + 2 * n := ucast (phys_of (mem_page_pool c') e)]"
    by auto
  have old: "map (phys_of (mem_page_pool c')) es = map (phys_of (mem_page_pool c1)) es"
    using lent_phys [OF e(1)] lent_blocks [OF IH(2)] by simp
  have d: "drop (2 + 2 * n) buf = buf ! (2 + 2 * n) # buf ! (3 + 2 * n) # drop (2 + 2 * Suc n) buf"
  proof -
    have "drop (2 + 2 * n) buf = buf ! (2 + 2 * n) # drop (Suc (2 + 2 * n)) buf"
      using len Suc.prems(1) by (intro Cons_nth_drop_Suc [symmetric]) simp
    moreover have "drop (3 + 2 * n) buf = buf ! (3 + 2 * n) # drop (Suc (3 + 2 * n)) buf"
      using len Suc.prems(1) by (intro Cons_nth_drop_Suc [symmetric]) simp
    moreover have "Suc (2 + 2 * n) = 3 + 2 * n" "Suc (3 + 2 * n) = 2 + 2 * Suc n" by simp_all
    ultimately show ?thesis by metis
  qed
  let ?w = "page_words (map (phys_of (mem_page_pool c1)) es)"
  have "buf' = take 2 buf @ page_words (map (phys_of (mem_page_pool c')) (es @ [e])) @ drop (2 + 2 * Suc n) buf"
    unfolding e(3) IH(4) d using len IH(1)
    by (simp add: list_update_append old page_words_append) (simp add: page_words_def)
  moreover note lent_trans [OF IH(2) e(1)] pages_frame_trans [OF IH(3) e(2)]
  ultimately show ?case using IH(1) by (intro exI [of _ "es @ [e]"] exI [of _ bs2]) simp
qed

section \<open>Commands and their number\<close>

text \<open>How many pages the \<open>i\<close>-th of \<open>cnt\<close> commands hands over.\<close>

definition round_pages :: "nat \<Rightarrow> nat \<Rightarrow> nat \<Rightarrow> nat" where
  "round_pages n cnt i = (if i = cnt - 1 \<and> n mod 3200 \<noteq> 0 then n mod 3200 else 3200)"

text \<open>
  What one round does, when it succeeds: it lends that many pages and issues a command with
  their number and all of their addresses.
\<close>

definition round_done :: "'h platform \<Rightarrow> nat option \<Rightarrow> nat list \<Rightarrow> nat \<Rightarrow> 'h MLX5_Context \<Rightarrow> 'h MLX5_Context \<Rightarrow> (nat \<times> nat) list \<Rightarrow> nat list \<Rightarrow> bool" where
  "round_done E pr bs k c c' es bs' \<longleftrightarrow> length es = k \<and> lent pr (mem_page_pool c) bs es (mem_page_pool c') bs'
     \<and> pages_frame c c'
     \<and> (\<exists>c1 buf slot. execute E MANAGE_PAGES 1 buf (of_nat (2 + 2 * k)) 2 c1 = Some (Inr slot, c')
          \<and> take (2 + 2 * k) buf = [0, of_nat k] @ page_words (map (phys_of (mem_page_pool c')) es))"

lemma provide_round_done:
  assumes inv: "pool_inv pr (mem_page_pool c) bs" and len: "length buf = 6402"
    and k: "(if of_nat i = cnt - 1 then if r \<noteq> 0 then r div 2 else 3200 else 3200) = (of_nat k :: u32)" "k \<le> 3200"
    and run: "provide_round E cnt r i buf c = Some (Inr buf', c')"
  shows "length buf' = 6402 \<and> (\<exists>es bs'. round_done E pr bs k c c' es bs')"
proof -
  have ppc: "(if of_nat i = cnt - 1 then if r \<noteq> 0 then r div 2 else IMB_MAX_DATA div 2 else IMB_MAX_DATA div 2) = (of_nat k :: u32)"
  proof -
    have "IMB_MAX_DATA div 2 = 3200" by simp
    with k(1) show ?thesis by metis
  qed
  have uk: "unat (of_nat k :: u32) = k" using k(2) by (simp add: unsigned_of_nat take_bit_nat_eq_self)
  let ?b = "buf[0 := 0, 1 := of_nat k]"
  from run obtain b1 c1 slot where r1: "fold_m (provide_page E) [0..<k] ?b c = Some (Inr b1, c1)"
    and r2: "execute E MANAGE_PAGES 1 b1 (2 + of_nat k * 2) 2 c1 = Some (Inr slot, c')" and b: "buf' = b1"
    unfolding provide_round_def ppc Let_def uk using len
    by (auto simp: prog_simps bnd_ok)
  from provide_page_loop [OF inv k(2) _ r1] len obtain es bs' where l: "length es = k"
    "lent pr (mem_page_pool c) bs es (mem_page_pool c1) bs'" "pages_frame c c1"
    "b1 = take 2 ?b @ page_words (map (phys_of (mem_page_pool c1)) es) @ drop (2 + 2 * k) ?b" by auto
  have t: "take 2 ?b = [0, of_nat k]" using len by (cases buf; cases "tl buf") (auto simp: numeral_2_eq_2)
  have same: "mem_page_pool c' = mem_page_pool c1" by (rule command.exec_pools [OF r2])
  have "pages_frame c c'"
    using pages_frame_trans [OF l(3) pages_frame_cmd [OF command.exec_frame [OF r2]]] .
  moreover have "(2 + of_nat k * 2 :: u32) = of_nat (2 + 2 * k)" by simp
  moreover have "length b1 = 6402" using l len k(2) by simp
  ultimately show ?thesis
    using l t same r2 b len unfolding round_done_def
    by (intro conjI, simp, intro exI [of _ es] exI [of _ bs'] conjI, simp_all,
        intro exI [of _ c1] exI [of _ b1] exI [of _ slot], simp)
qed

lemma page_count_split:
  fixes w :: u32
  assumes "2 * unat w < 2 ^ 32"
  defines "r \<equiv> (w * 2) mod IMB_MAX_DATA" and "cnt \<equiv> (w * 2) div IMB_MAX_DATA + (if (w * 2) mod IMB_MAX_DATA \<noteq> 0 then 1 else 0)"
  shows "unat cnt = (unat w + 3199) div 3200"
    and "i < unat cnt \<Longrightarrow> (if of_nat i = cnt - 1 then if r \<noteq> 0 then r div 2 else 3200 else 3200) = of_nat (round_pages (unat w) (unat cnt) i)"
proof -
  define n where "n = unat w"
  have n: "n < 2 ^ 31" using assms(1) by (simp add: n_def)
  have w2: "unat (w * 2) = 2 * n" using assms(1) by (simp add: n_def unat_word_ariths)
  have dv: "2 * n div 6400 = n div 3200" "2 * n mod 6400 = 2 * (n mod 3200)"
    using div_mult_mult1 [of 2 n 3200] mult_mod_right [of 2 n 3200] by simp_all
  have q: "unat ((w * 2) div 6400) = n div 3200" by (simp add: unat_div_distrib w2 dv)
  have ur: "unat r = 2 * (n mod 3200)" by (simp add: r_def unat_mod_distrib w2 dv)
  then have r0: "r = 0 \<longleftrightarrow> n mod 3200 = 0" by (simp add: unat_eq_0 [symmetric])
  have cnt0: "cnt = (w * 2) div 6400 + (if r \<noteq> 0 then 1 else 0)" by (simp add: cnt_def r_def)
  have "n div 3200 < 2 ^ 31" using n by (meson div_le_dividend le_less_trans)
  then have ucnt: "unat cnt = n div 3200 + (if n mod 3200 \<noteq> 0 then 1 else 0)"
    unfolding cnt0 using r0 by (simp add: unat_word_ariths(1) q)
  have "(n + 3199) div 3200 = n div 3200 + (if n mod 3200 \<noteq> 0 then 1 else 0)"
  proof -
    have "n + 3199 = (n mod 3200 + 3199) + n div 3200 * 3200" by simp
    then have "(n + 3199) div 3200 = (n mod 3200 + 3199) div 3200 + n div 3200" by (metis div_mult_self1 add.commute zero_neq_numeral)
    moreover have "(n mod 3200 + 3199) div 3200 = (if n mod 3200 \<noteq> 0 then 1 else 0)"
    proof (cases "n mod 3200 = 0")
      case False
      moreover have "n mod 3200 < 3200" by simp
      ultimately show ?thesis by (intro div_nat_eqI [THEN trans]) auto
    qed simp
    ultimately show ?thesis by simp
  qed
  with ucnt show "unat cnt = (unat w + 3199) div 3200" by (simp add: n_def)
  assume i: "i < unat cnt"
  have iw: "of_nat i = cnt - 1 \<longleftrightarrow> i = unat cnt - 1"
  proof -
    have "unat cnt < 2 ^ 32" using unsigned_less [of cnt] by simp
    then have "unat (of_nat i :: u32) = i" using i by (simp add: unsigned_of_nat take_bit_nat_eq_self)
    moreover have "1 \<le> cnt" using i by (simp add: word_le_nat_alt)
    then have "unat (cnt - 1) = unat cnt - 1" by (simp add: unat_sub)
    ultimately show ?thesis by (metis word_unat_eq_iff)
  qed
  have "r div 2 = of_nat (n mod 3200)"
  proof -
    have "unat (r div 2) = n mod 3200" by (simp add: unat_div_distrib ur)
    then show ?thesis by (metis of_nat_unat ucast_id)
  qed
  then show "(if of_nat i = cnt - 1 then if r \<noteq> 0 then r div 2 else 3200 else 3200) = of_nat (round_pages (unat w) (unat cnt) i)"
    using r0 iw by (simp add: round_pages_def n_def)
qed

section \<open>All commands together\<close>

lemma round_pages_sum: "sum_list (map (round_pages n ((n + 3199) div 3200)) [0..<(n + 3199) div 3200]) = n"
proof -
  define cnt where "cnt = (n + 3199) div 3200"
  show ?thesis
  proof (cases cnt)
    case 0
    then have "n = 0" by (auto simp: cnt_def div_eq_0_iff)
    then show ?thesis by simp
  next
    case (Suc q)
    have "map (round_pages n cnt) [0..<q] = map (\<lambda>_. 3200) [0..<q]"
      by (rule map_cong) (auto simp: round_pages_def Suc)
    then have "sum_list (map (round_pages n cnt) [0..<cnt]) = 3200 * q + round_pages n cnt q"
      by (simp add: Suc sum_list_triv del: map_eq_conv)
    also have "\<dots> = n"
    proof (cases "n mod 3200 = 0")
      case True
      then obtain k where "n = 3200 * k" by auto
      moreover have "(3199 + 3200 * k) div 3200 = k" by simp
      ultimately show ?thesis using Suc by (simp add: round_pages_def cnt_def add.commute)
    next
      case False
      have "n + 3199 = (n mod 3200 - 1) + (n div 3200 + 1) * 3200"
      proof -
        obtain a where a: "n mod 3200 = Suc a" using False not0_implies_Suc by blast
        have "n = n div 3200 * 3200 + n mod 3200" by simp
        then show ?thesis unfolding a by simp
      qed
      then have "cnt = (n mod 3200 - 1) div 3200 + (n div 3200 + 1)"
        unfolding cnt_def by (metis div_mult_self1 add.commute zero_neq_numeral)
      moreover have "(n mod 3200 - 1) div 3200 = 0"
      proof -
        have "n mod 3200 < 3200" by simp
        then show ?thesis by (simp add: less_imp_diff_less)
      qed
      ultimately have "q = n div 3200" using Suc by simp
      with False Suc show ?thesis by (simp add: round_pages_def)
    qed
    finally show ?thesis unfolding cnt_def .
  qed
qed

lemma provide_rounds:
  fixes w :: u32
  assumes inv: "pool_inv pr (mem_page_pool c) bs" and len: "length buf = 6402" and w: "2 * unat w < 2 ^ 32"
    and cnt: "cnt = (w * 2) div IMB_MAX_DATA + (if (w * 2) mod IMB_MAX_DATA \<noteq> 0 then 1 else 0)"
    and i: "i \<le> unat cnt"
    and run: "fold_m (provide_round E cnt ((w * 2) mod IMB_MAX_DATA)) [0..<i] buf c = Some (Inr buf', c')"
  shows "length buf' = 6402 \<and> (\<exists>es bs'. length es = sum_list (map (round_pages (unat w) (unat cnt)) [0..<i])
    \<and> lent pr (mem_page_pool c) bs es (mem_page_pool c') bs' \<and> pages_frame c c')"
  using i run
proof (induction i arbitrary: buf' c')
  case 0
  then show ?case
    using lent_refl [OF inv] len by (simp add: prog_simps) (metis list.size(3) pages_frame_refl)
next
  case (Suc i)
  let ?r = "(w * 2) mod IMB_MAX_DATA"
  from Suc.prems obtain b1 c1 where r1: "fold_m (provide_round E cnt ?r) [0..<i] buf c = Some (Inr b1, c1)"
    and r2: "provide_round E cnt ?r i b1 c1 = Some (Inr buf', c')"
    by (auto simp: prog_simps bnd_ok)
  from Suc.IH [OF _ r1] Suc.prems obtain es bs1 where IH: "length b1 = 6402"
    "length es = sum_list (map (round_pages (unat w) (unat cnt)) [0..<i])"
    "lent pr (mem_page_pool c) bs es (mem_page_pool c1) bs1" "pages_frame c c1" by auto
  have inv1: "pool_inv pr (mem_page_pool c1) bs1" using IH(3) by (simp add: lent_def)
  have k: "(if of_nat i = cnt - 1 then if ?r \<noteq> 0 then ?r div 2 else 3200 else 3200) = of_nat (round_pages (unat w) (unat cnt) i)"
    using page_count_split(2) [OF w, of i] Suc.prems(1) unfolding cnt by simp
  have "n mod 3200 < 3200" for n :: nat by simp
  then have "round_pages (unat w) (unat cnt) i \<le> 3200" by (simp add: round_pages_def less_imp_le)
  from provide_round_done [OF inv1 IH(1) k this r2] obtain es' bs2 where
    fin: "length buf' = 6402" "length es' = round_pages (unat w) (unat cnt) i"
    "lent pr (mem_page_pool c1) bs1 es' (mem_page_pool c') bs2" "pages_frame c1 c'"
    by (auto simp: round_done_def)
  with fin(1,2) lent_trans [OF IH(3) fin(3)] pages_frame_trans [OF IH(4) fin(4)] IH(2)
  show ?case by (intro conjI exI [of _ "es @ es'"] exI [of _ bs2]) simp_all
qed

lemma provide_pages_lent:
  assumes inv: "pool_inv pr (mem_page_pool c) bs" and n: "2 * unat n < 2 ^ 32"
    and run: "provide_pages E n c = Some (Inr (), c')"
  shows "\<exists>es bs'. length es = unat n \<and> lent pr (mem_page_pool c) bs es (mem_page_pool c') bs' \<and> pages_frame c c'"
proof -
  let ?cnt = "(n * 2) div IMB_MAX_DATA + (if (n * 2) mod IMB_MAX_DATA \<noteq> 0 then 1 else 0)"
  from run obtain buf' where "fold_m (provide_round E ?cnt ((n * 2) mod IMB_MAX_DATA)) [0..<unat ?cnt]
      (words_at (stack_junk E (mach c)) 6402) c = Some (Inr buf', c')"
    unfolding provide_pages_def stack_array_def Let_def
    by (auto simp: prog_simps bnd_ok) 
  from provide_rounds [OF inv _ n refl order_refl this]
  obtain es bs' where "length es = sum_list (map (round_pages (unat n) (unat ?cnt)) [0..<unat ?cnt])"
    "lent pr (mem_page_pool c) bs es (mem_page_pool c') bs'" "pages_frame c c'" by auto
  moreover have "unat ?cnt = (unat n + 3199) div 3200" by (rule page_count_split(1) [OF n])
  ultimately show ?thesis using round_pages_sum [of "unat n"] by metis
qed

end
