(* ===== verification/Handler_Correct.thy ===== *)
theory Handler_Correct
  imports Driver_Facts Driver_Pages
begin

text \<open>
  One round of the handler of page requests, composed of the interrupt, the event queue and the
  page pool.
\<close>

text \<open>The entry at the head of the event queue, and whether the device still owns it.\<close>

definition head_entry :: "EQ_CTX QOP_ED \<Rightarrow> u64" where
  "head_entry q = eqe_at (q_start q) (ucast (q_head q))"

definition entry_owned :: "EQ_CTX QOP_ED \<Rightarrow> 'h machine \<Rightarrow> bool" where
  "entry_owned q m \<longleftrightarrow> bit (ioread32be (reg (head_entry q) eqe_ctrl) m) 0"

text \<open>The number of pages the event at the head asks for.\<close>

definition requested :: "EQ_CTX QOP_ED \<Rightarrow> 'h machine \<Rightarrow> u32" where
  "requested q m = ioread32be (reg (head_entry q) (eqe_data 1)) m"

lemma eq_at_mach [simp]: "eq_at (c\<lparr>mach := m\<rparr>) n e q = eq_at c n e q"
  by (simp add: eq_at_def)

lemma eqe_owned_by_hw_run:
  assumes "eq_at c eq_number e q"
  shows "eqe_owned_by_hw eq_number c = Some (Inr (entry_owned q (mach c)), c)"
proof -
  have m: "w AND EQC_OWNERSHIP_MASK \<noteq> 0 \<longleftrightarrow> bit w 0" for w :: u32
    by (simp add: and_one_eq bit_0 mod2_eq_if)
  show ?thesis
    unfolding eqe_owned_by_hw_def
      bnd_Inr [where m = "event_queue_data eq_number" and s = c, OF event_queue_data_run(2) [OF assms]]
    by (simp add: on_mach_def zoom_def gets_def bnd_def ret_def m entry_owned_def head_entry_def)
qed

lemma handler_round_idle:
  assumes "eq_at c eq_number e q" "entry_owned q (irq_receive I irq (mach c))"
  shows "handler_round E I irq eq_number c = Some (Inr (), c\<lparr>mach := irq_receive I irq (mach c)\<rparr>)"
proof -
  let ?c = "c\<lparr>mach := irq_receive I irq (mach c)\<rparr>"
  have "eqe_owned_by_hw eq_number ?c = Some (Inr True, ?c)"
    using eqe_owned_by_hw_run [of ?c eq_number e q] assms by simp
  then have "bnd (eqe_owned_by_hw eq_number) k ?c = k True ?c" for k :: "bool \<Rightarrow> ('a, unit) driver"
    by (simp add: bnd_def)
  then show ?thesis by (simp add: handler_round_def on_mach_def prog_simps)
qed

lemma handler_round_event:
  assumes "eq_at c eq_number e q" "\<not> entry_owned q (irq_receive I irq (mach c))"
  shows "\<exists>c1. handler_round E I irq eq_number c = answer_page_request E (requested q (irq_receive I irq (mach c))) c1
    \<and> c1 = c\<lparr>mach := irq_receive I irq (mach c), event_queue_pool := event_queue_pool c1\<rparr>
    \<and> eq_at c1 eq_number e (snd (enqueue q))"
proof -
  let ?m = "irq_receive I irq (mach c)" let ?c = "c\<lparr>mach := ?m\<rparr>"
  have "eqe_owned_by_hw eq_number ?c = Some (Inr False, ?c)"
    using eqe_owned_by_hw_run [of ?c eq_number e q] assms by simp
  then have o: "bnd (eqe_owned_by_hw eq_number) k ?c = k False ?c" for k :: "bool \<Rightarrow> ('a, unit) driver"
    by (simp add: bnd_def)
  have at: "eq_at ?c eq_number e q" using assms(1) by simp
  from read_eqe_run [OF at] obtain c1 where r: "read_eqe eq_number ?c =
      Some (Inr (eqe_words (q_start q) (unat (q_head q)) ?m), c1)" "c1 = ?c\<lparr>event_queue_pool := event_queue_pool c1\<rparr>"
    "eq_at c1 eq_number e (snd (enqueue q))" by auto
  have "(of_nat (unat w) :: u64) = ucast w" for w :: u32 by simp
  then have "eqe_words (q_start q) (unat (q_head q)) ?m ! 1 = requested q ?m"
    by (simp add: eqe_words_def requested_def head_entry_def)
  with o r have "handler_round E I irq eq_number c = answer_page_request E (requested q ?m) c1"
    by (simp add: handler_round_def on_mach_def prog_simps)
  with r show ?thesis by (intro exI [of _ c1]) simp
qed

lemma positive_sint:
  assumes "0 < sint (w :: u32)"
  shows "int (unat w) = sint w" "2 * unat w < 2 ^ 32"
proof -
  have "sint w < 2 ^ 31" using sint_lt [of w] by simp
  moreover have "uint w = take_bit 32 (sint w)" using uint_sint [of w] by simp
  ultimately have "uint w = sint w" "uint w < 2 ^ 31" using assms by (simp_all add: take_bit_int_eq_self)
  then show "int (unat w) = sint w" "2 * unat w < 2 ^ 32" using assms by (simp_all add: unat_eq_nat_uint)
qed

lemma pages_frame_events: "pages_frame c c' \<Longrightarrow> event_queue_pool c' = event_queue_pool c"
  unfolding pages_frame_def by (erule ssubst) simp

text \<open>A request for pages is answered with exactly that many.\<close>

lemma handler_round_pages:
  assumes at: "eq_at c eq_number e q" and inv: "pool_inv pr (mem_page_pool c) bs"
    and ev: "\<not> entry_owned q (irq_receive I irq (mach c))" "0 < sint (requested q (irq_receive I irq (mach c)))"
    and run: "handler_round E I irq eq_number c = Some (Inr (), c')"
  shows "\<exists>es bs'. int (length es) = sint (requested q (irq_receive I irq (mach c)))
    \<and> lent pr (mem_page_pool c) bs es (mem_page_pool c') bs' \<and> eq_at c' eq_number e (snd (enqueue q))"
proof -
  let ?w = "requested q (irq_receive I irq (mach c))"
  from handler_round_event [OF at ev(1), of E] obtain c1 where c1:
    "handler_round E I irq eq_number c = answer_page_request E ?w c1"
    "c1 = c\<lparr>mach := irq_receive I irq (mach c), event_queue_pool := event_queue_pool c1\<rparr>"
    "eq_at c1 eq_number e (snd (enqueue q))" by blast
  have p: "mem_page_pool c1 = mem_page_pool c" by (subst c1(2)) simp
  have w: "int (unat ?w) = sint ?w" "2 * unat ?w < 2 ^ 32"
    using positive_sint [OF ev(2)] by simp_all
  from run ev(2) have "provide_pages E ?w c1 = Some (Inr (), c')" unfolding c1(1) by (simp add: answer_page_request_def)
  with provide_pages_lent [of pr c1 bs ?w E c'] inv w p obtain es bs' where es:
    "length es = unat ?w" "lent pr (mem_page_pool c) bs es (mem_page_pool c') bs'" "pages_frame c1 c'" by auto
  from es(3) have "event_queue_pool c' = event_queue_pool c1" by (rule pages_frame_events)
  with c1(3) have "eq_at c' eq_number e (snd (enqueue q))" by (simp add: eq_at_def)
  moreover have "int (length es) = sint ?w" using es(1) w(1) by (simp only:)
  ultimately show ?thesis using es(2) by blast
qed

end
