(* ===== verification/Event_Correct.thy ===== *)
theory Event_Correct
  imports Driver_Facts
begin

text \<open>
  \<open>create_eq\<close> as a whole: the queue it allocates, the command it executes, the queue that is
  there afterwards.
\<close>

section \<open>Parts\<close>

text \<open>\<open>queue_pages\<close> for the size of a queue of the event pool.\<close>

lemma event_pages_run: "queue_pages sz PAGE_EQE_COUNT s = Some (Inr (page_count_of sz 64), s)"
  using queue_pages_run [of 64 sz s] by (simp add: page_count_of_def)

definition type_bit :: "u32 \<Rightarrow> u64" where
  "type_bit t = (if t = 0 then 0 else push_bit (unat t) 1)"

lemma event_mask_run:
  "unat t < 64 \<Longrightarrow> event_mask t s = Some (Inr (type_bit t), s)"
  by (simp add: event_mask_def type_bit_def prog_simps)

text \<open>The two words of output of a command.\<close>

lemma get_two_words:
  "length out = 2 \<Longrightarrow> get_cmd_output slot out 2 c = Some (Inr
     [ioread32be (reg (cqe_at (cq c) slot) (cod_output 0)) (mach c),
      ioread32be (reg (cqe_at (cq c) slot) (cod_output 1)) (mach c)], c)"
  by (auto simp: get_cmd_output_def prog_simps on_mach_def length_Suc_conv numeral_2_eq_2)

lemma event_queue_upd:
  assumes "elem_at (event_queue_pool c) e = Some el"
  shows "on_event_pool (on_pool (get_element e)) c = Some (Inr el, c)"
    and "on_event_pool (put_data e f) c = Some (Inr (), c\<lparr>event_queue_pool := set_data e f (event_queue_pool c)\<rparr>)"
  using assms by (simp_all add: prog_simps)

lemma uar_page_at:
  assumes "elem_at (uar_page_pool c) up = Some ul"
  shows "on_event_pool (on_env (on_pool (get_element up))) c = Some (Inr ul, c)"
  using assms by (simp add: prog_simps)

lemma cmd_frame_events: "cmd_frame c c' \<Longrightarrow> event_queue_pool c' = event_queue_pool c"
  unfolding cmd_frame_def by (erule ssubst) simp

text \<open>A queue that is put into the index under its number is found there.\<close>

lemma index_queue_run:
  assumes "elem_at (event_queue_pool c) e = Some el"
  shows "\<exists>c'. on_event_pool (index_queue e) c = Some (Inr (), c') \<and> eq_at c' (qo_id (e_data el)) e (e_data el)"
proof -
  let ?p = "event_queue_pool c"
  let ?c = "c\<lparr>event_queue_pool := ?p\<lparr>p_data := (p_data ?p)\<lparr>q_index := (q_index (p_data ?p))
    (ucast (qo_id (e_data el)) \<mapsto> Some e)\<rparr>\<rparr>\<rparr>"
  have "on_event_pool (index_queue e) c = Some (Inr (), ?c)"
    using assms by (simp add: index_queue_def prog_simps)
  moreover have "eq_at ?c (qo_id (e_data el)) e (e_data el)"
    using assms by (simp add: eq_at_def elem_at_def)
  ultimately show ?thesis by blast
qed

section \<open>Creating an event queue\<close>

text \<open>
  The payload of \<open>CREATE_EQ\<close> for a queue of \<open>pc\<close> pages from \<open>phys\<close> on: the input structure, the
  first \<open>pc\<close> of the \<open>2 * pc\<close> words of the list, and, up to the length sent, what the local
  array held before.
\<close>

definition eq_payload :: "nat \<Rightarrow> u32 \<Rightarrow> u32 \<Rightarrow> u32 \<Rightarrow> u32 \<Rightarrow> u64 \<Rightarrow> u32 list \<Rightarrow> u32 list" where
  "eq_payload k uar_index irq t pc phys junk =
     make_eqi k uar_index irq (type_bit t)
       @ take (unat pc) (pas_words phys (unat pc)) @ drop (66 + unat pc) junk"

lemma make_eqi_length [simp]: "length (make_eqi k u i t) = 66"
  by (simp add: make_eqi_def)

lemma eq_payload_built:
  assumes "queue_built E sz pc dm up d" "unat pc \<le> 31" "length junk = 128"
  shows "copy_pas (qo_pas_list d) 66 pc (make_eqi k u irq (type_bit t) @ drop 66 junk) s =
    Some (Inr (eq_payload k u irq t pc (dm_phys dm) junk), s)"
proof -
  have "copy_pas (qo_pas_list d) 66 pc (make_eqi k u irq (type_bit t) @ drop 66 junk) s =
    Some (Inr (take 66 (make_eqi k u irq (type_bit t) @ drop 66 junk) @ take (unat pc) (qo_pas_list d)
      @ drop (66 + unat pc) (make_eqi k u irq (type_bit t) @ drop 66 junk)), s)"
    using assms by (intro copy_pas_run) (simp_all add: queue_built_def)
  then show ?thesis using assms(1) by (simp add: queue_built_def eq_payload_def add.commute)
qed

text \<open>From the new queue to the command.\<close>

lemma create_eq_front:
  fixes c :: "'h MLX5_Context"
  assumes alloc: "on_event_pool (alloc_queue E sz) c = Some (Inr e, c0)" "elem_at (event_queue_pool c0) e = Some el"
    and built: "queue_built E sz pc dm up (e_data el)" and uar: "elem_at (uar_page_pool c0) up = Some ul"
    and pc: "pc = page_count_of sz 64" "unat pc \<le> 31" and t: "unat t < 64" and k: "\<And>s :: 'h MLX5_Context. log2 sz s = Some (Inr k, s)"
  shows "\<exists>c1. create_eq E sz t irq c = bnd (execute E CREATE_EQ 0
        (eq_payload k (u_index (e_data ul)) irq t pc (dm_phys dm) (words_at (stack_junk E (mach c0)) 128)) (66 + pc * 2) 2) (\<lambda>slot.
      bnd (stack_array E 2) (\<lambda>output.
      bnd (get_cmd_output slot output 2) (\<lambda>output.
      andthen (on_event_pool (put_data e (\<lambda>d. d\<lparr>qo_id := output ! 0\<rparr>)))
     (andthen (on_event_pool (index_queue e)) (ret (output ! 0)))))) c1
    \<and> elem_at (event_queue_pool c1) e = Some (el\<lparr>e_data := (e_data el)\<lparr>qo_q_ctx := \<lparr>eq_irq_num = irq, eq_type = t\<rparr>\<rparr>\<rparr>)
    \<and> init_eq (e_data el) (mach c0) = Some (Inr (), mach c1) \<and> uar_page_pool c1 = uar_page_pool c0
    \<and> c1 = c0\<lparr>event_queue_pool := event_queue_pool c1, mach := mach c1\<rparr>"
proof -
  let ?f = "\<lambda>d. d\<lparr>qo_q_ctx := \<lparr>eq_irq_num = irq, eq_type = t\<rparr>\<rparr> :: EQ_CTX QOP_ED"
  let ?ca = "c0\<lparr>event_queue_pool := set_data e ?f (event_queue_pool c0)\<rparr>"
  let ?el = "el\<lparr>e_data := ?f (e_data el)\<rparr>"
  have el: "elem_at (event_queue_pool ?ca) e = Some ?el" using alloc(2) by simp
  have d: "q_size (?f (e_data el)) = sz" "qo_uarp (?f (e_data el)) = Some up" "qo_pas_list (?f (e_data el)) = qo_pas_list (e_data el)"
    using built by (simp_all add: queue_built_def)
  have large: "\<not> pc > (128 - EQI_SIZE) div 2" using pc(2) by (simp add: word_less_nat_alt)
  obtain m1 where m1: "init_eq (e_data el) (mach c0) = Some (Inr (), m1)" by (simp add: init_eq_def prog_simps)
  let ?c1 = "?ca\<lparr>mach := m1\<rparr>"
  have i: "on_mach (init_eq (?f (e_data el))) ?ca = Some (Inr (), ?c1)"
    using m1 by (simp add: on_mach_def init_eq_def prog_simps)
  have st: "stack_array E 128 ?ca = Some (Inr (words_at (stack_junk E (mach c0)) 128), ?ca)"
    by (simp add: stack_array_def prog_simps)
  have len: "length (words_at (stack_junk E (mach c0)) 128) = 128" by (simp add: words_at_def)
  have u: "on_event_pool (on_env (on_pool (get_element up))) ?ca = Some (Inr ul, ?ca)"
    using uar by (intro uar_page_at) simp
  have "create_eq E sz t irq c = bnd (execute E CREATE_EQ 0
        (eq_payload k (u_index (e_data ul)) irq t pc (dm_phys dm) (words_at (stack_junk E (mach c0)) 128)) (66 + pc * 2) 2) (\<lambda>slot.
      bnd (stack_array E 2) (\<lambda>output.
      bnd (get_cmd_output slot output 2) (\<lambda>output.
      andthen (on_event_pool (put_data e (\<lambda>d. d\<lparr>qo_id := output ! 0\<rparr>)))
     (andthen (on_event_pool (index_queue e)) (ret (output ! 0)))))) ?c1"
    unfolding create_eq_def Let_def bnd_Inr [where m = "on_event_pool (alloc_queue E sz)", OF alloc(1)] andthen_run
      bnd_Inr [where m = "on_event_pool (put_data e ?f)", OF event_queue_upd(2) [OF alloc(2)]]
      bnd_Inr [where m = "on_event_pool (on_pool (get_element e))", OF event_queue_upd(1) [OF el]]
    using large
    by (simp add: eq_payload_built [OF built pc(2) len] d event_pages_run pc(1) [symmetric] deref_def k u event_mask_run [OF t] st i prog_simps cong: if_cong)
  with el m1 show ?thesis by (intro exI [of _ ?c1]) simp
qed

text \<open>From the command to the number of the queue, which is then in the index.\<close>

definition eq_number_of :: "u32 \<Rightarrow> 'h MLX5_Context \<Rightarrow> u32" where
  "eq_number_of slot c = ioread32be (reg (cqe_at (cq c) slot) (cod_output 0)) (mach c)"

lemma create_eq_end:
  assumes "elem_at (event_queue_pool c) e = Some el"
  shows "\<exists>c'. bnd (stack_array E 2) (\<lambda>output.
      bnd (get_cmd_output slot output 2) (\<lambda>output.
      andthen (on_event_pool (put_data e (\<lambda>d. d\<lparr>qo_id := output ! 0\<rparr>)))
     (andthen (on_event_pool (index_queue e)) (ret (output ! 0))))) c = Some (Inr (eq_number_of slot c), c')
    \<and> eq_at c' (eq_number_of slot c) e ((e_data el)\<lparr>qo_id := eq_number_of slot c\<rparr>)"
proof -
  let ?n = "eq_number_of slot c" let ?f = "\<lambda>d. d\<lparr>qo_id := ?n\<rparr> :: EQ_CTX QOP_ED"
  let ?c = "c\<lparr>event_queue_pool := set_data e ?f (event_queue_pool c)\<rparr>"
  have "elem_at (event_queue_pool ?c) e = Some (el\<lparr>e_data := ?f (e_data el)\<rparr>)" using assms by simp
  from index_queue_run [OF this] obtain c' where c': "on_event_pool (index_queue e) ?c = Some (Inr (), c')"
    "eq_at c' ?n e (?f (e_data el))" by auto
  have "bnd (stack_array E 2) (\<lambda>output. bnd (get_cmd_output slot output 2) (\<lambda>output.
      andthen (on_event_pool (put_data e (\<lambda>d. d\<lparr>qo_id := output ! 0\<rparr>)))
     (andthen (on_event_pool (index_queue e)) (ret (output ! 0))))) c = Some (Inr ?n, c')"
    using event_queue_upd(2) [OF assms, of ?f] c'(1)
    by (simp add: stack_array_def prog_simps get_two_words words_at_def eq_number_of_def)
  with c'(2) show ?thesis by blast
qed

text \<open>
  What \<open>create_eq\<close> comes to, for a queue of one to 31 pages and an event type of the mask:
  the overrun of \<open>alloc_queue\<close>, the error of the command, or the queue in the index.
\<close>

lemma create_eq_outcome:
  fixes c :: "'h MLX5_Context"
  assumes inv: "pool_inv pr (event_queue_pool c) bs" "p_size (event_queue_pool c) \<noteq> p_max (event_queue_pool c)"
    and uinv: "uar_inv ur (uar_page_pool c) us" "p_size (uar_page_pool c) \<noteq> p_max (uar_page_pool c)"
    and pec: "page_entry_count (p_data (event_queue_pool c)) = 64"
    and sz: "sz \<noteq> 0" "pc = page_count_of sz 64" "unat pc \<le> 31" "unat t < 64"
    and dma: "alloc_dma_mem E (ucast (4096 * pc)) (mach c) = Some (Inr dm, m')"
  shows "\<exists>e d up ul k c1. e \<notin> used_slots (event_queue_pool c) bs \<and> up \<notin> used_slots (uar_page_pool c) us
    \<and> 2 ^ k \<le> unat sz \<and> unat sz < 2 ^ Suc k
    \<and> (if length (malloc_words E (unat pc)) < 2 * unat pc
       then create_eq E sz t irq c = Some (Inl (Undefined ''array index''), c1)
       else queue_built E sz pc dm up d \<and> init_eq d m' = Some (Inr (), mach c1)
         \<and> elem_at (uar_page_pool c1) up = Some ul
         \<and> c1 = c\<lparr>event_queue_pool := event_queue_pool c1, uar_page_pool := uar_page_pool c1, mach := mach c1\<rparr> \<and>
         (case execute E CREATE_EQ 0 (eq_payload k (u_index (e_data ul)) irq t pc (dm_phys dm) (words_at (stack_junk E m') 128)) (66 + pc * 2) 2 c1 of
            None \<Rightarrow> create_eq E sz t irq c = None
          | Some (Inl err, c2) \<Rightarrow> create_eq E sz t irq c = Some (Inl err, c2)
          | Some (Inr slot, c2) \<Rightarrow> \<exists>c'. create_eq E sz t irq c = Some (Inr (eq_number_of slot c2), c')
              \<and> eq_at c' (eq_number_of slot c2) e (d\<lparr>qo_q_ctx := \<lparr>eq_irq_num = irq, eq_type = t\<rparr>, qo_id := eq_number_of slot c2\<rparr>)))"
proof -
  let ?p = "event_queue_pool c"
  obtain k where k: "log2 sz () = Some (Inr k, ())" "2 ^ k \<le> unat sz" "unat sz < 2 ^ Suc k"
    using log2_run [OF sz(1), of "()"] by blast
  then have lg: "log2 sz s = Some (Inr k, s)" for s :: "'h MLX5_Context"
    by (auto simp: log2_def prog_simps split: option.splits)
  have pc: "pc = page_count_of sz (page_entry_count (p_data ?p))" "unat pc \<le> 2 ^ 20" "page_entry_count (p_data ?p) \<noteq> 0"
    using sz pec by simp_all
  from alloc_queue_outcome [OF inv uinv pc(3,1) dma pc(2)] obtain r e p' u' bs' us' up el where
    run: "alloc_queue E sz (?p, (uar_page_pool c, mach c)) = Some (r, (p', (u', m')))"
    and e: "e \<notin> used_slots ?p bs" "up \<notin> used_slots (uar_page_pool c) us" "elem_at p' e = Some el"
    and u: "uar_inv ur u' us'" "used_slots u' us' = insert up (used_slots (uar_page_pool c) us)"
    and out: "if 2 * unat pc \<le> length (malloc_words E (unat pc)) then r = Inr e \<and> queue_built E sz pc dm up (e_data el)
       else r = Inl (Undefined ''array index'')" by metis
  let ?c0 = "c\<lparr>event_queue_pool := p', uar_page_pool := u', mach := m'\<rparr>"
  have run: "on_event_pool (alloc_queue E sz) c = Some (r, ?c0)" using run by (rule on_event_pool_run)
  have "up \<in> used_slots u' us'" "pool_inv ur u' us'" using u by (simp_all add: uar_inv_def)
  then obtain ul where ul: "elem_at u' up = Some ul" using elem_at_used by metis
  show ?thesis
  proof (cases "length (malloc_words E (unat pc)) < 2 * unat pc")
    case True
    then have "create_eq E sz t irq c = Some (Inl (Undefined ''array index''), ?c0)"
      using run out by (simp add: create_eq_def prog_simps)
    with True e k show ?thesis by fastforce
  next
    case False
    then have r: "r = Inr e" "queue_built E sz pc dm up (e_data el)" using out by simp_all
    from create_eq_front [OF run [unfolded r(1)] _ r(2) _ sz(2-4) lg, where ul = ul and irq = irq] e(3) ul obtain c1 where c1:
      "create_eq E sz t irq c = bnd (execute E CREATE_EQ 0
        (eq_payload k (u_index (e_data ul)) irq t pc (dm_phys dm) (words_at (stack_junk E m') 128)) (66 + pc * 2) 2) (\<lambda>slot.
      bnd (stack_array E 2) (\<lambda>output.
      bnd (get_cmd_output slot output 2) (\<lambda>output.
      andthen (on_event_pool (put_data e (\<lambda>d. d\<lparr>qo_id := output ! 0\<rparr>)))
     (andthen (on_event_pool (index_queue e)) (ret (output ! 0)))))) c1"
      "elem_at (event_queue_pool c1) e = Some (el\<lparr>e_data := (e_data el)\<lparr>qo_q_ctx := \<lparr>eq_irq_num = irq, eq_type = t\<rparr>\<rparr>\<rparr>)"
      "init_eq (e_data el) m' = Some (Inr (), mach c1)" "uar_page_pool c1 = u'"
      "c1 = ?c0\<lparr>event_queue_pool := event_queue_pool c1, mach := mach c1\<rparr>" by auto
    have frame: "c1 = c\<lparr>event_queue_pool := event_queue_pool c1, uar_page_pool := uar_page_pool c1, mach := mach c1\<rparr>"
      using c1(4,5) by (cases c1; cases c) simp
    have "case execute E CREATE_EQ 0 (eq_payload k (u_index (e_data ul)) irq t pc (dm_phys dm) (words_at (stack_junk E m') 128)) (66 + pc * 2) 2 c1 of
            None \<Rightarrow> create_eq E sz t irq c = None
          | Some (Inl err, c2) \<Rightarrow> create_eq E sz t irq c = Some (Inl err, c2)
          | Some (Inr slot, c2) \<Rightarrow> \<exists>c'. create_eq E sz t irq c = Some (Inr (eq_number_of slot c2), c')
              \<and> eq_at c' (eq_number_of slot c2) e ((e_data el)\<lparr>qo_q_ctx := \<lparr>eq_irq_num = irq, eq_type = t\<rparr>, qo_id := eq_number_of slot c2\<rparr>)"
      (is "case ?x of None \<Rightarrow> _ | Some y \<Rightarrow> _")
    proof (cases ?x)
      case None
      then show ?thesis using c1(1) by (simp add: bnd_None)
    next
      case (Some y)
      obtain x c2 where y: "y = (x, c2)" by (cases y)
      show ?thesis
      proof (cases x)
        case (Inl err)
        then show ?thesis using Some y c1(1) by (simp add: bnd_Inl)
      next
        case (Inr slot)
        have "event_queue_pool c2 = event_queue_pool c1"
          using command.exec_frame [OF Some [unfolded y]] by (rule cmd_frame_events)
        with create_eq_end [of c2 e "el\<lparr>e_data := (e_data el)\<lparr>qo_q_ctx := \<lparr>eq_irq_num = irq, eq_type = t\<rparr>\<rparr>\<rparr>" E slot] c1(2)
        show ?thesis using Some y Inr c1(1) by (simp add: bnd_Inr)
      qed
    qed
    note cmd = this
    show ?thesis
      by (rule exI [of _ e], rule exI [of _ "e_data el"], rule exI [of _ up], rule exI [of _ ul], rule exI [of _ k], rule exI [of _ c1])
        (use cmd False e k r(2) c1(3,4) ul frame [symmetric] in simp)
  qed
qed

end
