(* ===== verification/Driver_Samples.thy ===== *)
theory Driver_Samples
  imports Driver_Device Handler_Correct Event_Correct Command_Properties Memory_Properties
begin

text \<open>
  A concrete device and a concrete context of the driver: the device answers the command in
  one entry with the words \<open>a\<close> and \<open>b\<close> at every sleep.
\<close>

definition answering :: "u64 \<Rightarrow> u32 \<Rightarrow> u32 \<Rightarrow> 'h machine \<Rightarrow> 'h machine" where
  "answering cqe a b m = iowrite32be (reg cqe cqe_ctrl) 0 (iowrite32be (reg cqe cod_status) 0
     (iowrite32be (reg cqe (cod_output 0)) a (iowrite32be (reg cqe (cod_output 1)) b m)))"

definition answering_platform :: "u32 \<Rightarrow> u32 \<Rightarrow> u64 platform" where
  "answering_platform a b = bump_platform\<lparr>elapse := (\<lambda>n m. (answering 0x17c0 a b m)\<lparr>clock := clock m + n\<rparr>)\<rparr>"

text \<open>A queue of four entries with one to read before it wraps around.\<close>

definition sample_queue :: "'c \<Rightarrow> 'c QOP_ED" where
  "sample_queue x = \<lparr>q_start = 0x300000, q_size = 4, q_head = 3, q_dma_mem = \<lparr>dm_cap = 1, dm_virt = 0x300000, dm_phys = 0x400000\<rparr>,
     qo_id = 5, qo_uarp = Some (0, 0), qo_pas_list = [0, 0x400000], qo_q_ctx = x\<rparr>"

definition raw_queues :: "'c QOP_ED \<Rightarrow> 'c Queue_Obj_Pool" where
  "raw_queues d = \<lparr>p_max = 1024, p_size = 0, p_block_size = 1, p_block_count = 0,
     p_data = \<lparr>page_entry_count = 64, q_index = (\<lambda>_. None)\<rparr>, p_start = None, p_end = None, p_heap = (\<lambda>_. None), p_brk = 0,
     p_raw_data = (\<lambda>_. ()), p_raw_elems = (\<lambda>_ _. \<lparr>e_used = True, e_data = d, e_block = 0\<rparr>)\<rparr>"

definition queue_pool_of :: "'c QOP_ED \<Rightarrow> 'c Queue_Obj_Pool" where
  "queue_pool_of d = (raw_queues d)\<lparr>p_size := 1, p_block_count := 1, p_start := Some 0, p_end := Some 0,
     p_heap := [0 \<mapsto> \<lparr>b_element_count = 1, b_next = None, b_prev = None, b_data = (),
       b_start = [\<lparr>e_used = True, e_data = d, e_block = 0\<rparr>]\<rparr>], p_brk := 1,
     p_data := \<lparr>page_entry_count = 64, q_index = [5 \<mapsto> Some (0, 0)]\<rparr>\<rparr>"

definition sample_ctx :: "u64 MLX5_Context" where
  "sample_ctx = \<lparr>mach = bump_machine, cq = cq sample_args, dbv = 0x900018, imb_mem = imb_mem sample_args,
     omb_mem = omb_mem sample_args, init_seg = 0x900000, uar_page_pool = uar_pool1, mem_page_pool = page_pool1,
     event_queue_pool = queue_pool_of (sample_queue \<lparr>eq_irq_num = 0, eq_type = 0xb\<rparr>),
     compl_queue_pool = raw_queues (sample_queue \<lparr>cq_eq_number = 0\<rparr>),
     work_queue_pool = raw_queues (sample_queue \<lparr>wq_wqc = \<lparr>wqc_type = 0, wqc_page_offset_and_lwm = 0,
       wqc_pd = 0, wqc_uar = 0, wqc_dbr = (0, 0), wqc_hw_counter = 0, wqc_sw_counter = 0,
       wqc_log_wq_sizes = 0, wqc_rsvd = replicate 39 0\<rparr>\<rparr>)\<rparr>"

lemma sample_ctx_simps [simp]:
  "mach sample_ctx = bump_machine" "cq sample_ctx = cq sample_args" "dbv sample_ctx = 0x900018"
  "imb_mem sample_ctx = imb_mem sample_args" "omb_mem sample_ctx = omb_mem sample_args"
  "init_seg sample_ctx = 0x900000" "uar_page_pool sample_ctx = uar_pool1" "mem_page_pool sample_ctx = page_pool1"
  "event_queue_pool sample_ctx = queue_pool_of (sample_queue \<lparr>eq_irq_num = 0, eq_type = 0xb\<rparr>)"
  by (simp_all add: sample_ctx_def)

lemma sample_slot: "cqe_at (cq sample_args) 31 = 0x17c0"
  by (simp add: cqe_at_def)

lemma answering_read:
  assumes "r < 16"
  shows "ioread32be (reg cqe r) (answering cqe a b m) =
    (if r = cqe_ctrl \<or> r = cod_status then 0 else if r = cod_output 0 then a else if r = cod_output 1 then b
     else ioread32be (reg cqe r) m)"
  using assms by (simp add: answering_def be.rd_wr reg_inj cqe_layout del: reg_0)

lemma answering_completes: "completed cqe (answering cqe a b m)"
  using answering_read [of 15 cqe a b m] answering_read [of 8 cqe a b m]
  by (simp add: completed_def hw_owned_def cqe_status_def cod_status_of_def cqe_layout)

lemma answering_platform_elapse:
  "elapse (answering_platform a b) n m = (answering 0x17c0 a b m)\<lparr>clock := clock m + n\<rparr>"
  by (simp add: answering_platform_def)

lemma answering_clock [simp]: "ioread32be r (m\<lparr>clock := t\<rparr>) = ioread32be r m"
  by (simp add: ioread32be_def)

lemma answering_platform_completes: "completed 0x17c0 (elapse (answering_platform a b) n m)"
  using answering_completes [of "0x17c0" a b m]
  by (simp add: answering_platform_elapse completed_def hw_owned_def cqe_status_def cod_status_of_def)

lemma answering_platform_serves: "serves (answering_platform a b) tr 0x17c0 cmd [a, b]"
  using answering_platform_completes answering_read [of 10 "0x17c0" a b "m :: u64 machine" for m]
    answering_read [of 11 "0x17c0" a b "m :: u64 machine" for m]
  by (simp add: serves_def answering_platform_elapse cqe_layout upt_rec)

lemma answering_platform_sleeps: "sleeps (answering_platform a b)"
  by (simp add: sleeps_def answering_platform_elapse)

text \<open>A context with the command memory of the sample: every command issued from it succeeds.\<close>

definition sample_commands :: "u64 MLX5_Context \<Rightarrow> bool" where
  "sample_commands c \<longleftrightarrow> cq c = cq sample_args \<and> dbv c = 0x900018 \<and> imb_mem c = imb_mem sample_args
     \<and> omb_mem c = omb_mem sample_args"

lemma sample_ctx_commands: "sample_commands sample_ctx"
  by (simp add: sample_commands_def)

lemma sample_commands_upd [simp]:
  "sample_commands (c\<lparr>mach := m\<rparr>) = sample_commands c" "sample_commands (c\<lparr>mem_page_pool := p\<rparr>) = sample_commands c"
  "sample_commands (c\<lparr>event_queue_pool := q\<rparr>) = sample_commands c"
  "sample_commands (c\<lparr>uar_page_pool := u\<rparr>) = sample_commands c"
  by (simp_all add: sample_commands_def)

lemma sample_doorbell: "sample_commands c \<Longrightarrow> doorbell_apart c"
  by (simp add: sample_commands_def doorbell_apart_def apart_def cqe_at_def)

lemma sample_execute_on:
  assumes E: "elapse E = elapse (answering_platform a b)"
    and "sample_commands c" "unat n \<le> length pl" "unat n \<le> 7000" "unat k \<le> 9000"
  shows "\<exists>m. execute E opc om pl n k c =
    Some (Inr 31, c\<lparr>mach := m, cq := snd (enqueue (cq sample_args))\<rparr>)"
proof -
  have "last_block (unat n - 2) \<le> 55" "last_block (unat k - 2) \<le> 71"
    using assms by (auto simp: last_block_def)
  then have "cmd_layout (cqe_at (cq c) (q_head (cq c))) (imb_mem c) (omb_mem c) (unat n) (unat k)"
    using assms(2) by (simp add: sample_commands_def cmd_layout_def apart_def cqe_at_def)
  moreover have "completed (cqe_at (cq c) (q_head (cq c))) (elapse E 20 (issued opc om pl n k c))"
    using answering_platform_completes assms(2) by (simp add: E sample_commands_def sample_slot)
  ultimately show ?thesis
    using execute_run [of n pl k c E opc om] sample_doorbell [OF assms(2)] assms
    by (auto simp: sample_commands_def)
qed

lemma sample_execute:
  assumes "sample_commands c" "unat n \<le> length pl" "unat n \<le> 7000" "unat k \<le> 9000"
  shows "\<exists>m. execute (answering_platform a b) opc om pl n k c =
    Some (Inr 31, c\<lparr>mach := m, cq := snd (enqueue (cq sample_args))\<rparr>)"
  by (rule sample_execute_on [OF refl assms])

section \<open>Lending a page\<close>

definition page_pool2 :: MEM_Page_Pool where
  "page_pool2 = page_pool\<lparr>p_size := 2, p_block_count := 1, p_start := Some 0, p_end := Some 0,
     p_heap := [0 \<mapsto> page_block 0x200000 None None 0 True], p_brk := 1,
     p_data := [0x200000 \<mapsto> (0, 0), 0x201000 \<mapsto> (0, 1)]\<rparr>"

lemma sample_alloc: "mem_alloc_page E (page_pool1, m) = Some (Inr (0, 1), (page_pool2, m))"
  by (simp add: mem_alloc_page_def alloc_page_def alloc_round_def prog_simps page_pool1_def page_pool2_def page_pool_simps page_block_def
      Let_def mem_page_def scan_unused.simps)

lemma sample_page:
  assumes "mem_page_pool c = page_pool1"
  shows "provide_page E 0 ((replicate 6402 0)[0 := 0, 1 := 1]) c =
     Some (Inr ((replicate 6402 0)[0 := 0, 1 := 1, 2 := 0, 3 := 0x201000]), c\<lparr>mem_page_pool := page_pool2, mach := mach c\<rparr>)"
proof -
  let ?c = "c\<lparr>mem_page_pool := page_pool2, mach := mach c\<rparr>"
  have a: "on_mem_pool (mem_alloc_page E) c = Some (Inr (0, 1), ?c)"
    using sample_alloc [of E "mach c"] assms by (simp add: on_mem_pool_def prog_simps)
  have g: "on_mem_pool (on_pool (get_element (0, 1))) ?c =
      Some (Inr \<lparr>e_used = True, e_data = \<lparr>me_virt = 0x10201000, me_phys = 0x201000\<rparr>, e_block = 0\<rparr>, ?c)"
    by (simp add: on_mem_pool_def prog_simps page_pool2_def page_block_def Let_def mem_page_def elem_at_def)
  show ?thesis
    unfolding provide_page_def bnd_Inr [where m = "on_mem_pool (mem_alloc_page E)", OF a]
      bnd_Inr [where m = "on_mem_pool (on_pool (get_element (0, 1)))", OF g]
    by (simp add: prog_simps)
qed

lemma sample_provide_round:
  assumes "sample_commands c" "mem_page_pool c = page_pool1"
  shows "\<exists>buf' c'. provide_round (answering_platform 0 0) 1 2 0 (replicate 6402 0) c = Some (Inr buf', c')"
proof -
  let ?E = "answering_platform 0 0" and ?buf = "(replicate 6402 0)[0 := 0, 1 := 1, 2 := 0, 3 := 0x201000] :: u32 list"
  obtain c' where e: "execute ?E MANAGE_PAGES 1 ?buf 4 2 (c\<lparr>mem_page_pool := page_pool2, mach := mach c\<rparr>) = Some (Inr 31, c')"
    using sample_execute [of "c\<lparr>mem_page_pool := page_pool2, mach := mach c\<rparr>" 4 ?buf 2 0 0 MANAGE_PAGES 1] assms(1) by auto
  have "provide_round ?E 1 2 0 (replicate 6402 0) c = Some (Inr ?buf, c')"
    using e sample_page [OF assms(2), of ?E] by (simp add: provide_round_def prog_simps Let_def)
  then show ?thesis by blast
qed

lemma sample_provide:
  assumes "sample_commands c" "mem_page_pool c = page_pool1"
  shows "\<exists>c'. provide_pages (answering_platform 0 0) 1 c = Some (Inr (), c')"
proof -
  have "words_at (stack_junk (answering_platform 0 0) (mach c)) 6402 = replicate 6402 0"
    by (rule nth_equalityI) (simp_all add: answering_platform_def words_at_def)
  with sample_provide_round [OF assms] show ?thesis
    by (auto simp: provide_pages_def stack_array_def prog_simps)
qed

section \<open>A page request\<close>

text \<open>Interrupt services on which the device asks for \<open>n\<close> pages while the handler waits.\<close>

definition requesting_irqs :: "u32 \<Rightarrow> u64 irq_services" where
  "requesting_irqs n = \<lparr>irq_cap_alloc = (\<lambda>m. (Some 1, m)), irq_create = (\<lambda>c m. (0, m)), irq_bind_thread = (\<lambda>c t m. (0, m)),
     icu_bind = (\<lambda>i n c m. (0, m)), icu_msi_info = (\<lambda>i n s m. ((0, \<lparr>msi_addr = 0xfee00000, msi_data = 0x30\<rparr>), m)),
     icu_unmask = (\<lambda>i n m. (0, m)), irq_receive = (\<lambda>c. iowrite32be (reg 0x3000c0 9) n), irq_detach = (\<lambda>c m. m),
     icu_msi_flag = 0x80000000\<rparr>"

lemma bump_read: "ioread32be a bump_machine = 0"
  by (simp add: ioread32be_def swap_endian_eq)

lemma requested_sample:
  "head_entry (sample_queue x) = 0x3000c0"
  "\<not> entry_owned (sample_queue x) (irq_receive (requesting_irqs n) i bump_machine)"
  "requested (sample_queue x) (irq_receive (requesting_irqs n) i bump_machine) = n"
proof -
  show h: "head_entry (sample_queue x) = 0x3000c0" by (simp add: head_entry_def sample_queue_def eqe_at_def)
  show "\<not> entry_owned (sample_queue x) (irq_receive (requesting_irqs n) i bump_machine)"
    unfolding entry_owned_def h
    by (simp add: requesting_irqs_def be.rd_wr reg_inj layout_defs bump_read)
  show "requested (sample_queue x) (irq_receive (requesting_irqs n) i bump_machine) = n"
    unfolding requested_def h by (simp add: requesting_irqs_def be.rd_wr layout_defs)
qed

lemma sample_eq_at: "eq_at sample_ctx 5 (0, 0) (sample_queue \<lparr>eq_irq_num = 0, eq_type = 0xb\<rparr>)"
  by (simp add: eq_at_def queue_pool_of_def elem_at_def)

lemma sample_handler_round: "\<exists>c'. handler_round (answering_platform 0 0) (requesting_irqs 1) 1 5 sample_ctx = Some (Inr (), c')"
proof -
  let ?q = "sample_queue \<lparr>eq_irq_num = 0, eq_type = 0xb\<rparr> :: EQ_CTX QOP_ED"
  from handler_round_event [OF sample_eq_at, of "requesting_irqs 1" 1 "answering_platform 0 0"] obtain c1 where c1:
    "handler_round (answering_platform 0 0) (requesting_irqs 1) 1 5 sample_ctx = answer_page_request (answering_platform 0 0) 1 c1"
    "c1 = sample_ctx\<lparr>mach := irq_receive (requesting_irqs 1) 1 bump_machine, event_queue_pool := event_queue_pool c1\<rparr>"
    by (auto simp: requested_sample)
  have "sample_commands c1" "mem_page_pool c1 = page_pool1"
    by (subst c1(2), simp add: sample_ctx_commands)+
  from sample_provide [OF this] c1(1) show ?thesis by (simp add: answer_page_request_def)
qed

section \<open>Creating an event queue\<close>

text \<open>The device with a \<open>malloc\<close> that rounds up, and a context with no event queue yet.\<close>

definition roomy_answering :: "u32 \<Rightarrow> u32 \<Rightarrow> u64 platform" where
  "roomy_answering a b = (answering_platform a b)\<lparr>malloc_words := (\<lambda>n. replicate (n + 32) 0)\<rparr>"

definition no_events_ctx :: "u64 MLX5_Context" where
  "no_events_ctx = sample_ctx\<lparr>event_queue_pool := raw_queues (sample_queue \<lparr>eq_irq_num = 0, eq_type = 0\<rparr>)\<rparr>"

lemma no_events_simps [simp]:
  "mach no_events_ctx = bump_machine" "uar_page_pool no_events_ctx = uar_pool1" "sample_commands no_events_ctx"
  "p_size (event_queue_pool no_events_ctx) = 0" "p_max (event_queue_pool no_events_ctx) = 1024"
  "page_entry_count (p_data (event_queue_pool no_events_ctx)) = 64"
  by (simp_all add: no_events_ctx_def raw_queues_def sample_ctx_commands)

lemma no_events_inv: "pool_inv None (event_queue_pool no_events_ctx) []"
  by (simp add: no_events_ctx_def raw_queues_def pool_inv_def pool_wf_def)

text \<open>The case of a command that succeeds.\<close>

lemma command_case:
  "(case x of None \<Rightarrow> a | Some (Inl err, c) \<Rightarrow> b err c | Some (Inr slot, c) \<Rightarrow> d slot c) \<Longrightarrow>
    \<exists>m. x = Some (Inr s, f m) \<Longrightarrow> \<exists>m. d s (f m)"
  by auto

lemma answering_dma:
  "alloc_dma_mem (answering_platform a b) 0x1000 bump_machine =
    Some (Inr \<lparr>dm_cap = 1, dm_virt = 0x10200000, dm_phys = 0x200000\<rparr>, bump_machine\<lparr>hw := 0x400000\<rparr>)"
  "alloc_dma_mem (roomy_answering a b) 0x1000 bump_machine =
    Some (Inr \<lparr>dm_cap = 1, dm_virt = 0x10200000, dm_phys = 0x200000\<rparr>, bump_machine\<lparr>hw := 0x400000\<rparr>)"
  by (simp_all add: roomy_answering_def answering_platform_def alloc_dma_mem_def prog_simps chkcap_def chksys_def round_superpage_def)

end
