(* ===== verification/Driver_Properties.thy ===== *)
theory Driver_Properties
  imports Driver_Samples
begin

text \<open>
  The properties of the driver proper: the commands it executes, the pages it lends to the
  device, the events it reads.
\<close>

section \<open>Executing commands\<close>

text \<open>
  C21: every command of the driver ends, with a slot or an error, if sleeping takes time, and
  changes nothing but the machine and the command queue: init segment, mailboxes and all five
  pools are as before.
\<close>

theorem execute_frame:
  fixes c :: "'h MLX5_Context"
  assumes "sleeps E"
  shows "\<exists>r c'. execute E opc om pl n k c = Some (r, c') \<and> c' = c\<lparr>mach := mach c', cq := cq c'\<rparr>"
proof -
  from returnsD [OF returns_execute [OF assms, where opc = opc and om = om and pl = pl and n = n and k = k], of c]
  obtain r c' where run: "execute E opc om pl n k c = Some (r, c')" by auto
  with command.exec_frame [OF run] show ?thesis unfolding cmd_frame_def by blast
qed

lemma execute_frame_witness:
  "\<exists>r c'. execute bump_platform ENABLE_HCA 0 [] 0 0 sample_ctx = Some (r, c')
    \<and> c' = sample_ctx\<lparr>mach := mach c', cq := cq c'\<rparr>"
  by (rule execute_frame [OF bump_sleeps])

text \<open>
  C22: the exchange with the device. If the device, whenever the entry holds this command,
  completes it with the words \<open>ans\<close> before the next poll, then executing a command of at most
  two input words and reading its output yields exactly \<open>ans\<close>, and the head of the command
  queue has moved on: the byte-level protocol implements a call of the device.
\<close>

theorem query_correct:
  assumes "unat n \<le> length pl" "unat n \<le> 2" "unat (q_head (cq a)) < 32"
    and "cmd_layout (cqe_at (cq a) (q_head (cq a))) (imb_mem a) (omb_mem a) (unat n) 2" "doorbell_apart a"
    and "serves E (dma_virt (imb_mem a)) (cqe_at (cq a) (q_head (cq a)))
      \<lparr>c_opcode = opc, c_op_mod = ucast om, c_input = take (unat n) pl, c_output_words = 2\<rparr> ans"
    and "2 \<le> length out"
  shows "\<exists>m. bnd (execute E opc om pl n 2) (\<lambda>slot. get_cmd_output slot out 2) a =
    Some (Inr (ans @ drop 2 out), a\<lparr>mach := m, cq := snd (enqueue (cq a))\<rparr>)"
  using query_run [OF assms] by blast

lemma query_correct_witness:
  "\<exists>m. bnd (execute (answering_platform 7 9) QUERY_PAGES 1 [] 0 2) (\<lambda>slot. get_cmd_output slot [0, 0, 4] 2) sample_ctx =
    Some (Inr [7, 9, 4], sample_ctx\<lparr>mach := m, cq := snd (enqueue (cq sample_args))\<rparr>)"
  using query_correct [of 0 "[]" sample_ctx "answering_platform 7 9" QUERY_PAGES 1 "[7, 9]" "[0, 0, 4]"]
    sample_doorbell [OF sample_ctx_commands] answering_platform_serves [of 7 9]
  by (simp add: cmd_layout_def apart_def last_block_def sample_slot)

text \<open>
  C23: \<open>alloc_uar\<close> sets the pool of UAR pages up on the page the device names: an empty pool of
  at most 1024 pages in blocks of 64, whose base is that page in the register window.
\<close>

theorem alloc_uar_correct:
  assumes "unat (q_head (cq c)) < 32" "cmd_layout (cqe_at (cq c) (q_head (cq c))) (imb_mem c) (omb_mem c) 0 2" "doorbell_apart c"
    and "serves E (dma_virt (imb_mem c)) (cqe_at (cq c) (q_head (cq c)))
      \<lparr>c_opcode = ALLOC_UAR, c_op_mod = 0, c_input = [], c_output_words = 2\<rparr> [index, status]"
    and "\<And>b. p_brk (uar_page_pool c) \<le> b \<Longrightarrow> p_heap (uar_page_pool c) b = None"
  shows "\<exists>c'. alloc_uar E bar0 c = Some (Inr (), c') \<and> uar_inv None (uar_page_pool c') []
    \<and> p_data (uar_page_pool c') = \<lparr>u_index = index, u_addr = bar0 + ucast (4096 * index :: u32)\<rparr>
    \<and> p_max (uar_page_pool c') = 1024 \<and> p_size (uar_page_pool c') = 0"
  using alloc_uar_run [OF assms(1-4), of bar0] assms(5) by (auto simp: empty_pool_def uar_inv_def pool_inv_def pool_wf_def used_slots_def)

lemma alloc_uar_correct_witness:
  "\<exists>c'. alloc_uar (answering_platform 7 0) 0x900000 sample_ctx = Some (Inr (), c') \<and> uar_inv None (uar_page_pool c') []
    \<and> p_data (uar_page_pool c') = \<lparr>u_index = 7, u_addr = 0x907000\<rparr>"
  using alloc_uar_correct [of sample_ctx "answering_platform 7 0" 7 0 "0x900000"] sample_doorbell [OF sample_ctx_commands] answering_platform_serves [of 7 0]
  by (simp add: cmd_layout_def apart_def last_block_def sample_slot uar_pool1_def Let_def) blast

section \<open>The interface version\<close>

text \<open>
  C24: \<open>get_issi_support\<close> computes the place of the lowest bit set, counted from 1, in the
  640-bit number that words 6 to 25 of the device's answer form (word 25 the lowest), and 640
  if there is none. So it never is 0, and the lowest supported version decides, not the
  highest.
\<close>

theorem issi_of_correct:
  "unat (issi_of ws) = (if \<exists>k. issi_bit ws k then Suc (LEAST k. issi_bit ws k) else 640)"
  by (rule issi_of_lowest)

text \<open>
  C25: the check for a supported version is dead code: \<open>configure_issi\<close> is, for every device,
  the same as without it, and requests version 1 whatever the device supports.
\<close>

theorem configure_issi_accepts:
  "configure_issi E a = bnd (execute E QUERY_ISSI 0 [] 0 26) (\<lambda>slot.
     bnd (get_issi_support E slot) (\<lambda>_. bnd (execute E SET_ISSI 0 [1] 1 0) (\<lambda>_. ret 1))) a"
  by (rule configure_issi_no_check)

section \<open>Pages\<close>

text \<open>
  C26: each command of \<open>provide_pages\<close> hands over the pages just lent. When the \<open>i\<close>-th round
  succeeds, it has lent as many pages as its share is (3200, or the rest in the last round),
  none of them in use before, and executed a \<open>MANAGE_PAGES\<close> command whose payload is their
  number and the two halves of every page's physical address, in order.
\<close>

theorem provide_round_correct:
  fixes w :: u32
  assumes "pool_inv pr (mem_page_pool c) bs" "length buf = 6402" "2 * unat w < 2 ^ 32"
    and "cnt = (w * 2) div IMB_MAX_DATA + (if (w * 2) mod IMB_MAX_DATA \<noteq> 0 then 1 else 0)" "i < unat cnt"
    and "provide_round E cnt ((w * 2) mod IMB_MAX_DATA) i buf c = Some (Inr buf', c')"
  shows "\<exists>es bs'. round_done E pr bs (round_pages (unat w) ((unat w + 3199) div 3200) i) c c' es bs'"
proof -
  have k: "round_pages (unat w) (unat cnt) i \<le> 3200"
    using mod_less_divisor [of 3200 "unat w"] by (simp add: round_pages_def less_imp_le)
  note split = page_count_split [OF assms(3), folded assms(4)]
  from provide_round_done [OF assms(1,2) split(2) [OF assms(5)] k assms(6)] show ?thesis
    unfolding split(1) by blast
qed

lemma provide_round_correct_witness:
  "\<exists>buf' c'. provide_round (answering_platform 0 0) 1 2 0 (replicate 6402 0) sample_ctx = Some (Inr buf', c')
    \<and> (\<exists>es bs'. round_done (answering_platform 0 0) None [0] 1 sample_ctx c' es bs')"
proof -
  obtain buf' c' where run: "provide_round (answering_platform 0 0) 1 2 0 (replicate 6402 0) sample_ctx = Some (Inr buf', c')"
    using sample_provide_round [OF sample_ctx_commands] by auto
  have "\<exists>es bs'. round_done (answering_platform 0 0) None [0] (round_pages (unat (1 :: u32)) ((unat (1 :: u32) + 3199) div 3200) 0) sample_ctx c' es bs'"
    by (rule provide_round_correct [of None sample_ctx "[0]" "replicate 6402 0" 1 1 0 "answering_platform 0 0" buf' c'])
      (use run page_pool1_pool_inv in simp_all)
  with run show ?thesis by (auto simp: round_pages_def)
qed

text \<open>
  C27: \<open>provide_pages\<close> that returns has lent exactly the number of pages asked for, all
  different and none of them in use before; the page pool keeps its invariant and its count,
  pages lent earlier stay where they are, and of the context only machine, command queue and
  page pool have changed.
\<close>

theorem provide_pages_correct:
  assumes "pool_inv pr (mem_page_pool c) bs" "2 * unat n < 2 ^ 32" "provide_pages E n c = Some (Inr (), c')"
  shows "\<exists>es bs'. length es = unat n \<and> lent pr (mem_page_pool c) bs es (mem_page_pool c') bs' \<and> pages_frame c c'"
  by (rule provide_pages_lent [OF assms])

lemma provide_pages_correct_witness:
  "\<exists>c' es bs'. provide_pages (answering_platform 0 0) 1 sample_ctx = Some (Inr (), c')
    \<and> length es = 1 \<and> lent None page_pool1 [0] es (mem_page_pool c') bs' \<and> pages_frame sample_ctx c'"
proof -
  obtain c' where run: "provide_pages (answering_platform 0 0) 1 sample_ctx = Some (Inr (), c')"
    using sample_provide [OF sample_ctx_commands] by auto
  from provide_pages_correct [of None sample_ctx "[0]" 1 "answering_platform 0 0" c'] run page_pool1_pool_inv
  show ?thesis by auto
qed

text \<open>
  C28: \<open>reclaim_pages\<close> has room for 3200 pages on its stack but none of its callers needs to
  keep to that: the handler of page requests passes the number the device asks for. For more
  pages the array is overrun, right after the command has succeeded.
\<close>

theorem reclaim_pages_overruns:
  assumes "3200 < n" "n < 2 ^ 30 - 1"
    and "execute E MANAGE_PAGES 2 [0, word_of_int n] 2 (word_of_int (2 + n * 2)) c = Some (Inr slot, c')"
  shows "reclaim_pages E n c = Some (Inl (Undefined ''array index''), c')"
  by (rule reclaim_pages_overrun [OF assms])

lemma reclaim_pages_overruns_witness:
  "\<exists>c'. reclaim_pages (answering_platform 3201 0) 3201 sample_ctx = Some (Inl (Undefined ''array index''), c')"
proof -
  obtain c' where "execute (answering_platform 3201 0) MANAGE_PAGES 2 [0, 3201] 2 6404 sample_ctx = Some (Inr 31, c')"
    using sample_execute [OF sample_ctx_commands, of 2 "[0, 3201]" 6404 3201 0 MANAGE_PAGES 2] by auto
  then show ?thesis
    using reclaim_pages_overruns [of 3201 "answering_platform 3201 0" sample_ctx 31 c'] by simp
qed

section \<open>Events\<close>

text \<open>
  C29: the handler reads its events in the order of the ring, and then again. Reading \<open>n\<close>
  events yields the entries from the head on, cyclically, with no memory written: an entry is
  not given back to the device, so after a round through the ring every entry still reads as
  the event that was there before.
\<close>

theorem read_eqes_correct:
  assumes "eq_at c eq_number e q" "ring_ok q"
  shows "\<exists>c' wss. read_eqes n eq_number c = Some (Inr wss, c') \<and> length wss = n \<and> mach c' = mach c
    \<and> (\<forall>i. i < n \<longrightarrow> wss ! i = eqe_words (q_start q) ((unat (q_head q) + i) mod unat (q_size q)) (mach c))
    \<and> (\<forall>i. i < n \<and> unat (q_size q) \<le> i \<longrightarrow> wss ! i = wss ! (i - unat (q_size q)))"
proof -
  have "(unat (q_head q) + i) mod unat (q_size q) = (unat (q_head q) + (i - unat (q_size q))) mod unat (q_size q)"
    if "unat (q_size q) \<le> i" for i
    using that le_mod_geq [of "unat (q_size q)" "unat (q_head q) + i"] by simp
  then show ?thesis using read_eqes_run [OF assms, of n] by (auto simp del: upt_Suc)
qed

lemma sample_ring: "ring_ok (sample_queue x)"
  by (simp add: ring_ok_def sample_queue_def)

lemma read_eqes_correct_witness:
  "\<exists>c' wss. read_eqes 7 5 sample_ctx = Some (Inr wss, c') \<and> length wss = 7 \<and> wss ! 6 = wss ! 2"
  using read_eqes_correct [OF sample_eq_at sample_ring, of 7] by (auto simp: sample_queue_def)

text \<open>
  C30: the handler of page requests answers events. When the entry at the head of its queue
  still belongs to the device after the wait, a round of the loop changes nothing. When it
  holds a request for a positive number of pages and the round succeeds, exactly that number
  of pages has been lent to the device, none of them in use before, and the head of the queue
  has moved on by one.
\<close>

theorem handler_round_correct:
  assumes "eq_at c eq_number e q" "pool_inv pr (mem_page_pool c) bs" "m = irq_receive I irq (mach c)"
  shows "(entry_owned q m \<longrightarrow> handler_round E I irq eq_number c = Some (Inr (), c\<lparr>mach := m\<rparr>))
    \<and> (\<not> entry_owned q m \<and> 0 < sint (requested q m) \<and> handler_round E I irq eq_number c = Some (Inr (), c') \<longrightarrow>
        (\<exists>es bs'. int (length es) = sint (requested q m) \<and> lent pr (mem_page_pool c) bs es (mem_page_pool c') bs'
          \<and> eq_at c' eq_number e (snd (enqueue q))))"
  unfolding assms(3)
  using handler_round_idle [OF assms(1), of I irq E] handler_round_pages [OF assms(1,2), of I irq E c'] by blast

lemma handler_round_correct_witness:
  "\<exists>c' es bs'. handler_round (answering_platform 0 0) (requesting_irqs 1) 1 5 sample_ctx = Some (Inr (), c')
    \<and> length es = 1 \<and> lent None page_pool1 [0] es (mem_page_pool c') bs'"
proof -
  obtain c' where run: "handler_round (answering_platform 0 0) (requesting_irqs 1) 1 5 sample_ctx = Some (Inr (), c')"
    using sample_handler_round by blast
  from handler_round_correct [OF sample_eq_at _ refl, of None "[0]" "requesting_irqs 1" 1 "answering_platform 0 0" c']
    run page_pool1_pool_inv
  show ?thesis by (auto simp: requested_sample)
qed

text \<open>
  C31: what \<open>create_eq\<close> does, for a queue of one to 31 pages, every \<open>malloc\<close> and every answer of
  the device. It takes an element and a UAR page that were not in use. Either \<open>alloc_queue\<close>
  overruns \<open>pas_list\<close> (C20), or there is a queue with an empty ring on the new DMA memory, its
  entries but the last are given to the device, and one \<open>CREATE_EQ\<close> is executed. As many words
  are sent as the input structure, with the log of the size, and the whole list of the queue's
  pages have, two per page; but only the first half of the list is in the payload, and the
  words after it are those of the uninitialised local array. If the command fails, so does
  \<open>create_eq\<close>; if not, it returns the number in the device's answer, under which the queue is
  then found.
\<close>

theorem create_eq_correct:
  fixes c :: "'h MLX5_Context"
  assumes "pool_inv pr (event_queue_pool c) bs" "p_size (event_queue_pool c) \<noteq> p_max (event_queue_pool c)"
    and "uar_inv ur (uar_page_pool c) us" "p_size (uar_page_pool c) \<noteq> p_max (uar_page_pool c)"
    and "page_entry_count (p_data (event_queue_pool c)) = 64"
    and "sz \<noteq> 0" "pc = page_count_of sz 64" "unat pc \<le> 31" "unat t < 64"
    and "alloc_dma_mem E (ucast (4096 * pc)) (mach c) = Some (Inr dm, m')"
  shows "\<exists>e d up ul k c1. e \<notin> used_slots (event_queue_pool c) bs \<and> up \<notin> used_slots (uar_page_pool c) us
    \<and> 2 ^ k \<le> unat sz \<and> unat sz < 2 ^ Suc k
    \<and> (if length (malloc_words E (unat pc)) < 2 * unat pc
       then create_eq E sz t irq c = Some (Inl (Undefined ''array index''), c1)
       else queue_built E sz pc dm up d \<and> init_eq d m' = Some (Inr (), mach c1)
         \<and> elem_at (uar_page_pool c1) up = Some ul
         \<and> c1 = c\<lparr>event_queue_pool := event_queue_pool c1, uar_page_pool := uar_page_pool c1, mach := mach c1\<rparr> \<and>
         (case execute E CREATE_EQ 0 (make_eqi k (u_index (e_data ul)) irq (type_bit t)
              @ take (unat pc) (pas_words (dm_phys dm) (unat pc)) @ drop (66 + unat pc) (words_at (stack_junk E m') 128))
              (66 + pc * 2) 2 c1 of
            None \<Rightarrow> create_eq E sz t irq c = None
          | Some (Inl err, c2) \<Rightarrow> create_eq E sz t irq c = Some (Inl err, c2)
          | Some (Inr slot, c2) \<Rightarrow> \<exists>c'. create_eq E sz t irq c = Some (Inr (eq_number_of slot c2), c')
              \<and> eq_at c' (eq_number_of slot c2) e (d\<lparr>qo_q_ctx := \<lparr>eq_irq_num = irq, eq_type = t\<rparr>, qo_id := eq_number_of slot c2\<rparr>)))"
  by (rule create_eq_outcome [OF assms, unfolded eq_payload_def])

lemma create_eq_correct_witness:
  "(\<exists>c1. create_eq (answering_platform 9 0) 4 0xb 0 no_events_ctx = Some (Inl (Undefined ''array index''), c1))
    \<and> (\<exists>n c' e d. create_eq (roomy_answering 9 0) 4 0xb 0 no_events_ctx = Some (Inr n, c') \<and> eq_at c' n e d \<and> q_size d = 4)"
proof -
  have pc: "1 = page_count_of 4 64" by (simp add: page_count_of_def)
  have pre: "p_size (event_queue_pool no_events_ctx) \<noteq> p_max (event_queue_pool no_events_ctx)"
    "uar_inv None (uar_page_pool no_events_ctx) [0]" "p_size (uar_page_pool no_events_ctx) \<noteq> p_max (uar_page_pool no_events_ctx)"
    "page_entry_count (p_data (event_queue_pool no_events_ctx)) = 64" "(4 :: u64) \<noteq> 0" "unat (1 :: u32) \<le> 31" "unat (0xb :: u32) < 64"
    using uar_pool1_inv by simp_all (simp add: uar_pool1_def Let_def)
  have dma: "alloc_dma_mem E (ucast (4096 * (1 :: u32))) (mach no_events_ctx) =
      Some (Inr \<lparr>dm_cap = 1, dm_virt = 0x10200000, dm_phys = 0x200000\<rparr>, bump_machine\<lparr>hw := 0x400000\<rparr>)"
    if "E \<in> {answering_platform 9 0, roomy_answering 9 0}" for E using that by (auto simp: answering_dma)
  note run = create_eq_correct [OF no_events_inv pre(1-5) pc pre(6,7) dma, where irq = 0]
  have mw: "malloc_words (answering_platform 9 0) 1 = [0]" "malloc_words (roomy_answering 9 0) 1 = replicate 33 0"
    by (simp_all add: answering_platform_def roomy_answering_def)
  have "\<exists>c1. create_eq (answering_platform 9 0) 4 0xb 0 no_events_ctx = Some (Inl (Undefined ''array index''), c1)"
    using run [OF insertI1] by (elim exE conjE) (simp only: unsigned_1 mw list.size mult_1_right, auto)
  moreover have "\<exists>n c' e d. create_eq (roomy_answering 9 0) 4 0xb 0 no_events_ctx = Some (Inr n, c') \<and> eq_at c' n e d \<and> q_size d = 4"
    using run [OF insertI2 [OF singletonI]]
  proof (elim exE conjE, goal_cases)
    case (1 e d up ul k c1)
    have room: "\<not> (33 :: nat) < 2" by simp
    note r = 1(5) [unfolded unsigned_1 mw length_replicate mult_1_right if_not_P [OF room]]
    have E: "elapse (roomy_answering 9 0) = elapse (answering_platform 9 0)" by (simp add: roomy_answering_def)
    from r have "c1 = no_events_ctx\<lparr>event_queue_pool := event_queue_pool c1, uar_page_pool := uar_page_pool c1, mach := mach c1\<rparr>"
      by (elim conjE)
    then have "sample_commands c1" by (rule ssubst) simp
    note ex = sample_execute_on [OF E this, of "66 + 1 * 2" _ 2 CREATE_EQ 0]
    have len: "unat (66 + 1 * 2 :: u32) \<le> length (make_eqi k i n t @ take 1 (pas_words p 1) @ drop (66 + 1) (words_at f 128))" for i n t p f
      by (simp add: words_at_def)
    note answered = r [THEN conjunct2, THEN conjunct2, THEN conjunct2, THEN conjunct2]
    from command_case [OF answered ex [OF len]] r show ?case by (fastforce simp: queue_built_def)
  qed
  ultimately show ?thesis by blast
qed

text \<open>
  C32: the input of \<open>CREATE_EQ\<close> is well formed. It has 66 words; the log of the size and the
  index of the UAR share a word without overlapping, the interrupt number is in its field, the
  two words of the type mask make up the mask, and everything else is zero.
\<close>

theorem make_eqi_well_formed:
  assumes "log_size < 32" "unat uar_index < 2 ^ 24" "unat irq_num < 2 ^ 8"
  shows "length (make_eqi log_size uar_index irq_num types) = 66
    \<and> drop_bit 24 (make_eqi log_size uar_index irq_num types ! 5) = of_nat log_size
    \<and> take_bit 24 (make_eqi log_size uar_index irq_num types ! 5) = uar_index
    \<and> make_eqi log_size uar_index irq_num types ! 7 = irq_num
    \<and> push_bit 32 (ucast (make_eqi log_size uar_index irq_num types ! 20)) OR
        ucast (make_eqi log_size uar_index irq_num types ! 21) = types
    \<and> (\<forall>i. i < 66 \<and> i \<notin> {5, 7, 20, 21} \<longrightarrow> make_eqi log_size uar_index irq_num types ! i = 0)"
  by (rule make_eqi_fields [OF assms])

lemma make_eqi_well_formed_witness:
  "drop_bit 24 (make_eqi 6 7 0 0x800 ! 5) = 6 \<and> take_bit 24 (make_eqi 6 7 0 0x800 ! 5) = 7
    \<and> make_eqi 6 7 0 0x800 ! 21 = 0x800"
  using make_eqi_well_formed [of 6 7 0 "0x800"] by (simp add: make_eqi_def layout_defs)

text \<open>
  C33: a driver with more than 64 event queues is never torn down. The loop over the blocks of
  the pool indexes the pointer to the first block as if it were an array: with two blocks or
  more, \<open>teardown_hca\<close> ends with an error, at the latest with this access, before it has taken
  any page back.
\<close>

theorem teardown_hca_fails:
  assumes "sleeps E" "2 \<le> unat (p_block_count (event_queue_pool c))" "0 < p_block_size (event_queue_pool c)"
  shows "\<exists>e c'. teardown_hca E c = Some (Inl e, c') \<and> mem_page_pool c' = mem_page_pool c"
  by (rule teardown_fails [OF assms])

lemma teardown_hca_fails_witness:
  "\<exists>e c'. teardown_hca bump_platform (sample_ctx\<lparr>event_queue_pool := (event_queue_pool sample_ctx)\<lparr>p_block_count := 2\<rparr>\<rparr>) =
    Some (Inl e, c') \<and> mem_page_pool c' = page_pool1"
  using teardown_hca_fails [OF bump_sleeps, of "sample_ctx\<lparr>event_queue_pool := (event_queue_pool sample_ctx)\<lparr>p_block_count := 2\<rparr>\<rparr>"]
  by (simp_all add: queue_pool_of_def raw_queues_def)

end
