(* ===== verification/Page_Returns.thy ===== *)
theory Page_Returns
  imports Driver_Facts Driver_Pages
begin

text \<open>
  The calls that give pages to the device and take them back come to an end, and so does the
  teardown: what the device answers decides how many rounds there are, and the pool's index of
  the pages lent bounds them.
\<close>

section \<open>Taking one page back\<close>

lemma keeps_zoom:
  assumes "\<And>s. I s \<Longrightarrow> J (f s)" "\<And>s u. I s \<Longrightarrow> J u \<Longrightarrow> I (g u s)" "keeps J m"
  shows "keeps I (zoom f g m)"
  using assms by (intro keepsI) (auto elim!: zoom_finished dest: keepsD)

lemma returns_always:
  "returns (\<lambda>_. True) m \<Longrightarrow> returns I m"
  by (simp add: returns_def)

lemma keeps_get_block [keeps_intros]: "keeps I (get_block b)"
  by (rule keepsI) (auto simp: get_block_def prog_simps split: option.splits)

lemma returns_get_block [keeps_intros]: "returns I (get_block b)"
  by (rule returnsI) (auto simp: get_block_def prog_simps split: option.splits)

text \<open>What a pool does with its blocks leaves its index alone, and ends.\<close>

definition index_is :: "'pd \<Rightarrow> ('pd, 'bd, 'ed) pool \<Rightarrow> bool" where
  "index_is d p \<longleftrightarrow> p_data p = d"

lemma keeps_index_modify: "(\<And>p. p_data (h p) = p_data p) \<Longrightarrow> keeps (index_is d) (modify h)"
  by (rule keeps_modify) (simp add: index_is_def)

lemma keeps_index_put [keeps_intros]: "keeps (index_is d) (put_block b f)"
  unfolding put_block_def by (intro keeps_intros keeps_index_modify) simp

lemma keeps_index [keeps_intros]:
  "keeps (index_is d) (get_element e)" "keeps (index_is d) (put_element e g)"
  "keeps (index_is d) (remove_block_from_pool b')" "keeps (index_is d) (destroy_block b')"
  unfolding get_element_def put_element_def remove_block_from_pool_def destroy_block_def
  by (intro keeps_intros keeps_index_modify; simp)+

lemma returns_pool_ops [keeps_intros]:
  fixes I :: "('pd, 'bd, 'ed) pool \<Rightarrow> bool"
  shows "returns I (put_block b f)" "returns I (put_element e g)" "returns I (remove_block_from_pool b')"
    "returns I (destroy_block b')"
proof -
  have *: "returns (\<lambda>_. True) (put_block b f :: (('pd, 'bd, 'ed) pool, unit) prog)" for b f
    unfolding put_block_def by (intro keeps_intros)
  then show "returns I (put_block b f)" by (rule returns_always)
  show "returns I (put_element e g)" unfolding put_element_def
    by (rule returns_always) (intro keeps_intros * returns_get_element)
  show "returns I (remove_block_from_pool b')" unfolding remove_block_from_pool_def
    by (rule returns_always) (intro keeps_intros *)
  show "returns I (destroy_block b')" unfolding destroy_block_def
    by (rule returns_always) (intro keeps_intros)
qed

definition index_is' :: "'pd \<Rightarrow> ('pd, 'bd, 'ed) pool \<times> 's \<Rightarrow> bool" where
  "index_is' d = (\<lambda>(p, s). index_is d p)"

lemma keeps_index' [keeps_intros]:
  "keeps (index_is d) m \<Longrightarrow> keeps (index_is' d) (on_pool m)" "keeps (index_is' d) (on_env k)"
  unfolding on_pool_def on_env_def by (rule keeps_zoom [where J = "index_is d"]; auto simp: index_is'_def)
    (rule keeps_zoom [where J = "\<lambda>_. True"]; auto simp: index_is'_def)

lemma returns_on_pool: "returns (\<lambda>_. True) m \<Longrightarrow> returns I (on_pool m)"
  unfolding on_pool_def by (rule returns_zoom)

lemma returns_on_env: "returns (\<lambda>_. True) m \<Longrightarrow> returns I (on_env m)"
  unfolding on_env_def by (rule returns_zoom)

lemma mem_free_block_index:
  "keeps (index_is' d) (mem_free_block E b)" "returns (\<lambda>_. True) (mem_free_block E b)"
proof -
  show "keeps (index_is' d) (mem_free_block E b)" unfolding mem_free_block_def by (intro keeps_intros)
  show "returns (\<lambda>_. True) (mem_free_block E b)"
    unfolding mem_free_block_def free_dma_mem_def chksys_def by (intro keeps_intros returns_on_pool returns_on_env)
qed

lemma free_page_index:
  assumes "\<And>b. keeps (index_is' d) (fb b)" "\<And>b. returns (\<lambda>_. True) (fb b)"
  shows "keeps (index_is' d) (free_page fb e)" "returns (\<lambda>_. True) (free_page fb e)"
proof -
  have "keeps (index_is' d) (modify (\<lambda>(p, s). (p\<lparr>p_size := p_size p - 1\<rparr>, s)))"
    by (rule keeps_modify) (auto simp: index_is'_def index_is_def)
  then show "keeps (index_is' d) (free_page fb e)"
    unfolding free_page_def Let_def by (intro keeps_intros assms(1))
  show "returns (\<lambda>_. True) (free_page fb e)"
    unfolding free_page_def Let_def by (intro keeps_intros returns_on_pool returns_get_element assms(2))
qed

lemma mem_free_page_index:
  "\<exists>r p' m'. mem_free_page E phys (p, m) = Some (r, (p', m')) \<and> p_data p' = (p_data p)(phys := None)
    \<and> (r = Inr () \<longrightarrow> p_data p phys \<noteq> None)"
proof (cases "p_data p phys")
  case None
  then show ?thesis by (simp add: mem_free_page_def prog_simps)
next
  case (Some e)
  let ?s = "(p\<lparr>p_data := (p_data p)(phys := None)\<rparr>, m)"
  have run: "mem_free_page E phys (p, m) = free_page (mem_free_block E) e ?s"
    using Some by (simp add: mem_free_page_def prog_simps)
  obtain r p' m' where r: "free_page (mem_free_block E) e ?s = Some (r, (p', m'))"
    using returnsD [OF free_page_index(2) [OF mem_free_block_index], where s = ?s] by fastforce
  have "index_is' ((p_data p)(phys := None)) (p', m')"
    by (rule keepsD [OF free_page_index(1) [OF mem_free_block_index] _ r]) (simp add: index_is'_def index_is_def)
  with Some run r show ?thesis by (simp add: index_is'_def index_is_def)
qed

section \<open>The pages of one command taken back\<close>

definition page_index :: "'h MLX5_Context \<Rightarrow> u64 \<Rightarrow> (nat \<times> nat) option" where
  "page_index c = p_data (mem_page_pool c)"

lemma reclaim_page_index:
  "\<exists>r c'. reclaim_page E ws i c = Some (r, c') \<and> dom (page_index c') \<subseteq> dom (page_index c)
    \<and> (r = Inr () \<longrightarrow> dom (page_index c') \<subset> dom (page_index c))"
proof -
  consider (short) e where "reclaim_page E ws i c = Some (Inl e, c)"
    | (page) phys where "reclaim_page E ws i c = on_mem_pool (mem_free_page E phys) c"
    by (cases "2 + i * 2 + 1 < length ws"; cases "2 + i * 2 < length ws")
      (auto simp: reclaim_page_def read_word_def prog_simps)
  then show ?thesis
  proof cases
    case short
    then show ?thesis by simp
  next
    case page
    from mem_free_page_index [of E phys "mem_page_pool c" "mach c"] obtain r p' m' where
      "mem_free_page E phys (mem_page_pool c, mach c) = Some (r, (p', m'))" "p_data p' = (p_data (mem_page_pool c))(phys := None)"
      "r = Inr () \<longrightarrow> p_data (mem_page_pool c) phys \<noteq> None" by blast
    with page show ?thesis by (auto simp: on_mem_pool_def prog_simps page_index_def)
  qed
qed

lemma reclaim_pages_index:
  "\<exists>r c'. for_each (reclaim_page E ws) is c = Some (r, c') \<and> dom (page_index c') \<subseteq> dom (page_index c)
    \<and> (r = Inr () \<and> is \<noteq> [] \<longrightarrow> dom (page_index c') \<subset> dom (page_index c))"
proof (induction "is" arbitrary: c)
  case Nil
  then show ?case by (simp add: prog_simps)
next
  case (Cons i "is")
  from reclaim_page_index [of E ws i c] obtain r c1 where r: "reclaim_page E ws i c = Some (r, c1)"
    "dom (page_index c1) \<subseteq> dom (page_index c)" "r = Inr () \<longrightarrow> dom (page_index c1) \<subset> dom (page_index c)" by blast
  show ?case
  proof (cases r)
    case (Inl e)
    with r show ?thesis by (simp add: prog_simps)
  next
    case (Inr u)
    from Cons.IH [of c1] obtain r2 c2 where r2: "for_each (reclaim_page E ws) is c1 = Some (r2, c2)"
      "dom (page_index c2) \<subseteq> dom (page_index c1)" by blast
    have "dom (page_index c1) \<subset> dom (page_index c)" using r(3) Inr by simp
    with r2(2) have "dom (page_index c2) \<subset> dom (page_index c)" by (rule subset_psubset_trans)
    moreover have "for_each (reclaim_page E ws) (i # is) c = Some (r2, c2)" using r r2 Inr by (simp add: prog_simps)
    ultimately show ?thesis by blast
  qed
qed

lemma returns_int32 [keeps_intros]: "returns I (int32 n)" "keeps I (int32 n)"
  unfolding int32_def by (intro keeps_intros)+

lemma execute_index:
  assumes "sleeps E"
  shows "\<exists>r c'. execute E opc om pl n k c = Some (r, c') \<and> page_index c' = page_index c"
proof -
  from returnsD [OF returns_execute [OF assms, where opc = opc and om = om and pl = pl and n = n and k = k], of c]
  obtain r c' where run: "execute E opc om pl n k c = Some (r, c')" by auto
  with command.exec_pools(1) [OF run] show ?thesis by (simp add: page_index_def)
qed

text \<open>
  \<open>reclaim_pages\<close> ends; the pages whose number it returns have left the index, and if that
  number is positive there was at least one.
\<close>

lemma reclaim_pages_ends:
  fixes c :: "'h MLX5_Context"
  assumes "sleeps E"
  shows "\<exists>r c'. reclaim_pages E n c = Some (r, c') \<and> dom (page_index c') \<subseteq> dom (page_index c)
    \<and> (\<forall>k. r = Inr k \<and> 0 < k \<longrightarrow> dom (page_index c') \<subset> dom (page_index c))"
proof (cases "- (2 ^ 31) \<le> n * 2 \<and> n * 2 < 2 ^ 31 \<and> - (2 ^ 31) \<le> 2 + n * 2 \<and> 2 + n * 2 < 2 ^ 31")
  case False
  then show ?thesis by (auto simp: reclaim_pages_def int32_def prog_simps)
next
  case True
  let ?ol = "word_of_int (2 + n * 2) :: u32"
  have int32: "int32 (n * 2) s = Some (Inr (n * 2), s)" "int32 (2 + n * 2) s = Some (Inr (2 + n * 2), s)" for s :: "'h MLX5_Context"
    using True by (simp_all add: int32_def prog_simps)
  obtain r1 c1 where ex: "execute E MANAGE_PAGES 2 [0, word_of_int n] 2 ?ol c = Some (r1, c1)" "page_index c1 = page_index c"
    using execute_index [OF assms] by blast
  show ?thesis
  proof (cases r1)
    case (Inl e)
    then show ?thesis using int32 ex by (simp add: reclaim_pages_def prog_simps stack_array_def Let_def)
  next
    case (Inr slot)
    let ?k = "sint (ioread32be (reg (cqe_at (cq c1) slot) (cod_output 0)) (mach c1))"
    let ?arr = "words_at (stack_junk E (mach c)) (unat (OMB_MAX_DATA + 2))"
    obtain r2 t where out: "get_cmd_output slot ?arr ?ol c1 = Some (r2, t)"
      using returnsD [OF returns_get_cmd_output [where slot = slot and out = ?arr and n = ?ol] TrueI, where s = c1] by blast
    then have out: "get_cmd_output slot ?arr ?ol c1 = Some (r2, c1)" using get_cmd_output_frame by blast
    have run: "reclaim_pages E n c = bnd (get_cmd_output slot ?arr ?ol) (\<lambda>ws.
        andthen (for_each (reclaim_page E ws) [0..<nat ?k]) (ret ?k)) c1"
      using int32 ex Inr by (simp add: reclaim_pages_def prog_simps stack_array_def Let_def)
    show ?thesis
    proof (cases r2)
      case (Inl e)
      with run out ex(2) show ?thesis by (simp add: prog_simps)
    next
      case (Inr ws)
      from reclaim_pages_index [of E ws "[0..<nat ?k]" c1] obtain r3 c3 where r3:
        "for_each (reclaim_page E ws) [0..<nat ?k] c1 = Some (r3, c3)" "dom (page_index c3) \<subseteq> dom (page_index c1)"
        "r3 = Inr () \<and> [0..<nat ?k] \<noteq> [] \<longrightarrow> dom (page_index c3) \<subset> dom (page_index c1)" by blast
      have "reclaim_pages E n c = Some (case r3 of Inl e \<Rightarrow> Inl e | Inr u \<Rightarrow> Inr ?k, c3)"
        using run out Inr r3(1) by (cases r3) (simp_all add: prog_simps)
      then show ?thesis using r3(2,3) ex(2) by (cases r3) auto
    qed
  qed
qed

lemma reclaim_all_pages_ends:
  fixes c :: "'h MLX5_Context"
  assumes sl: "sleeps E" and fin: "finite (dom (page_index c))"
  shows "\<exists>r c'. reclaim_all_pages E c = Some (r, c')"
proof -
  let ?body = "\<lambda>result. bnd (reclaim_pages E (64 * MBB_MAX_COUNT)) (\<lambda>reclaim_page_count.
       bnd (int32 (result + reclaim_page_count)) (\<lambda>result.
       ret (if reclaim_page_count = 0 then Inl result else Inr result))) :: ('h, int + int) driver"
  have "finite (dom (page_index (fst x))) \<Longrightarrow> - (2 ^ 31) \<le> snd x \<Longrightarrow> \<exists>r c'. loop ?body (snd x) (fst x) = Some (r, c')"
    for x :: "'h MLX5_Context \<times> int"
  proof (induction x rule: wf_induct_rule [OF wf_measures [of "[\<lambda>(c, n). card (dom (page_index c)), \<lambda>(c, n). nat (n + 2 ^ 31)]"]])
    case (1 x)
    obtain c n where x: "x = (c, n)" by (cases x)
    from reclaim_pages_ends [OF sl, of "64 * MBB_MAX_COUNT" c] obtain r c1 where r: "reclaim_pages E (64 * MBB_MAX_COUNT) c = Some (r, c1)"
      "dom (page_index c1) \<subseteq> dom (page_index c)" "\<And>k. r = Inr k \<Longrightarrow> 0 < k \<Longrightarrow> dom (page_index c1) \<subset> dom (page_index c)" by blast
    show ?case
    proof (cases r)
      case (Inl e)
      then have "?body n c = Some (Inl e, c1)" using r by (simp add: prog_simps)
      then show ?thesis using x by (simp add: loop_error)
    next
      case (Inr k)
      show ?thesis
      proof (cases "- (2 ^ 31) \<le> n + k \<and> n + k < 2 ^ 31")
        case False
        then have "?body n c = Some (Inl (Undefined ''signed overflow''), c1)"
          using r Inr by (auto simp: int32_def prog_simps)
        then show ?thesis using x by (simp add: loop_error)
      next
        case True
        then have b: "?body n c = Some (Inr (if k = 0 then Inl (n + k) else Inr (n + k)), c1)"
          using r Inr by (simp add: int32_def prog_simps)
        show ?thesis
        proof (cases "k = 0")
          case True
          then show ?thesis using b x by (simp add: loop_leave)
        next
          case False
          then have again: "loop ?body n c = loop ?body (n + k) c1" using b by (intro loop_again) simp
          have fin: "finite (dom (page_index c))" using 1(2) x by simp
          then have fin1: "finite (dom (page_index c1))" using r(2) by (rule rev_finite_subset)
          have "((c1, n + k), x) \<in> measures [\<lambda>(c, n). card (dom (page_index c)), \<lambda>(c, n). nat (n + 2 ^ 31)]"
          proof (cases "0 < k")
            case True
            then have "card (dom (page_index c1)) < card (dom (page_index c))" using psubset_card_mono [OF fin r(3) [OF Inr]] by simp
            then show ?thesis by (simp add: x)
          next
            case neg: False
            have "card (dom (page_index c1)) \<le> card (dom (page_index c))" using card_mono [OF fin r(2)] .
            then show ?thesis using neg False True by (auto simp: x)
          qed
          from 1(1) [OF this] fin1 True again x show ?thesis by simp
        qed
      qed
    qed
  qed
  from this [of "(c, 0)"] fin show ?thesis by (simp add: reclaim_all_pages_def)
qed

section \<open>The teardown\<close>

lemma teardown_ends:
  fixes c :: "'h MLX5_Context"
  assumes sl: "sleeps E" and fin: "finite (dom (page_index c))"
  shows "\<exists>r c'. teardown_hca E c = Some (r, c')"
proof -
  from destroy_event_queues_returns [OF sl] obtain r1 c1 where r1: "destroy_event_queues E c = Some (r1, c1)"
    using returnsD [of "\<lambda>_. True" "destroy_event_queues E" c] by blast
  have "mem_page_pool c1 = mem_page_pool c" using keepsD [OF destroy_event_queues_keeps refl r1] .
  then have f1: "finite (dom (page_index c1))" using fin by (simp add: page_index_def)
  obtain r2 c2 where r2: "execute E DEALLOC_UAR 0 [u_index (p_data (uar_page_pool c1)), 0] 2 0 c1 = Some (r2, c2)"
    "page_index c2 = page_index c1" using execute_index [OF sl] by blast
  obtain r3 c3 where r3: "execute E TEARDOWN_HCA 0 [] 0 0 c2 = Some (r3, c3)" "page_index c3 = page_index c2"
    using execute_index [OF sl] by blast
  have "finite (dom (page_index c3))" using f1 r2(2) r3(2) by simp
  from reclaim_all_pages_ends [OF sl this] obtain r4 c4 where r4: "reclaim_all_pages E c3 = Some (r4, c4)" by blast
  obtain r5 c5 where r5: "execute E DISABLE_HCA 0 [] 0 0 c4 = Some (r5, c5)"
    using execute_index [OF sl] by blast
  show ?thesis
    using r1 r2(1) r3(1) r4 r5
    by (cases r1; cases r2; cases r3; cases r4; cases r5) (simp_all add: teardown_hca_def dealloc_uar_def prog_simps)
qed

section \<open>Lending pages\<close>

text \<open>The page pool is in order and its index is finite, as it is from the start.\<close>

definition pages_ok :: "'h MLX5_Context \<Rightarrow> bool" where
  "pages_ok c \<longleftrightarrow> (\<exists>pr bs. pool_inv pr (mem_page_pool c) bs) \<and> finite (dom (page_index c))"

definition mem_pool_ok :: "MEM_Page_Pool \<times> 's \<Rightarrow> bool" where
  "mem_pool_ok = (\<lambda>(p, s). (\<exists>pr bs. pool_inv pr p bs) \<and> finite (dom (p_data p)))"

lemma mem_alloc_page_keeps:
  "keeps mem_pool_ok (mem_alloc_page E)" "returns mem_pool_ok (mem_alloc_page E)"
proof -
  have *: "\<exists>r t. mem_alloc_page E (p, m) = Some (r, t) \<and> mem_pool_ok t"
    if inv: "pool_inv pr p bs" and fin: "finite (dom (p_data p))" for p m pr bs
  proof -
    obtain r1 p1 m1 where alloc: "alloc_page (mem_alloc_block E) (p, m) = Some (r1, (p1, m1))"
      and post: "alloc_post (mem_block_ok E m) pr p bs r1 p1"
      using mem_pool.alloc_page_correct [OF inv, of E m] by blast
    have d: "p_data p1 = p_data p" using post by (auto simp: alloc_post_def data_kept_def split: sum.splits option.splits)
    obtain r t where run: "mem_alloc_page E (p, m) = Some (r, t)" "finite (dom (p_data (fst t)))"
    proof (cases r1)
      case (Inl e)
      with alloc fin d that show ?thesis by (simp add: mem_alloc_page_def prog_simps)
    next
      case (Inr x)
      show ?thesis
      proof (cases x)
        case None
        with alloc fin d Inr that show ?thesis by (simp add: mem_alloc_page_def prog_simps)
      next
        case (Some e)
        have "\<exists>r2. get_element e p1 = Some (r2, p1)"
          by (auto simp: get_element_def get_block_def bnd_def throw_def ret_def split: option.splits)
        then obtain r2 where g: "get_element e p1 = Some (r2, p1)" by blast
        with alloc fin d Inr Some that show ?thesis by (cases r2) (auto simp: mem_alloc_page_def prog_simps)
      qed
    qed
    moreover have "\<exists>pr bs. pool_inv pr (fst t) bs"
    proof (cases r)
      case (Inl e)
      with mem_alloc_page_lent [OF inv, of E m r "fst t" "snd t"] run(1) show ?thesis by auto
    next
      case (Inr e)
      with mem_alloc_page_lent [OF inv, of E m r "fst t" "snd t"] run(1) obtain bs' where "lent pr p bs [e] (fst t) bs'"
        by auto
      then show ?thesis unfolding lent_def by blast
    qed
    ultimately show ?thesis by (auto simp: mem_pool_ok_def split_def)
  qed
  have **: "\<exists>r t. mem_alloc_page E s = Some (r, t) \<and> mem_pool_ok t" if ok: "mem_pool_ok s" for s
  proof -
    obtain p m where s: "s = (p, m)" by (cases s)
    from ok s obtain pr bs where "pool_inv pr p bs" "finite (dom (p_data p))" by (auto simp: mem_pool_ok_def)
    from * [OF this, of m] s show ?thesis by simp
  qed
  show "keeps mem_pool_ok (mem_alloc_page E)"
  proof (rule keepsI)
    fix s r t assume "mem_pool_ok s" "mem_alloc_page E s = Some (r, t)"
    with ** [of s] show "mem_pool_ok t" by auto
  qed
  show "returns mem_pool_ok (mem_alloc_page E)" by (rule returnsI) (use ** in blast)
qed

lemma on_mem_pool_ok:
  assumes "keeps mem_pool_ok m" "returns mem_pool_ok m"
  shows "keeps pages_ok (on_mem_pool m)" "returns pages_ok (on_mem_pool m)"
proof -
  have ok: "mem_pool_ok (mem_page_pool c, mach c) = pages_ok c" for c
    by (simp add: mem_pool_ok_def pages_ok_def page_index_def)
  have put: "pages_ok (c\<lparr>mem_page_pool := p, mach := m\<rparr>) = mem_pool_ok (p, m)" for c :: "'a MLX5_Context" and p m
    by (simp add: mem_pool_ok_def pages_ok_def page_index_def)
  show "keeps pages_ok (on_mem_pool m)"
    unfolding on_mem_pool_def by (rule keeps_zoom [OF _ _ assms(1)]) (auto simp: ok put)
  show "returns pages_ok (on_mem_pool m)"
  proof (rule returnsI)
    fix c :: "'a MLX5_Context" assume "pages_ok c"
    then obtain r t where "m (mem_page_pool c, mach c) = Some (r, t)" using returnsD [OF assms(2)] ok by blast
    then show "\<exists>r t. on_mem_pool m c = Some (r, t)" by (simp add: on_mem_pool_def zoom_def)
  qed
qed

lemma get_page_ok: "keeps mem_pool_ok (on_pool (get_element e))" "returns mem_pool_ok (on_pool (get_element e))"
proof -
  have k: "keeps (\<lambda>q. q = p) (get_element e)" for p :: MEM_Page_Pool unfolding get_element_def by (intro keeps_intros)
  show "keeps mem_pool_ok (on_pool (get_element e))"
  proof (rule keepsI)
    fix s r t assume ok: "mem_pool_ok s" and run: "on_pool (get_element e) s = Some (r, t)"
    from run obtain u where u: "get_element e (fst s) = Some (r, u)" "t = (u, snd s)"
      unfolding on_pool_def by (rule zoom_finished) (simp add: split_def)
    with keepsD [OF k refl u(1)] ok show "mem_pool_ok t" by simp
  qed
  show "returns mem_pool_ok (on_pool (get_element e))" by (intro returns_on_pool returns_get_element)
qed

lemma execute_pages_ok:
  shows "keeps pages_ok (execute E opc om pl n k)" "sleeps E \<Longrightarrow> returns pages_ok (execute E opc om pl n k)"
proof -
  show "keeps pages_ok (execute E opc om pl n k)"
    by (rule keepsI) (simp add: pages_ok_def page_index_def command.exec_pools(1))
  show "sleeps E \<Longrightarrow> returns pages_ok (execute E opc om pl n k)"
    by (rule returns_always) (rule returns_execute)
qed

lemma stack_array_ok [keeps_intros]: "keeps I (stack_array E n)" "returns I (stack_array E n)"
  unfolding stack_array_def by (intro keeps_intros)+

lemma provide_pages_ok:
  assumes "sleeps E"
  shows "keeps pages_ok (provide_pages E n)" "returns pages_ok (provide_pages E n)"
proof -
  have p: "keeps pages_ok (provide_page E j buf)" "returns pages_ok (provide_page E j buf)" for j buf
    unfolding provide_page_def Let_def by (intro keeps_intros on_mem_pool_ok mem_alloc_page_keeps get_page_ok)+
  have r: "keeps pages_ok (provide_round E k m i buf)" "returns pages_ok (provide_round E k m i buf)" for k m i buf
    unfolding provide_round_def Let_def by (intro keeps_intros p execute_pages_ok assms)+
  show "keeps pages_ok (provide_pages E n)" "returns pages_ok (provide_pages E n)"
    unfolding provide_pages_def Let_def by (intro keeps_intros r)+
qed

text \<open>The answer to a page request ends, and leaves an index that is finite.\<close>

lemma answer_ends:
  assumes "sleeps E" "pages_ok c"
  shows "\<exists>r c'. answer_page_request E w c = Some (r, c') \<and> finite (dom (page_index c'))"
proof (cases "0 < sint w")
  case True
  from returnsD [OF provide_pages_ok(2) [OF assms(1)] assms(2)] obtain r c' where run: "provide_pages E w c = Some (r, c')" by blast
  with keepsD [OF provide_pages_ok(1) [OF assms(1)] assms(2) run] show ?thesis
    using True by (auto simp: answer_page_request_def pages_ok_def)
next
  case False
  have fin: "finite (dom (page_index c))" using assms(2) by (simp add: pages_ok_def)
  show ?thesis
  proof (cases "abs (sint w) < 2 ^ 31")
    case True
    from reclaim_pages_ends [OF assms(1), of "abs (sint w)" c] obtain r c' where run: "reclaim_pages E (abs (sint w)) c = Some (r, c')"
      "dom (page_index c') \<subseteq> dom (page_index c)" by blast
    have i: "int32 (abs (sint w)) c = Some (Inr (abs (sint w)), c)" using True by (simp add: int32_def prog_simps)
    show ?thesis
      using False i run rev_finite_subset [OF fin run(2)] by (cases r) (simp_all add: answer_page_request_def prog_simps)
  next
    case small: False
    then show ?thesis using False fin by (simp add: answer_page_request_def int32_def prog_simps)
  qed
qed

end
