(* ===== verification/Shutdown.thy ===== *)
theory Shutdown
  imports Threads Page_Returns
begin

text \<open>
  The two threads at work: a round of the handler's loop as the steps it consists of, and the
  shutdown, which comes to an end whatever the handler is doing when it begins.
\<close>

section \<open>A round of the handler\<close>

text \<open>One step of the handler, by the call it makes.\<close>

lemma handler_goes:
  assumes "t_died s = None" "handler_runs s" "handler_next E I self s (t_handler s) (t_ctx s) = Some (r, c)"
  shows "handler_step E I self s (case r of Inr h \<Rightarrow> s\<lparr>t_ctx := c, t_handler := h\<rparr> | Inl e \<Rightarrow> s\<lparr>t_ctx := c, t_died := Some e\<rparr>)"
  using assms by (cases r) (auto intro: handler_step.intros)

text \<open>
  Left to itself from the head of its loop, the handler does what \<open>handler_round\<close> does: it comes
  back to the head, or it dies of the same error, or it is caught in a call that does not return.
\<close>

definition round_end :: "'h platform \<Rightarrow> 'h irq_services \<Rightarrow> u64 \<Rightarrow> 'h threads \<Rightarrow> ((error + unit) \<times> 'h MLX5_Context) option \<Rightarrow> 'h threads \<Rightarrow> bool" where
  "round_end E I self s res t \<longleftrightarrow> (case res of
     Some (Inr u, c) \<Rightarrow> t = s\<lparr>t_ctx := c\<rparr>
   | Some (Inl e, c) \<Rightarrow> t_ctx t = c \<and> t_died t = Some e
   | None \<Rightarrow> t_died t = None \<and> handler_next E I self t (t_handler t) (t_ctx t) = None)"

lemma round_call:
  assumes "t_died s = None" "handler_runs s" "handler_next E I self s (t_handler s) (t_ctx s) = bnd m (\<lambda>x. ret (h x)) (t_ctx s)"
    and "\<And>x c. m (t_ctx s) = Some (Inr x, c) \<Longrightarrow>
      \<exists>t. (handler_step E I self)\<^sup>*\<^sup>* (s\<lparr>t_ctx := c, t_handler := h x\<rparr>) t \<and> round_end E I self s0 (k x c) t"
  shows "\<exists>t. (handler_step E I self)\<^sup>*\<^sup>* s t \<and> round_end E I self s0 (bnd m k (t_ctx s)) t"
proof (cases "m (t_ctx s)")
  case None
  then have "round_end E I self s0 (bnd m k (t_ctx s)) s" using assms(1,3) by (simp add: round_end_def bnd_None)
  then show ?thesis by blast
next
  case (Some rc)
  obtain r c where rc: "rc = (r, c)" by (cases rc)
  show ?thesis
  proof (cases r)
    case (Inl e)
    then have "handler_step E I self s (s\<lparr>t_ctx := c, t_died := Some e\<rparr>)"
      using handler_goes [OF assms(1,2), of E I self "Inl e" c] assms(3) Some rc by (simp add: bnd_Inl)
    moreover have "round_end E I self s0 (bnd m k (t_ctx s)) (s\<lparr>t_ctx := c, t_died := Some e\<rparr>)"
      using Some rc Inl by (simp add: round_end_def bnd_Inl)
    ultimately show ?thesis by blast
  next
    case (Inr x)
    then have "handler_step E I self s (s\<lparr>t_ctx := c, t_handler := h x\<rparr>)"
      using handler_goes [OF assms(1,2), of E I self "Inr (h x)" c] assms(3) Some rc by (simp add: bnd_Inr ret_def)
    moreover have "bnd m k (t_ctx s) = k x c" using Some rc Inr by (simp add: bnd_Inr)
    ultimately show ?thesis using assms(4) [of x c] Some rc Inr by (metis converse_rtranclp_into_rtranclp)
  qed
qed

text \<open>From each call of the loop to the end of the round; \<open>s\<close> is the state at its head.\<close>

abbreviation at_pc :: "'h threads \<Rightarrow> 'h MLX5_Context \<Rightarrow> handler_pc \<Rightarrow> 'h threads" where
  "at_pc s c h \<equiv> s\<lparr>t_ctx := c, t_handler := h\<rparr>"

lemma round_from_answer:
  assumes "t_died s = None" "t_handler s = Handler_Loop irq eq"
  shows "\<exists>t. (handler_step E I self)\<^sup>*\<^sup>* (at_pc s c (Handler_Answer irq eq w)) t \<and> round_end E I self s (answer_page_request E w c) t"
proof -
  let ?s = "at_pc s c (Handler_Answer irq eq w)"
  have "\<exists>t. (handler_step E I self)\<^sup>*\<^sup>* ?s t \<and> round_end E I self s (bnd (answer_page_request E w) ret (t_ctx ?s)) t"
  proof (rule round_call)
    fix u c'
    have "round_end E I self s (ret u c') (at_pc ?s c' (Handler_Loop irq eq))"
      using assms by (cases s) (simp add: round_end_def ret_def)
    then show "\<exists>t. (handler_step E I self)\<^sup>*\<^sup>* (at_pc ?s c' (Handler_Loop irq eq)) t \<and> round_end E I self s (ret u c') t" by blast
  qed (use assms in \<open>simp_all add: handler_runs_def andthen_def\<close>)
  moreover have "bnd (answer_page_request E w) ret c = answer_page_request E w c"
    by (auto simp: bnd_def ret_def split: option.splits sum.splits)
  ultimately show ?thesis by simp
qed

lemma round_from_read:
  assumes "t_died s = None" "t_handler s = Handler_Loop irq eq"
  shows "\<exists>t. (handler_step E I self)\<^sup>*\<^sup>* (at_pc s c (Handler_Read irq eq)) t
    \<and> round_end E I self s (bnd (read_eqe eq) (\<lambda>payload. answer_page_request E (payload ! 1)) c) t"
proof -
  let ?s = "at_pc s c (Handler_Read irq eq)"
  have "\<exists>t. (handler_step E I self)\<^sup>*\<^sup>* ?s t
    \<and> round_end E I self s (bnd (read_eqe eq) (\<lambda>payload. answer_page_request E (payload ! 1)) (t_ctx ?s)) t"
  proof (rule round_call)
    fix payload c'
    show "\<exists>t. (handler_step E I self)\<^sup>*\<^sup>* (at_pc ?s c' (Handler_Answer irq eq (payload ! 1))) t
      \<and> round_end E I self s (answer_page_request E (payload ! 1) c') t"
      using round_from_answer [OF assms, where c = c' and w = "payload ! 1" and E = E and I = I and self = self] by simp
  qed (use assms in \<open>simp_all add: handler_runs_def\<close>)
  then show ?thesis by simp
qed

lemma round_from_check:
  assumes "t_died s = None" "t_handler s = Handler_Loop irq eq"
  shows "\<exists>t. (handler_step E I self)\<^sup>*\<^sup>* (at_pc s c (Handler_Check irq eq)) t
    \<and> round_end E I self s (bnd (eqe_owned_by_hw eq) (\<lambda>hw. if hw then ret ()
        else bnd (read_eqe eq) (\<lambda>payload. answer_page_request E (payload ! 1))) c) t"
proof -
  let ?s = "at_pc s c (Handler_Check irq eq)"
  let ?k = "\<lambda>hw. if hw then ret () else bnd (read_eqe eq) (\<lambda>payload. answer_page_request E (payload ! 1))"
  have "\<exists>t. (handler_step E I self)\<^sup>*\<^sup>* ?s t \<and> round_end E I self s (bnd (eqe_owned_by_hw eq) ?k (t_ctx ?s)) t"
  proof (rule round_call)
    show "handler_next E I self ?s (t_handler ?s) (t_ctx ?s) =
      bnd (eqe_owned_by_hw eq) (\<lambda>hw. ret (if hw then Handler_Loop irq eq else Handler_Read irq eq)) (t_ctx ?s)" by simp
    fix hw c'
    have "round_end E I self s (ret () c') (at_pc ?s c' (Handler_Loop irq eq))"
      using assms by (cases s) (simp add: round_end_def ret_def)
    then show "\<exists>t. (handler_step E I self)\<^sup>*\<^sup>* (at_pc ?s c' (if hw then Handler_Loop irq eq else Handler_Read irq eq)) t
      \<and> round_end E I self s (?k hw c') t"
      using round_from_read [OF assms, where c = c' and E = E and I = I and self = self] by (cases hw) auto
  qed (use assms in \<open>simp_all add: handler_runs_def\<close>)
  then show ?thesis by simp
qed

lemma handler_round_steps:
  assumes "t_died s = None" "t_active s" "t_handler s = Handler_Loop irq eq"
  shows "\<exists>t. (handler_step E I self)\<^sup>*\<^sup>* s t \<and> round_end E I self s (handler_round E I irq eq (t_ctx s)) t"
proof -
  let ?c = "(t_ctx s)\<lparr>mach := irq_receive I irq (mach (t_ctx s))\<rparr>"
  let ?s1 = "at_pc s (t_ctx s) (Handler_Wait irq eq)" and ?s2 = "at_pc s ?c (Handler_Check irq eq)"
  have "handler_step E I self s ?s1"
    using handler_goes [of s E I self "Inr (Handler_Wait irq eq)" "t_ctx s"] assms by (simp add: handler_runs_def ret_def)
  moreover have "handler_step E I self ?s1 ?s2"
    using handler_goes [of ?s1 E I self "Inr (Handler_Check irq eq)" ?c] assms by (simp add: handler_runs_def on_mach_def prog_simps)
  moreover have "handler_round E I irq eq (t_ctx s) = bnd (eqe_owned_by_hw eq) (\<lambda>hw. if hw then ret ()
      else bnd (read_eqe eq) (\<lambda>payload. answer_page_request E (payload ! 1))) ?c"
    by (simp add: handler_round_def on_mach_def prog_simps)
  ultimately show ?thesis
    using round_from_check [OF assms(1,3), of E I self ?c] by (metis converse_rtranclp_into_rtranclp)
qed

section \<open>The shutdown\<close>

text \<open>The steps left of the handler, and of the main thread, once \<open>active\<close> is cleared.\<close>

fun handler_left :: "handler_pc \<Rightarrow> nat" where
  "handler_left Handler_None = 0"
| "handler_left Handler_Created = 3"
| "handler_left (Handler_Copied args eq) = 2"
| "handler_left (Handler_Loop irq eq) = 1"
| "handler_left (Handler_Wait irq eq) = 5"
| "handler_left (Handler_Check irq eq) = 4"
| "handler_left (Handler_Read irq eq) = 3"
| "handler_left (Handler_Answer irq eq w) = 2"
| "handler_left Handler_Ended = 0"

definition steps_left :: "'h threads \<Rightarrow> nat" where
  "steps_left s = (if t_died s \<noteq> None \<or> t_main s = Main_Done then 0
     else handler_left (t_handler s) + (if t_main s = Main_Joining then 2 else 1))"

text \<open>A handler in a round, which may still answer a request.\<close>

fun in_round :: "handler_pc \<Rightarrow> bool" where
  "in_round (Handler_Wait irq eq) = True"
| "in_round (Handler_Check irq eq) = True"
| "in_round (Handler_Read irq eq) = True"
| "in_round (Handler_Answer irq eq w) = True"
| "in_round _ = False"

text \<open>
  The states from the shutdown on. The page pool is in order while the handler may still answer
  a request, and its index is finite.
\<close>

definition shutting_down :: "'h threads \<Rightarrow> bool" where
  "shutting_down s \<longleftrightarrow> threads_ok s \<and> t_main s \<in> {Main_Joining, Main_Teardown, Main_Done}
     \<and> (steps_left s = 0 \<or> finite (dom (page_index (t_ctx s))) \<and> (in_round (t_handler s) \<longrightarrow> pages_ok (t_ctx s)))"

text \<open>Looking at the event queue leaves the page pool alone, and ends.\<close>

lemma keeps_pool_mach [keeps_intros]: "keeps (\<lambda>c' :: 'h MLX5_Context. mem_page_pool c' = mem_page_pool c) (on_mach m)"
  by (rule keepsI) (auto simp: on_mach_def elim!: zoom_finished)

lemma look_keeps_pool:
  fixes c :: "'h MLX5_Context"
  shows "keeps (\<lambda>c'. mem_page_pool c' = mem_page_pool c) (eqe_owned_by_hw eq)"
    "keeps (\<lambda>c'. mem_page_pool c' = mem_page_pool c) (read_eqe eq)"
  unfolding eqe_owned_by_hw_def read_eqe_def event_queue_data_def event_queue_def Let_def
  by (intro keeps_intros returns_deref)+

lemma returns_put_data: "returns I (put_data e f)"
proof -
  have "returns (\<lambda>_. True) (put_data e f)" unfolding put_data_def by (intro keeps_intros returns_on_pool)
  then show ?thesis by (rule returns_always)
qed

lemma look_returns: "returns (\<lambda>_. True) (eqe_owned_by_hw eq)" "returns (\<lambda>_. True) (read_eqe eq)"
  unfolding eqe_owned_by_hw_def read_eqe_def event_queue_data_def event_queue_def on_event_pool_def on_pool_def Let_def
  by (intro keeps_intros returns_machine returns_driver returns_put_data)+

lemma returns_create_msix_irq: "returns (\<lambda>_. True) (on_mach (create_msix_irq I self args))"
  unfolding create_msix_irq_def create_and_bind_irq_def chkcap_def chksys_def
  by (intro keeps_intros returns_machine)

text \<open>The handler's calls during the shutdown.\<close>

lemma pages_ok_pool: "mem_page_pool c' = mem_page_pool c \<Longrightarrow> pages_ok c' = pages_ok c" "mem_page_pool c' = mem_page_pool c \<Longrightarrow> page_index c' = page_index c"
  by (simp_all add: pages_ok_def page_index_def)

lemma handler_next_keeps_pool:
  fixes c :: "'h MLX5_Context"
  assumes "\<And>irq eq w. hp \<noteq> Handler_Answer irq eq w"
  shows "keeps (\<lambda>c'. mem_page_pool c' = mem_page_pool c) (handler_next E I self s hp)"
  using assms by (cases hp) (auto intro!: keeps_intros look_keeps_pool)

lemma handler_next_in_round:
  "handler_next E I self s hp c = Some (Inr h, c') \<Longrightarrow> \<not> t_active s \<Longrightarrow> in_round h \<Longrightarrow> in_round hp"
  by (cases hp) (auto simp: next_ok split: option.splits if_splits)

lemma handler_next_pages:
  fixes c :: "'h MLX5_Context"
  assumes run: "handler_next E I self s hp c = Some (r, c')" and sl: "sleeps E"
    and pages: "finite (dom (page_index c))" "in_round hp \<longrightarrow> pages_ok c" and off: "\<not> t_active s"
  shows "finite (dom (page_index c')) \<and> (\<forall>h. r = Inr h \<and> in_round h \<longrightarrow> pages_ok c')"
proof (cases "\<exists>irq eq w. hp = Handler_Answer irq eq w")
  case True
  then obtain irq eq w where hp: "hp = Handler_Answer irq eq w" by blast
  then obtain r1 where a: "answer_page_request E w c = Some (r1, c')" "\<forall>h. r = Inr h \<longrightarrow> h = Handler_Loop irq eq"
    using run by (auto simp: andthen_def bnd_def ret_def split: option.splits sum.splits)
  have "pages_ok c" using pages(2) hp by simp
  from answer_ends [OF sl this, of w] a show ?thesis by auto
next
  case False
  then have "mem_page_pool c' = mem_page_pool c" using keepsD [OF handler_next_keeps_pool refl run] by blast
  then show ?thesis
    using pages handler_next_in_round [of E I self s hp c _ c'] run off by (auto simp: pages_ok_pool [of c' c])
qed

lemma handler_next_ends:
  assumes "sleeps E" "in_round hp \<longrightarrow> pages_ok c"
  shows "\<exists>r c'. handler_next E I self s hp c = Some (r, c')"
proof (cases hp)
  case (Handler_Answer irq eq w)
  with answer_ends [OF assms(1), of c w] assms(2) obtain r c' where "answer_page_request E w c = Some (r, c')" by auto
  with Handler_Answer show ?thesis by (cases r) (simp_all add: prog_simps)
next
  case (Handler_Copied args eq)
  have "returns (\<lambda>_. True) (handler_next E I self s hp)"
    unfolding Handler_Copied handler_next.simps by (intro keeps_intros returns_create_msix_irq)
  then show ?thesis by (rule returnsD) simp
next
  case (Handler_Check irq eq)
  have "returns (\<lambda>_. True) (handler_next E I self s hp)"
    unfolding Handler_Check handler_next.simps by (intro keeps_intros look_returns)
  then show ?thesis by (rule returnsD) simp
next
  case (Handler_Read irq eq)
  have "returns (\<lambda>_. True) (handler_next E I self s hp)"
    unfolding Handler_Read handler_next.simps by (intro keeps_intros look_returns)
  then show ?thesis by (rule returnsD) simp
qed (auto simp: prog_simps on_mach_def split: option.splits)

text \<open>Every step of the shutdown brings it nearer to its end, and none begins a new round.\<close>

lemma handler_left_next:
  "handler_next E I self s hp c = Some (Inr h, c') \<Longrightarrow> \<not> t_active s \<Longrightarrow> t_frame s = None \<Longrightarrow> hp \<noteq> Handler_None \<Longrightarrow>
    hp \<noteq> Handler_Ended \<Longrightarrow> handler_left h < handler_left hp \<and> \<not> (\<exists>irq eq. h = Handler_Wait irq eq)"
  by (cases hp) (auto simp: next_ok split: option.splits if_splits)

lemma handler_dies_there:
  "handler_next E I self s hp c = Some (Inl e, c') \<Longrightarrow> hp \<noteq> Handler_Wait irq eq"
  by (cases hp) (auto simp: prog_simps on_mach_def)

lemma handler_left_pos: "hp \<noteq> Handler_None \<Longrightarrow> hp \<noteq> Handler_Ended \<Longrightarrow> 0 < handler_left hp"
  by (cases hp) auto

lemma shutdown_handler_step:
  assumes sl: "sleeps E" and step: "handler_step E I self s t" and sd: "shutting_down s"
  shows "shutting_down t \<and> steps_left t < steps_left s \<and> (\<forall>irq eq. t_handler t \<noteq> Handler_Wait irq eq)"
proof -
  have ok: "threads_ok s" "threads_ok t" using sd thread_step_ok [of E I self _ s t] step
    by (auto simp: shutting_down_def thread_step_def)
  from step have alive: "t_died s = None" and h: "t_handler s \<noteq> Handler_None" "t_handler s \<noteq> Handler_Ended"
    by (auto elim: handler_stepE simp: handler_runs_def)
  with sd ok(1) have main: "t_main s = Main_Joining" "\<not> t_active s" "t_frame s = None"
    by (auto simp: shutting_down_def threads_ok_def)
  have pages: "finite (dom (page_index (t_ctx s)))" "in_round (t_handler s) \<longrightarrow> pages_ok (t_ctx s)"
    using sd alive main by (auto simp: shutting_down_def steps_left_def)
  from step show ?thesis
  proof (rule handler_stepE)
    fix h' c assume t: "t = s\<lparr>t_ctx := c, t_handler := h'\<rparr>" and n: "handler_next E I self s (t_handler s) (t_ctx s) = Some (Inr h', c)"
    from handler_next_pages [OF n sl pages main(2)] handler_left_next [OF n main(2,3) h] ok(2) main alive
    show ?thesis unfolding t by (auto simp: shutting_down_def steps_left_def)
  next
    fix e c assume t: "t = s\<lparr>t_ctx := c, t_died := Some e\<rparr>" and n: "handler_next E I self s (t_handler s) (t_ctx s) = Some (Inl e, c)"
    from handler_dies_there [OF n] ok(2) main alive handler_left_pos [OF h]
    show ?thesis unfolding t by (auto simp: shutting_down_def steps_left_def)
  qed
qed

lemma shutdown_main_step:
  assumes step: "main_step E args s t" and sd: "shutting_down s"
  shows "shutting_down t \<and> steps_left t < steps_left s \<and> (\<forall>irq eq. t_handler t \<noteq> Handler_Wait irq eq)"
proof -
  have ok: "threads_ok s" "threads_ok t" using sd thread_step_ok [of E _ _ args s t] step
    by (auto simp: shutting_down_def thread_step_def)
  from step have alive: "t_died s = None" "\<not> main_waits s" by (auto elim: main_stepE)
  with sd ok(1) have main: "t_main s \<in> {Main_Joining, Main_Teardown}" "t_handler s = Handler_Ended"
    by (auto simp: shutting_down_def threads_ok_def main_waits_def)
  have fin: "finite (dom (page_index (t_ctx s)))" using sd alive main by (auto simp: shutting_down_def steps_left_def)
  from step show ?thesis
  proof (rule main_stepE)
    fix f c assume t: "t = f (s\<lparr>t_ctx := c\<rparr>)" and n: "main_next E args s (t_main s) (t_ctx s) = Some (Inr f, c)"
    have "t_main s = Main_Joining \<Longrightarrow> c = t_ctx s" using n by (auto simp: ret_def)
    then show ?thesis
      using main_next_ok [OF n, of "s\<lparr>t_ctx := c\<rparr>"] main alive ok(2) fin unfolding t
      by (auto simp: shutting_down_def steps_left_def)
  next
    fix e c assume t: "t = s\<lparr>t_ctx := c, t_died := Some e\<rparr>"
    show ?thesis using main alive ok(2) unfolding t by (auto simp: shutting_down_def steps_left_def)
  qed
qed

lemma shutdown_run:
  assumes sl: "sleeps E" and sd: "shutting_down s"
  shows "(thread_step E I self args ^^ n) s t \<Longrightarrow> shutting_down t \<and> n + steps_left t \<le> steps_left s
    \<and> (0 < n \<longrightarrow> (\<forall>irq eq. t_handler t \<noteq> Handler_Wait irq eq))"
proof (induction n arbitrary: t)
  case 0
  then show ?case using sd by simp
next
  case (Suc n)
  then obtain u where u: "(thread_step E I self args ^^ n) s u" "thread_step E I self args u t" by auto
  with Suc.IH have "shutting_down u" "n + steps_left u \<le> steps_left s" by blast+
  with u(2) shutdown_handler_step [OF sl, of I self u t] shutdown_main_step [of E args u t] show ?case
    unfolding thread_step_def by fastforce
qed

text \<open>A state of the shutdown in which nothing can happen any more is the end of the program.\<close>

lemma shutdown_stuck:
  assumes sl: "sleeps E" and sd: "shutting_down s" and stuck: "\<And>t. \<not> thread_step E I self args s t"
  shows "t_died s \<noteq> None \<or> t_main s = Main_Done"
proof (rule ccontr)
  assume "\<not> (t_died s \<noteq> None \<or> t_main s = Main_Done)"
  then have alive: "t_died s = None" "t_main s \<noteq> Main_Done" by simp_all
  then have pages: "finite (dom (page_index (t_ctx s)))" "in_round (t_handler s) \<longrightarrow> pages_ok (t_ctx s)"
    using sd by (auto simp: shutting_down_def steps_left_def split: if_splits)
  show False
  proof (cases "handler_runs s")
    case True
    obtain r c where "handler_next E I self s (t_handler s) (t_ctx s) = Some (r, c)"
      using handler_next_ends [OF sl pages(2)] by blast
    from handler_goes [OF alive(1) True this] stuck show False by (auto simp: thread_step_def)
  next
    case False
    with alive sd have "t_handler s = Handler_Ended" "t_main s \<in> {Main_Joining, Main_Teardown}"
      by (auto simp: handler_runs_def shutting_down_def threads_ok_def)
    then have w: "\<not> main_waits s" by (auto simp: main_waits_def)
    obtain r1 c1 where "teardown_hca E (t_ctx s) = Some (r1, c1)" using teardown_ends [OF sl pages(1)] by blast
    then have "\<exists>r c. main_next E args s (t_main s) (t_ctx s) = Some (r, c)"
      using \<open>t_main s \<in> _\<close> by (cases r1) (auto simp: prog_simps)
    then obtain r c where r: "main_next E args s (t_main s) (t_ctx s) = Some (r, c)" by blast
    have "\<exists>t. main_step E args s t"
      using Main_Goes [OF alive(1) w] Main_Dies [OF alive(1) w] r by (cases r) blast+
    with stuck show False by (auto simp: thread_step_def)
  qed
qed

text \<open>The shutdown begins with any state of the server loop.\<close>

lemma handler_left_bound: "handler_left hp \<le> 5"
  by (cases hp) simp_all

lemma shutdown_begins:
  assumes "sleeps E" "threads_ok s" "t_main s = Main_Serving"
    and "pool_inv pr (mem_page_pool (t_ctx s)) bs" "finite (dom (p_data (mem_page_pool (t_ctx s))))"
    and step: "main_step E args s u"
  shows "shutting_down u \<and> steps_left u \<le> 7"
proof -
  have "u = s\<lparr>t_active := False, t_main := Main_Joining\<rparr>"
    using step assms(3) by (auto elim!: main_stepE simp: ret_def)
  moreover have "threads_ok u" using thread_step_ok [of E _ _ args s u] assms(2) step by (auto simp: thread_step_def)
  ultimately show ?thesis
    using assms(4,5) handler_left_bound [of "t_handler s"]
    by (auto simp: shutting_down_def steps_left_def pages_ok_def page_index_def)
qed

end
