(* ===== verification/Pci.thy ===== *)
theory Pci
  imports Driver_Context
begin

text \<open>
  The PCI device: \<open>server/src/device.cc\<close>. The driver finds its device on the virtual bus, maps
  its register window, binds a DMA space to it and switches MSI-X on, all through the
  configuration space; the bus is a parameter.
\<close>

section \<open>The virtual bus\<close>

record vbus_resource =
  vr_type :: u32
  vr_start :: u64

text \<open>
  The operations of the vbus and of L4Re the code calls, with their result, negative on
  failure and \<open>0\<close> for success. A device is a handle. A read of the configuration space with
  a width of 8, 16 or 32 bits fills a 32-bit variable.
\<close>

record 'h vbus =
  next_device :: "'h machine \<Rightarrow> (int \<times> u64) \<times> 'h machine"
  cfg_read :: "u64 \<Rightarrow> u32 \<Rightarrow> nat \<Rightarrow> 'h machine \<Rightarrow> (int \<times> u32) \<times> 'h machine"
  cfg_write :: "u64 \<Rightarrow> u32 \<Rightarrow> u32 \<Rightarrow> nat \<Rightarrow> 'h machine \<Rightarrow> int \<times> 'h machine"
  bar_attach :: "u64 \<Rightarrow> u64 \<Rightarrow> u64 \<Rightarrow> 'h machine \<Rightarrow> (int \<times> u64) \<times> 'h machine"
  num_resources :: "u64 \<Rightarrow> 'h machine \<Rightarrow> (int \<times> nat) \<times> 'h machine"
  get_resource :: "u64 \<Rightarrow> nat \<Rightarrow> 'h machine \<Rightarrow> (int \<times> vbus_resource) \<times> 'h machine"
  dma_cap_slot :: "'h machine \<Rightarrow> u64 option \<times> 'h machine"
  dma_space_create :: "u64 \<Rightarrow> 'h machine \<Rightarrow> int \<times> 'h machine"
  assign_dma_domain :: "u64 \<Rightarrow> u64 \<Rightarrow> u64 \<Rightarrow> 'h machine \<Rightarrow> int \<times> 'h machine"
  icu_by_hid :: "u64 \<Rightarrow> 'h machine \<Rightarrow> (int \<times> u64) \<times> 'h machine"
  icu_cap_slot :: "'h machine \<Rightarrow> u64 option \<times> 'h machine"
  icu_vicu :: "u64 \<Rightarrow> u64 \<Rightarrow> 'h machine \<Rightarrow> int \<times> 'h machine"
  icu_info :: "u64 \<Rightarrow> 'h machine \<Rightarrow> int \<times> 'h machine"
  dma_domain_type :: u32
  src_dev_handle :: u64

text \<open>A checked read and a checked write of the configuration space.\<close>

definition cfg_get :: "'h vbus \<Rightarrow> u64 \<Rightarrow> u32 \<Rightarrow> nat \<Rightarrow> ('h machine, u32) prog" where
  "cfg_get V dev r w = bnd (pure_op (cfg_read V dev r w)) (\<lambda>(e, v). andthen (chksys '''' e) (ret v))"

definition cfg_put :: "'h vbus \<Rightarrow> u64 \<Rightarrow> u32 \<Rightarrow> u32 \<Rightarrow> nat \<Rightarrow> ('h machine, unit) prog" where
  "cfg_put V dev r v w = bnd (pure_op (cfg_write V dev r v w)) (\<lambda>e. chksys '''' e)"

section \<open>Finding the device\<close>

text \<open>
  The last device with the vendor's id; \<open>None\<close> is the device object as its constructor left
  it. The errors of the two reads are not looked at.
\<close>

definition pci_get_dev :: "'h vbus \<Rightarrow> ('h machine, u64 option) prog" where
  "pci_get_dev V =
     loop (\<lambda>result.
       bnd (pure_op (next_device V)) (\<lambda>(r, child).
       if r \<noteq> 0 then ret (Inl result)
       else bnd (pure_op (cfg_read V child 0 32)) (\<lambda>(_, id_reg).
            bnd (pure_op (cfg_read V child 8 32)) (\<lambda>_.
            ret (Inr (if (ucast id_reg :: u16) = 0x15b3 then Some child else result)))))) None"

section \<open>The register window\<close>

text \<open>Address and size from what the base address registers hold and answer when sized.\<close>

definition bar_range :: "u32 \<Rightarrow> u32 \<Rightarrow> u32 \<Rightarrow> u32 \<Rightarrow> u64 \<times> u64" where
  "bar_range lsb_addr lsb_size msb_addr msb_size =
     (if lsb_addr AND 4 \<noteq> 0
      then (push_bit 32 (ucast msb_addr) + ucast (lsb_addr AND 0xfffffff0),
            NOT (push_bit 32 (ucast msb_size) + ucast (lsb_size AND 0xfffffff0)) + 1)
      else if lsb_addr AND 1 \<noteq> 0
      then (ucast (lsb_addr AND 0xfffffffc), ucast (NOT (lsb_size AND 0xfffffffc) + 1))
      else (ucast (lsb_addr AND 0xfffffff0), ucast (NOT (lsb_size AND 0xfffffff0) + 1)))"

text \<open>Sizing a register: save it, write ones, read the mask back, restore it.\<close>

definition size_bar :: "'h vbus \<Rightarrow> u64 \<Rightarrow> u32 \<Rightarrow> ('h machine, u32 \<times> u32) prog" where
  "size_bar V dev r =
     bnd (cfg_get V dev r 32) (\<lambda>addr.
     andthen (cfg_put V dev r 0xffffffff 32)
    (bnd (cfg_get V dev r 32) (\<lambda>sz.
     andthen (cfg_put V dev r addr 32)
             (ret (addr, sz)))))"

definition round_page :: "u64 \<Rightarrow> u64" where
  "round_page x = (x + 0xfff) AND NOT 0xfff"

definition map_pci_bar :: "'h vbus \<Rightarrow> u64 \<Rightarrow> u32 \<Rightarrow> ('h machine, u64) prog" where
  "map_pci_bar V dev idx =
     bnd (cfg_get V dev 4 32) (\<lambda>cmd.
     andthen (cfg_put V dev 4 ((cmd AND 0xfffffffc) OR 4) 32)
    (bnd (size_bar V dev (0x10 + idx * 4)) (\<lambda>(lsb_addr, lsb_size).
     bnd (if lsb_addr AND 4 \<noteq> 0 then size_bar V dev (0x14 + idx * 4) else ret (0, 0)) (\<lambda>(msb_addr, msb_size).
     let (bar_addr, bar_size) = bar_range lsb_addr lsb_size msb_addr msb_size in
     bnd (cfg_get V dev 4 32) (\<lambda>cmd.
     andthen (cfg_put V dev 4 ((cmd AND 0xfffffffc) + 3) 32)
    (bnd (pure_op (bar_attach V dev (round_page bar_size) bar_addr)) (\<lambda>(r, mem_addr).
     andthen (chksys '''' r) (ret mem_addr))))))))"

section \<open>DMA space and interrupt controller\<close>

text \<open>The loop over the device's resources, which stops at the first DMA domain.\<close>

fun find_domain :: "'h vbus \<Rightarrow> u64 \<Rightarrow> nat list \<Rightarrow> ('h machine, vbus_resource option) prog" where
  "find_domain V dev [] = ret None"
| "find_domain V dev (i # is) =
     bnd (pure_op (get_resource V dev i)) (\<lambda>(r, res).
     andthen (chksys '''' r)
    (if vr_type res = dma_domain_type V then ret (Some res) else find_domain V dev is))"

definition bind_dma_space_to_device :: "'h vbus \<Rightarrow> u64 \<Rightarrow> ('h machine, u64) prog" where
  "bind_dma_space_to_device V dev =
     bnd (pure_op (num_resources V dev)) (\<lambda>(r, n).
     andthen (chksys '''' r)
    (bnd (find_domain V dev [0..<n]) (\<lambda>res.
     case res of None \<Rightarrow> throw Terminate
     | Some res \<Rightarrow>
         bnd (pure_op (dma_cap_slot V)) (\<lambda>c.
         bnd (chkcap ''Failed to allocate capability slot.'' c) (\<lambda>dma_cap.
         bnd (pure_op (dma_space_create V dma_cap)) (\<lambda>r.
         andthen (chksys ''Failed to create DMA space.'' r)
        (bnd (pure_op (assign_dma_domain V dev (vr_start res) dma_cap)) (\<lambda>r.
         andthen (chksys ''Failed to bind to device's DMA domain.'' r)
                 (ret dma_cap)))))))))"

definition create_icu_cap :: "'h vbus \<Rightarrow> u64 \<Rightarrow> ('h machine, u64) prog" where
  "create_icu_cap V dev =
     bnd (pure_op (icu_by_hid V dev)) (\<lambda>(r, vbus_icu).
     if r < 0 then throw Terminate
     else bnd (pure_op (icu_cap_slot V)) (\<lambda>c.
     bnd (chkcap ''Failed to allocate ICU capability'' c) (\<lambda>icu.
     bnd (pure_op (icu_vicu V vbus_icu icu)) (\<lambda>r.
     if r \<noteq> 0 then throw Terminate
     else bnd (pure_op (icu_info V icu)) (\<lambda>r.
     if r < 0 then throw Terminate else ret icu)))))"

section \<open>Capabilities of the device\<close>

text \<open>The walk along the list of capabilities; \<open>cap_ptr\<close> starts one before the list's head.\<close>

definition cap_round :: "'h vbus \<Rightarrow> u64 \<Rightarrow> u32 \<Rightarrow> u32 \<Rightarrow> ('h machine, u32 + u32) prog" where
  "cap_round V dev target cap_ptr =
     bnd (cfg_get V dev (cap_ptr + 1) 8) (\<lambda>p.
     let cap_ptr = p AND 0xfc in
     bnd (cfg_get V dev cap_ptr 8) (\<lambda>cap_id.
     ret (if cap_id = target then Inl cap_ptr else if cap_ptr \<noteq> 0 then Inr cap_ptr else Inl 0)))"

definition get_pci_cap :: "'h vbus \<Rightarrow> u64 \<Rightarrow> u8 \<Rightarrow> ('h machine, u32) prog" where
  "get_pci_cap V dev target_cap_id =
     bnd (cfg_get V dev 6 16) (\<lambda>status.
     if status AND 0x10 = 0 then ret 0
     else loop (cap_round V dev (ucast target_cap_id)) (0x34 - 1))"

text \<open>The result code with table offset, BAR index and table size.\<close>

definition setup_msix :: "'h vbus \<Rightarrow> u64 \<Rightarrow> ('h machine, int \<times> u32 \<times> u32 \<times> u32) prog" where
  "setup_msix V dev =
     bnd (get_pci_cap V dev 0x11) (\<lambda>msix_cap.
     if msix_cap = 0 then ret (1, 0, 0, 0)
     else bnd (cfg_get V dev (msix_cap + 2) 16) (\<lambda>msix_ctrl.
     let msix_ctrl = (msix_ctrl OR 0x8000) AND 0xffffbfff in
     andthen (cfg_put V dev (msix_cap + 2) msix_ctrl 16)
    (let table_size = msix_ctrl AND 0x7ff in
     bnd (cfg_get V dev (msix_cap + 4) 32) (\<lambda>table_pos.
     ret (if table_size = 0 then 1 else 0, table_pos AND 0xfff8, table_pos AND 7, table_size)))))"

end
