(* ===== verification/Server_Main.thy ===== *)
theory Server_Main
  imports Threads Pci
begin

text \<open>
  The start of \<open>server/src/main.cc\<close>, up to the end of \<open>init_hca\<close>; what follows, the two threads
  and the shutdown, is in \<^theory_text>\<open>Threads\<close>.
\<close>

text \<open>
  What \<open>main\<close> finds out for the handler thread: the source id of the device's interrupts, the
  MSI-X table, and the interrupt controller.
\<close>

record msix_setup =
  ms_icu_src :: u64
  ms_table :: u64
  ms_icu :: u64

text \<open>The window the MSI-X table is in, and the table's address.\<close>

definition find_msix_table :: "'h vbus \<Rightarrow> u64 \<Rightarrow> u64 \<Rightarrow> ('h machine, u64) prog" where
  "find_msix_table V dev bar0 =
     bnd (setup_msix V dev) (\<lambda>(r, table_offset, bir, table_size).
     if r \<noteq> 0 then throw Terminate
     else if table_size + 1 < 10 then throw Terminate
     else bnd (if bir = 0 then ret bar0 else map_pci_bar V dev bir) (\<lambda>table_bar.
          ret (table_bar + ucast table_offset)))"

text \<open>The command memory: the queue and the two mailboxes of 50 blocks.\<close>

definition alloc_command_memory :: "'h platform \<Rightarrow> ('h, unit) driver" where
  "alloc_command_memory E =
     bnd (on_mach (alloc_dma_mem E HCA_PAGE_SIZE)) (\<lambda>dm.
     andthen (modify (\<lambda>c. c\<lparr>cq := (cq c)\<lparr>q_dma_mem := dm\<rparr>\<rparr>))
    (bnd (on_mach (alloc_dma_mem E (HCA_PAGE_SIZE * 50))) (\<lambda>dm.
     andthen (modify (\<lambda>c. c\<lparr>imb_mem := dm\<rparr>))
    (bnd (on_mach (alloc_dma_mem E (HCA_PAGE_SIZE * 50))) (\<lambda>dm.
     modify (\<lambda>c. c\<lparr>omb_mem := dm\<rparr>))))))"

text \<open>
  What \<open>main\<close> writes to its \<open>ctx\<close>, and what the constructor of \<open>ctx\<close> has initialised before: the
  head of the command queue and the indices. The rest of it is arbitrary.
\<close>

definition empty_index :: "'c Queue_Obj_Pool \<Rightarrow> 'c Queue_Obj_Pool" where
  "empty_index p = p\<lparr>p_data := (p_data p)\<lparr>q_index := (\<lambda>_. None)\<rparr>\<rparr>"

definition init_context :: "u64 \<Rightarrow> 'h MLX5_Context \<Rightarrow> 'h MLX5_Context" where
  "init_context bar0 c = c\<lparr>
     mem_page_pool := (mem_page_pool c)\<lparr>p_max := 65536, p_size := 0, p_block_size := 1024,
       p_block_count := 0, p_data := (\<lambda>_. None), p_start := None\<rparr>,
     event_queue_pool := empty_index (event_queue_pool c),
     compl_queue_pool := empty_index (compl_queue_pool c),
     work_queue_pool := empty_index (work_queue_pool c),
     init_seg := bar0, dbv := reg bar0 init_dbv,
     cq := (cq c)\<lparr>q_size := 32, q_head := 0, q_start := dm_virt (q_dma_mem (cq c))\<rparr>\<rparr>"

text \<open>
  A capability of the vbus that is not valid ends the program; a device that was not found
  is the handle \<open>no_dev\<close>.
\<close>

definition main_init :: "'h vbus \<Rightarrow> 'h platform \<Rightarrow> bool \<Rightarrow> u64 \<Rightarrow> ('h, msix_setup) driver" where
  "main_init V E vbus_valid no_dev =
     (if \<not> vbus_valid then throw Terminate
      else bnd (on_mach (pci_get_dev V)) (\<lambda>found.
      let dev = (case found of None \<Rightarrow> no_dev | Some d \<Rightarrow> d) in
      bnd (on_mach (map_pci_bar V dev 0)) (\<lambda>bar0.
      bnd (on_mach (find_msix_table V dev bar0)) (\<lambda>msix_table.
      bnd (on_mach (create_icu_cap V dev)) (\<lambda>icu.
      bnd (on_mach (bind_dma_space_to_device V dev)) (\<lambda>_.
      andthen (alloc_command_memory E)
     (andthen (modify (init_context bar0))
     (andthen (init_hca E)
              (ret \<lparr>ms_icu_src = dev OR src_dev_handle V, ms_table = msix_table, ms_icu = icu\<rparr>)))))))))"

text \<open>A server object that cannot be registered makes \<open>main\<close> return 1 before all that.\<close>

definition main_begin :: "'h vbus \<Rightarrow> 'h platform \<Rightarrow> bool \<Rightarrow> bool \<Rightarrow> u64 \<Rightarrow> ('h, msix_setup option) driver" where
  "main_begin V E registered vbus_valid no_dev =
     (if \<not> registered then ret None else bnd (main_init V E vbus_valid no_dev) (\<lambda>ms. ret (Some ms)))"

end
