(* ===== verification/Server.thy ===== *)
theory Server
  imports Device_IO
begin

text \<open>
  The service threads: \<open>server/src/interface.h\<close>, \<open>wq_interface.cc\<close>, \<open>cq_interface.cc\<close> and
  \<open>server_interface.cc\<close>. A client asks the server for a work or completion queue object; a
  thread of its own then owns the object, allocates its memory and answers its requests
  until it is told to terminate. The queues of these objects are not connected to the
  device yet.
\<close>

section \<open>The services used\<close>

text \<open>
  L4Re's operations, with their result, negative or \<open>True\<close> on failure. \<open>await_ready n\<close> is the
  creator's wait for the ready message, without a timeout, when the new thread has sent it
  (\<open>n\<close>) or has returned without; \<open>None\<close> means that the wait does not end. \<open>junk_cap\<close> is what
  a capability variable holds before it is set.
\<close>

record 'h server_services =
  run_thread :: "'h machine \<Rightarrow> bool \<times> 'h machine"
  ds_cap_alloc :: "'h machine \<Rightarrow> u64 option \<times> 'h machine"
  ds_alloc :: "u64 \<Rightarrow> u64 \<Rightarrow> 'h machine \<Rightarrow> int \<times> 'h machine"
  ds_attach :: "u64 \<Rightarrow> u64 \<Rightarrow> 'h machine \<Rightarrow> (int \<times> u64) \<times> 'h machine"
  ds_detach :: "u64 \<Rightarrow> 'h machine \<Rightarrow> int \<times> 'h machine"
  ds_cap_free :: "u64 \<Rightarrow> 'h machine \<Rightarrow> 'h machine"
  register_obj :: "'h machine \<Rightarrow> u64 option \<times> 'h machine"
  unregister_obj :: "'h machine \<Rightarrow> 'h machine"
  ipc_send_ready :: "'h machine \<Rightarrow> bool \<times> 'h machine"
  await_ready :: "bool \<Rightarrow> 'h machine \<Rightarrow> (bool \<times> 'h machine) option"
  invalid_cap :: u64
  junk_cap :: u64

text \<open>How \<open>setup_and_start\<close> goes before it serves: the capability stored to \<open>*res\<close>, if it was.\<close>

datatype setup_result =
    Setup_Failed
  | Setup_Unannounced u64
  | Setup_Ready u64

section \<open>Work queue objects\<close>

record WQ_impl =
  wi_rq :: u64
  wi_sq :: u64
  wi_dbr :: u64
  wi_rq_addr :: u64
  wi_sq_addr :: u64
  wi_dbr_addr :: u64
  wi_rq_size :: u64
  wi_sq_size :: u64
  wi_dbr_size :: u64

type_synonym ('h, 'a) wq_prog = "(WQ_impl \<times> 'h machine, 'a) prog"

definition srv :: "('h machine \<Rightarrow> 'a \<times> 'h machine) \<Rightarrow> ('o \<times> 'h machine, 'a) prog" where
  "srv f = (\<lambda>(w, m). let (x, m') = f m in Some (Inr x, (w, m')))"

definition obj :: "('o \<Rightarrow> 'o) \<Rightarrow> ('o \<times> 'h machine, unit) prog" where
  "obj f = modify (\<lambda>(w, m). (f w, m))"

definition wq_mem_alloc :: "'h server_services \<Rightarrow> u64 \<Rightarrow> ('h, int) wq_prog" where
  "wq_mem_alloc S qsize =
     bnd (srv (ds_cap_alloc S)) (\<lambda>c.
     andthen (obj (\<lambda>w. w\<lparr>wi_rq := (case c of None \<Rightarrow> invalid_cap S | Some x \<Rightarrow> x)\<rparr>))
    (case c of None \<Rightarrow> ret 1
     | Some rq \<Rightarrow>
         bnd (srv (ds_alloc S qsize rq)) (\<lambda>r.
         if r < 0 then ret 1
         else bnd (srv (ds_attach S qsize rq)) (\<lambda>(r, addr).
              if r < 0 then ret 1
              else andthen (obj (\<lambda>w. w\<lparr>wi_rq_addr := addr, wi_rq_size := qsize\<rparr>)) (ret 0)))))"

definition wq_cleanup :: "'h server_services \<Rightarrow> ('h, unit) wq_prog" where
  "wq_cleanup S =
     bnd (gets (\<lambda>(w, m). (wi_rq_addr w, wi_rq w))) (\<lambda>(addr, rq).
     bnd (srv (ds_detach S addr)) (\<lambda>_.
     modify (\<lambda>(w, m). (w, ds_cap_free S rq m))))"

datatype wq_request = WQ_sub u32 u32 | WQ_get_rq | WQ_get_sq | WQ_get_dbr | WQ_terminate

datatype reply = Reply_Number u32 | Reply_Cap u64

text \<open>\<open>op_sub\<close>, \<open>op_get_rq\<close>, \<open>op_get_sq\<close>, \<open>op_get_dbr\<close> and \<open>op_terminate\<close>.\<close>

fun wq_dispatch :: "wq_request \<Rightarrow> ('h, reply) wq_prog" where
  "wq_dispatch (WQ_sub a b) = ret (Reply_Number (a - b))"
| "wq_dispatch WQ_get_rq = gets (\<lambda>(w, m). Reply_Cap (wi_rq w))"
| "wq_dispatch WQ_get_sq = gets (\<lambda>(w, m). Reply_Cap (wi_rq w))"
| "wq_dispatch WQ_get_dbr = gets (\<lambda>(w, m). Reply_Cap (wi_dbr w))"
| "wq_dispatch WQ_terminate = throw Std_exception"

definition wq_setup :: "'h server_services \<Rightarrow> u64 \<Rightarrow> ('h, setup_result) wq_prog" where
  "wq_setup S qsize =
     bnd (srv (run_thread S)) (\<lambda>err.
     if err then ret Setup_Failed
     else bnd (wq_mem_alloc S qsize) (\<lambda>r.
     if r \<noteq> 0 then ret Setup_Failed
     else bnd (srv (register_obj S)) (\<lambda>c.
     case c of None \<Rightarrow> ret Setup_Failed
     | Some cap \<Rightarrow>
         bnd (srv (ipc_send_ready S)) (\<lambda>err.
         ret (if err then Setup_Unannounced cap else Setup_Ready cap)))))"

text \<open>
  The server loop on a sequence of requests: the replies, and whether the loop was left by
  an exception, after which the object is unregistered and cleaned up.
\<close>

fun wq_serve :: "'h server_services \<Rightarrow> wq_request list \<Rightarrow> ('h, reply list \<times> bool) wq_prog" where
  "wq_serve S [] = ret ([], False)"
| "wq_serve S (r # rs) = (\<lambda>s. case wq_dispatch r s of
       None \<Rightarrow> None
     | Some (Inl e, s) \<Rightarrow>
         andthen (modify (\<lambda>(w, m). (w, unregister_obj S m))) (andthen (wq_cleanup S) (ret ([], True))) s
     | Some (Inr x, s) \<Rightarrow> bnd (wq_serve S rs) (\<lambda>(xs, ended). ret (x # xs, ended)) s)"

section \<open>Completion queue objects\<close>

record CQ_impl =
  ci_cq :: u64
  ci_cq_addr :: u64
  ci_cq_size :: u64

type_synonym ('h, 'a) cq_prog = "(CQ_impl \<times> 'h machine, 'a) prog"

definition cq_mem_alloc :: "'h server_services \<Rightarrow> u64 \<Rightarrow> ('h, int) cq_prog" where
  "cq_mem_alloc S qsize =
     bnd (srv (ds_cap_alloc S)) (\<lambda>c.
     andthen (obj (\<lambda>w. w\<lparr>ci_cq := (case c of None \<Rightarrow> invalid_cap S | Some x \<Rightarrow> x)\<rparr>))
    (case c of None \<Rightarrow> ret 1
     | Some cq \<Rightarrow>
         bnd (srv (ds_alloc S qsize cq)) (\<lambda>r.
         if r < 0 then ret 1
         else bnd (srv (ds_attach S qsize cq)) (\<lambda>(r, addr).
              if r < 0 then ret 1
              else andthen (obj (\<lambda>w. w\<lparr>ci_cq_addr := addr, ci_cq_size := qsize\<rparr>)) (ret 0)))))"

definition cq_cleanup :: "'h server_services \<Rightarrow> ('h, unit) cq_prog" where
  "cq_cleanup S =
     bnd (gets (\<lambda>(w, m). (ci_cq_addr w, ci_cq w))) (\<lambda>(addr, cq).
     bnd (srv (ds_detach S addr)) (\<lambda>_.
     modify (\<lambda>(w, m). (w, ds_cap_free S cq m))))"

datatype cq_request = CQ_get_cq | CQ_terminate

fun cq_dispatch :: "cq_request \<Rightarrow> ('h, reply) cq_prog" where
  "cq_dispatch CQ_get_cq = gets (\<lambda>(w, m). Reply_Cap (ci_cq w))"
| "cq_dispatch CQ_terminate = throw Std_exception"

definition cq_setup :: "'h server_services \<Rightarrow> u64 \<Rightarrow> ('h, setup_result) cq_prog" where
  "cq_setup S qsize =
     bnd (srv (run_thread S)) (\<lambda>err.
     if err then ret Setup_Failed
     else bnd (cq_mem_alloc S qsize) (\<lambda>r.
     if r \<noteq> 0 then ret Setup_Failed
     else bnd (srv (register_obj S)) (\<lambda>c.
     case c of None \<Rightarrow> ret Setup_Failed
     | Some cap \<Rightarrow>
         bnd (srv (ipc_send_ready S)) (\<lambda>err.
         ret (if err then Setup_Unannounced cap else Setup_Ready cap)))))"

fun cq_serve :: "'h server_services \<Rightarrow> cq_request list \<Rightarrow> ('h, reply list \<times> bool) cq_prog" where
  "cq_serve S [] = ret ([], False)"
| "cq_serve S (r # rs) = (\<lambda>s. case cq_dispatch r s of
       None \<Rightarrow> None
     | Some (Inl e, s) \<Rightarrow>
         andthen (modify (\<lambda>(w, m). (w, unregister_obj S m))) (andthen (cq_cleanup S) (ret ([], True))) s
     | Some (Inr x, s) \<Rightarrow> bnd (cq_serve S rs) (\<lambda>(xs, ended). ret (x # xs, ended)) s)"

section \<open>The server object\<close>

text \<open>
  Waiting for the new thread, and the capability handed to the client: the one the thread
  stored, or what the variable held. An error of the wait is printed only.
\<close>

definition await_thread :: "'h server_services \<Rightarrow> setup_result \<Rightarrow> ('h machine, u64) prog" where
  "await_thread S r = (\<lambda>m. case await_ready S (\<exists>cap. r = Setup_Ready cap) m of
       None \<Rightarrow> None
     | Some (_, m') \<Rightarrow> Some (Inr (case r of
           Setup_Failed \<Rightarrow> junk_cap S
         | Setup_Unannounced cap \<Rightarrow> cap
         | Setup_Ready cap \<Rightarrow> cap), m'))"

text \<open>The result is \<open>L4_EOK\<close>, 0, and the capability; the new object is that of the thread.\<close>

definition op_create_wq :: "'h server_services \<Rightarrow> WQ_impl \<Rightarrow> u64 \<Rightarrow> ('h machine, int \<times> u64) prog" where
  "op_create_wq S w qsize = (\<lambda>m. case wq_setup S qsize (w, m) of
       None \<Rightarrow> None
     | Some (Inl e, (_, m)) \<Rightarrow> Some (Inl e, m)
     | Some (Inr r, (_, m)) \<Rightarrow> bnd (await_thread S r) (\<lambda>cap. ret (0, cap)) m)"

definition op_create_cq :: "'h server_services \<Rightarrow> CQ_impl \<Rightarrow> u64 \<Rightarrow> ('h machine, int \<times> u64) prog" where
  "op_create_cq S w qsize = (\<lambda>m. case cq_setup S qsize (w, m) of
       None \<Rightarrow> None
     | Some (Inl e, (_, m)) \<Rightarrow> Some (Inl e, m)
     | Some (Inr r, (_, m)) \<Rightarrow> bnd (await_thread S r) (\<lambda>cap. ret (0, cap)) m)"

definition op_kill :: "('s, int) prog" where
  "op_kill = throw (Runtime_error ''service loop killed'')"

end
