(* ===== verification/Server_Facts.thy ===== *)
theory Server_Facts
  imports Server
begin

text \<open>
  What a client sees of the service threads: the replies to a sequence of requests, the end
  of the thread, and the result of creating an object.
\<close>

lemma srv_run [prog_simps]: "srv f (w, m) = Some (Inr (fst (f m)), (w, snd (f m)))"
  by (simp add: srv_def split: prod.splits)

lemma bnd_srv [prog_simps]: "bnd (srv f) k (w, m) = k (fst (f m)) (w, snd (f m))"
  by (simp add: bnd_def srv_run)

lemma obj_run [prog_simps]: "obj f (w, m) = Some (Inr (), (f w, m))"
  by (simp add: obj_def prog_simps)

section \<open>Serving\<close>

text \<open>
  The contract of a service object: a request that ends it shuts it down, any other is
  answered from the object and leaves it as it is. In it, what a sequence of requests does.
\<close>

locale service_object =
  fixes serve :: "'r list \<Rightarrow> ('o \<times> 'h machine, reply list \<times> bool) prog"
    and ends :: "'r \<Rightarrow> bool" and answer :: "'o \<Rightarrow> 'r \<Rightarrow> reply" and shut :: "'o \<Rightarrow> 'h machine \<Rightarrow> 'h machine"
  assumes serve_nothing: "serve [] (w, m) = Some (Inr ([], False), (w, m))"
    and serve_end: "ends r \<Longrightarrow> serve (r # rs) (w, m) = Some (Inr ([], True), (w, shut w m))"
    and serve_request: "\<not> ends r \<Longrightarrow> serve (r # rs) (w, m) =
      bnd (serve rs) (\<lambda>(xs, ended). ret (answer w r # xs, ended)) (w, m)"
begin

lemma serve_run:
  "serve rs (w, m) = Some (Inr (map (answer w) (takeWhile (\<lambda>r. \<not> ends r) rs), \<exists>r\<in>set rs. ends r),
     (w, if \<exists>r\<in>set rs. ends r then shut w m else m))"
proof (induction rs)
  case (Cons r rs)
  then show ?case by (cases "ends r") (auto simp: serve_end serve_request prog_simps)
qed (simp add: serve_nothing)

text \<open>Requests after the one that ends the object have no effect.\<close>

lemma serve_after_end: "ends r \<Longrightarrow> serve (rs @ r # ss) (w, m) = serve (rs @ [r]) (w, m)"
  by (auto simp: serve_run takeWhile_append)

end

text \<open>The reply of a work queue object to a request that does not end it, and its shutdown.\<close>

fun wq_reply :: "WQ_impl \<Rightarrow> wq_request \<Rightarrow> reply" where
  "wq_reply w (WQ_sub a b) = Reply_Number (a - b)"
| "wq_reply w WQ_get_dbr = Reply_Cap (wi_dbr w)"
| "wq_reply w r = Reply_Cap (wi_rq w)"

definition wq_shutdown :: "'h server_services \<Rightarrow> WQ_impl \<Rightarrow> 'h machine \<Rightarrow> 'h machine" where
  "wq_shutdown S w m = ds_cap_free S (wi_rq w) (snd (ds_detach S (wi_rq_addr w) (unregister_obj S m)))"

lemma wq_dispatch_run:
  "wq_dispatch r (w, m) = Some (if r = WQ_terminate then Inl Std_exception else Inr (wq_reply w r), (w, m))"
  by (cases r) (simp_all add: prog_simps)

lemma wq_cleanup_run: "wq_cleanup S (w, m) = Some (Inr (), (w, ds_cap_free S (wi_rq w) (snd (ds_detach S (wi_rq_addr w) m))))"
  by (simp add: wq_cleanup_def prog_simps)

interpretation wq: service_object "wq_serve S" "\<lambda>r. r = WQ_terminate" wq_reply "wq_shutdown S" for S
  by unfold_locales (simp_all add: prog_simps wq_dispatch_run wq_cleanup_run wq_shutdown_def)

definition cq_shutdown :: "'h server_services \<Rightarrow> CQ_impl \<Rightarrow> 'h machine \<Rightarrow> 'h machine" where
  "cq_shutdown S w m = ds_cap_free S (ci_cq w) (snd (ds_detach S (ci_cq_addr w) (unregister_obj S m)))"

lemma cq_dispatch_run:
  "cq_dispatch r (w, m) = Some (if r = CQ_terminate then Inl Std_exception else Inr (Reply_Cap (ci_cq w)), (w, m))"
  by (cases r) (simp_all add: prog_simps)

lemma cq_cleanup_run: "cq_cleanup S (w, m) = Some (Inr (), (w, ds_cap_free S (ci_cq w) (snd (ds_detach S (ci_cq_addr w) m))))"
  by (simp add: cq_cleanup_def prog_simps)

interpretation cq: service_object "cq_serve S" "\<lambda>r. r = CQ_terminate" "\<lambda>w r. Reply_Cap (ci_cq w)" "cq_shutdown S" for S
  by unfold_locales (simp_all add: prog_simps cq_dispatch_run cq_cleanup_run cq_shutdown_def)

section \<open>Creating an object\<close>

text \<open>
  How the thread of a new object fares, from the services alone: it fails where the first of
  the operations it needs fails, and is ready when it has been registered and has said so.
\<close>

definition thread_outcome :: "'h server_services \<Rightarrow> u64 \<Rightarrow> 'h machine \<Rightarrow> setup_result \<times> 'h machine" where
  "thread_outcome S qsize m = (case run_thread S m of
     (True, m) \<Rightarrow> (Setup_Failed, m)
   | (False, m) \<Rightarrow> (case ds_cap_alloc S m of
     (None, m) \<Rightarrow> (Setup_Failed, m)
   | (Some c, m) \<Rightarrow> (case ds_alloc S qsize c m of (e, m) \<Rightarrow> if e < 0 then (Setup_Failed, m)
     else (case ds_attach S qsize c m of ((e, addr), m) \<Rightarrow> if e < 0 then (Setup_Failed, m)
     else (case register_obj S m of
     (None, m) \<Rightarrow> (Setup_Failed, m)
   | (Some cap, m) \<Rightarrow> (case ipc_send_ready S m of
     (True, m) \<Rightarrow> (Setup_Unannounced cap, m)
   | (False, m) \<Rightarrow> (Setup_Ready cap, m)))))))"

lemma wq_setup_outcome:
  "\<exists>w'. wq_setup S qsize (w, m) = Some (Inr (fst (thread_outcome S qsize m)), (w', snd (thread_outcome S qsize m)))"
  by (auto simp: thread_outcome_def wq_setup_def wq_mem_alloc_def prog_simps split: prod.splits option.splits bool.splits)

lemma cq_setup_outcome:
  "\<exists>w'. cq_setup S qsize (w, m) = Some (Inr (fst (thread_outcome S qsize m)), (w', snd (thread_outcome S qsize m)))"
  by (auto simp: thread_outcome_def cq_setup_def cq_mem_alloc_def prog_simps split: prod.splits option.splits bool.splits)

text \<open>
  What the client gets, if the wait for the thread ends: the code for success, and the capability
  that was registered, or the one the variable happened to hold.
\<close>

definition creation :: "'h server_services \<Rightarrow> u64 \<Rightarrow> 'h machine \<Rightarrow> ((error + int \<times> u64) \<times> 'h machine) option" where
  "creation S qsize m = (case thread_outcome S qsize m of (r, m1) \<Rightarrow>
     map_option (\<lambda>(err, m2). (Inr (0, case r of Setup_Failed \<Rightarrow> junk_cap S | Setup_Unannounced c \<Rightarrow> c | Setup_Ready c \<Rightarrow> c), m2))
       (await_ready S (\<exists>cap. r = Setup_Ready cap) m1))"

lemma creation_run:
  "op_create_wq S w qsize m = creation S qsize m" "op_create_cq S w' qsize m = creation S qsize m"
proof -
  obtain r m1 where o: "thread_outcome S qsize m = (r, m1)" by (cases "thread_outcome S qsize m")
  have a: "bnd (await_thread S r) (\<lambda>cap. ret (0, cap)) m1 = creation S qsize m"
    by (cases "await_ready S (\<exists>cap. r = Setup_Ready cap) m1")
      (auto simp: creation_def o await_thread_def bnd_def ret_def)
  from wq_setup_outcome [of S qsize w m] obtain v where "wq_setup S qsize (w, m) = Some (Inr r, (v, m1))" unfolding o by auto
  then show "op_create_wq S w qsize m = creation S qsize m" unfolding op_create_wq_def by (simp add: a)
  from cq_setup_outcome [of S qsize w' m] obtain v where "cq_setup S qsize (w', m) = Some (Inr r, (v, m1))" unfolding o by auto
  then show "op_create_cq S w' qsize m = creation S qsize m" unfolding op_create_cq_def by (simp add: a)
qed

end
