(* ===== verification/Pci_Facts.thy ===== *)
theory Pci_Facts
  imports Pci Cmd_Poll Driver_Init
begin

text \<open>
  What the operations on the configuration space compute: the size of a register window, the
  search in the list of capabilities and when it does not end, the MSI-X table. Also the wait
  for the device.
\<close>

section \<open>The register window\<close>

text \<open>
  A base address register holds the flags \<open>f\<close> in its low four bits; the upper bits hold the
  address, and the size answer has the bits from the size on set.
\<close>

lemma bar_word:
  fixes x :: u64 and f :: u32
  assumes x: "x AND 0xf = 0" and f: "f AND 0xfffffff0 = 0"
  shows "push_bit 32 (ucast (ucast (drop_bit 32 x) :: u32)) + ucast ((ucast x OR f) AND 0xfffffff0 :: u32) = x"
proof -
  have low: "(ucast x OR f) AND 0xfffffff0 = (ucast x :: u32) AND 0xfffffff0"
    using f by (simp add: bit.conj_disj_distrib2)
  have m: "(0xfffffff0 :: u32) = NOT (mask 4)" by (simp add: mask_eq_exp_minus_1)
  have "(0xf :: u64) = mask 4" by (simp add: mask_eq_exp_minus_1)
  with x have x4: "take_bit 4 x = 0" by (simp add: take_bit_eq_mask)
  have nb: "\<not> bit x n" if "n < 4" for n
    using x4 that by (metis bit_0_eq bit_take_bit_iff bot_apply bot_bool_def)
  have "push_bit 32 (ucast (ucast (drop_bit 32 x) :: u32)) AND (ucast ((ucast x :: u32) AND 0xfffffff0) :: u64) = 0"
    by (rule bit_word_eqI) (auto simp: bit_simps)
  then have "push_bit 32 (ucast (ucast (drop_bit 32 x) :: u32)) + (ucast ((ucast x :: u32) AND 0xfffffff0) :: u64) =
      push_bit 32 (ucast (ucast (drop_bit 32 x) :: u32)) OR ucast ((ucast x :: u32) AND 0xfffffff0)"
    by (rule disjunctive_add_eq_or)
  also have "\<dots> = x"
    unfolding m by (rule bit_word_eqI) (use nb in \<open>auto simp: bit_simps not_le\<close>)
  finally show ?thesis using low by simp
qed

lemma flag_kept: "f AND c \<noteq> 0 \<Longrightarrow> (x OR f) AND c \<noteq> (0 :: u32)"
  by (auto simp: bit_eq_iff bit_simps)

lemma not_mask_aligned: "4 \<le> k \<Longrightarrow> NOT (mask k) AND 0xf = (0 :: u64)"
proof -
  assume "4 \<le> k"
  have m: "(0xf :: u64) = mask 4" by (simp add: mask_eq_exp_minus_1)
  show ?thesis unfolding m by (rule bit_word_eqI) (use \<open>4 \<le> k\<close> in \<open>auto simp: bit_simps\<close>)
qed

lemma bar_range_64:
  assumes "base AND 0xf = 0" "f AND 0xfffffff0 = 0" "f AND 4 \<noteq> 0" "4 \<le> k"
  shows "bar_range (ucast base OR f) (ucast (NOT (mask k :: u64)) OR f)
    (ucast (drop_bit 32 base)) (ucast (drop_bit 32 (NOT (mask k :: u64)))) = (base, 2 ^ k)"
proof -
  have "(ucast base OR f) AND 4 \<noteq> 0" using assms(3) by (rule flag_kept)
  moreover have "NOT (NOT (mask k)) + 1 = (2 ^ k :: u64)" by (simp add: mask_eq_exp_minus_1)
  ultimately show ?thesis
    using bar_word [OF assms(1,2)] bar_word [OF not_mask_aligned [OF assms(4)] assms(2)]
    by (simp add: bar_range_def)
qed

lemma and_part: "x AND c = 0 \<Longrightarrow> x AND (c AND d) = (0 :: u32)"
  unfolding and.assoc [symmetric] by simp

text \<open>A window of 32-bit memory; \<open>f\<close> is the flag for prefetchable memory or nothing.\<close>

lemma bar_range_32:
  assumes "base AND 0xf = 0" "f AND 0xfffffff7 = 0" "4 \<le> k" "k < 32"
  shows "bar_range (base OR f) (NOT (mask k) OR f) msb msb_size = (ucast base, 2 ^ k)"
proof -
  have f: "f AND 4 = 0" "f AND 1 = 0" "f AND 0xfffffff0 = 0"
    using and_part [OF assms(2), of 4] and_part [OF assms(2), of 1] and_part [OF assms(2), of "0xfffffff0"] by simp_all
  have b: "base AND 4 = 0" "base AND 1 = 0"
    using and_part [OF assms(1), of 4] and_part [OF assms(1), of 1] by simp_all
  have m: "(0xfffffff0 :: u32) = NOT (mask 4)" "(0xf :: u32) = mask 4" by (simp_all add: mask_eq_exp_minus_1)
  have "base AND 0xfffffff0 = base"
  proof -
    have "base = base AND NOT (mask 4) OR base AND mask 4" by (rule bit_word_eqI) (auto simp: bit_simps)
    with assms(1) show ?thesis unfolding m by simp
  qed
  moreover have "NOT (mask k) AND (0xfffffff0 :: u32) = NOT (mask k)"
    unfolding m by (rule bit_word_eqI) (use assms(3) in \<open>auto simp: bit_simps\<close>)
  moreover have "ucast (2 ^ k :: u32) = (2 ^ k :: u64)"
    using assms(4) by (intro bit_word_eqI) (auto simp: bit_simps)
  ultimately show ?thesis
    using f b by (simp add: bar_range_def bit.conj_disj_distrib2 mask_eq_exp_minus_1)
qed

section \<open>Capabilities\<close>

text \<open>
  A configuration space whose bytes are \<open>rd\<close> and do not change while the list is read.
\<close>

definition config_bytes :: "'h vbus \<Rightarrow> u64 \<Rightarrow> (u32 \<Rightarrow> u32) \<Rightarrow> 'h machine \<Rightarrow> bool" where
  "config_bytes V dev rd m \<longleftrightarrow> (\<forall>r. cfg_read V dev r 8 m = ((0, rd r), m))
     \<and> (\<exists>st. cfg_read V dev 6 16 m = ((0, st), m) \<and> st AND 0x10 \<noteq> 0)"

text \<open>The list of capabilities that the pointer in register \<open>r\<close> leads to.\<close>

fun cap_list :: "(u32 \<Rightarrow> u32) \<Rightarrow> u32 \<Rightarrow> u32 list \<Rightarrow> bool" where
  "cap_list rd r [] \<longleftrightarrow> rd r AND 0xfc = 0"
| "cap_list rd r (p # ps) \<longleftrightarrow> rd r AND 0xfc = p \<and> p \<noteq> 0 \<and> cap_list rd (p + 1) ps"

lemma cap_round_run:
  assumes "config_bytes V dev rd m"
  shows "cap_round V dev target c m = Some (Inr (let p = rd (c + 1) AND 0xfc in
    if rd p = target then Inl p else if p \<noteq> 0 then Inr p else Inl 0), m)"
  using assms by (simp add: config_bytes_def cap_round_def cfg_get_def prog_simps chksys_def Let_def)

lemma cap_search:
  assumes "config_bytes V dev rd m" "cap_list rd (c + 1) ps"
  shows "loop (cap_round V dev target) c m =
    Some (Inr (case find (\<lambda>p. rd p = target) ps of None \<Rightarrow> 0 | Some p \<Rightarrow> p), m)"
  using assms(2)
proof (induction ps arbitrary: c)
  case Nil
  then have "cap_round V dev target c m = Some (Inr (Inl 0), m)" by (simp add: cap_round_run [OF assms(1)] Let_def)
  then show ?case by (simp add: loop_leave)
next
  case (Cons p ps)
  show ?case
  proof (cases "rd p = target")
    case True
    with Cons have "cap_round V dev target c m = Some (Inr (Inl p), m)" by (simp add: cap_round_run [OF assms(1)] Let_def)
    with True show ?thesis by (simp add: loop_leave)
  next
    case False
    with Cons have "cap_round V dev target c m = Some (Inr (Inr p), m)" by (auto simp: cap_round_run [OF assms(1)] Let_def)
    with False Cons show ?thesis by (simp add: loop_again)
  qed
qed

lemma get_pci_cap_run:
  assumes "config_bytes V dev rd m" "cap_list rd 0x34 ps"
  shows "get_pci_cap V dev target m =
    Some (Inr (case find (\<lambda>p. rd p = ucast target) ps of None \<Rightarrow> 0 | Some p \<Rightarrow> p), m)"
  using assms cap_search [OF assms(1), of "0x33" ps "ucast target"]
  by (auto simp: get_pci_cap_def cfg_get_def config_bytes_def prog_simps chksys_def)

text \<open>A list that leads back into itself without the capability in it is searched for ever.\<close>

lemma get_pci_cap_cyclic:
  assumes "config_bytes V dev rd m" "rd 0x34 AND 0xfc \<in> S"
    and "\<And>p. p \<in> S \<Longrightarrow> p \<noteq> 0 \<and> rd p \<noteq> ucast target \<and> rd (p + 1) AND 0xfc \<in> S"
  shows "get_pci_cap V dev target m = None"
proof -
  have "loop (cap_round V dev (ucast target)) 0x33 m \<noteq> Some (r, t)" for r t
  proof
    assume run: "loop (cap_round V dev (ucast target)) 0x33 m = Some (r, t)"
    show False
      by (rule loop_rule [OF run, where I = "\<lambda>c s. s = m \<and> rd (c + 1) AND 0xfc \<in> S" and Q = "\<lambda>_ _. False"])
        (use assms in \<open>auto simp: cap_round_run [OF assms(1)] Let_def split: if_splits\<close>)
  qed
  then have "loop (cap_round V dev (ucast target)) 0x33 m = None"
    by (metis not_None_eq surj_pair)
  then show ?thesis
    using assms(1) by (auto simp: get_pci_cap_def cfg_get_def config_bytes_def prog_simps chksys_def)
qed

section \<open>The MSI-X table\<close>

text \<open>What \<open>setup_msix\<close> reads and writes, from the capability it has found.\<close>

definition msix_registers :: "'h vbus \<Rightarrow> u64 \<Rightarrow> u32 \<Rightarrow> 'h machine \<Rightarrow> u32 \<Rightarrow> u32 \<Rightarrow> 'h machine \<Rightarrow> bool" where
  "msix_registers V dev cap m ctrl pos t \<longleftrightarrow> (\<exists>m1 m2. cfg_read V dev (cap + 2) 16 m = ((0, ctrl), m1)
     \<and> cfg_write V dev (cap + 2) ((ctrl OR 0x8000) AND 0xffffbfff) 16 m1 = (0, m2)
     \<and> cfg_read V dev (cap + 4) 32 m2 = ((0, pos), t))"

lemma msix_size: "((ctrl OR 0x8000) AND 0xffffbfff) AND 0x7ff = (ctrl AND 0x7ff :: u32)"
proof -
  have "((ctrl OR 0x8000) AND 0xffffbfff) AND 0x7ff = (ctrl OR 0x8000) AND (0xffffbfff AND 0x7ff)" by (simp only: and.assoc)
  also have "\<dots> = ctrl AND 0x7ff OR 0x8000 AND 0x7ff" by (simp add: bit.conj_disj_distrib2)
  finally show ?thesis by simp
qed

lemma setup_msix_run:
  assumes "get_pci_cap V dev 0x11 m = Some (Inr cap, m1)" "cap \<noteq> 0" "msix_registers V dev cap m1 ctrl pos t"
  shows "setup_msix V dev m = Some (Inr (if ctrl AND 0x7ff = 0 then 1 else 0, pos AND 0xfff8, pos AND 7, ctrl AND 0x7ff), t)"
  using assms msix_size [of ctrl]
  by (auto simp: setup_msix_def msix_registers_def cfg_get_def cfg_put_def prog_simps chksys_def Let_def)

text \<open>The offset is the table's only if it is below 64 KiB.\<close>

lemma msix_offset: "pos AND 0xfff8 = (pos AND 0xfffffff8 :: u32) \<longleftrightarrow> unat pos < 0x10000"
proof -
  have m: "(0xfff8 :: u32) = mask 16 AND NOT (mask 3)" "(0xfffffff8 :: u32) = NOT (mask 3)"
    by (simp_all add: mask_eq_exp_minus_1)
  have "pos AND 0xfff8 = pos AND 0xfffffff8 \<longleftrightarrow> take_bit 16 pos = pos"
  proof
    assume a: "pos AND 0xfff8 = pos AND 0xfffffff8"
    show "take_bit 16 pos = pos"
    proof (rule bit_word_eqI)
      fix n assume "n < LENGTH(32)"
      from a have "bit (pos AND (mask 16 AND NOT (mask 3))) n = bit (pos AND NOT (mask 3)) n" unfolding m by simp
      then show "bit (take_bit 16 pos) n = bit pos n" using \<open>n < LENGTH(32)\<close> by (auto simp: bit_simps)
    qed
  next
    assume "take_bit 16 pos = pos"
    then have "bit pos n \<Longrightarrow> n < 16" for n by (metis bit_take_bit_iff)
    then show "pos AND 0xfff8 = pos AND 0xfffffff8"
      unfolding m by (intro bit_word_eqI) (auto simp: bit_simps)
  qed
  also have "\<dots> \<longleftrightarrow> unat pos < 2 ^ 16"
    by (metis take_bit_nat_eq_self_iff unsigned_take_bit_eq word_unat_eq_iff)
  finally show ?thesis by simp
qed

section \<open>Waiting for the device\<close>

text \<open>The top bit of the register: the device is still initialising.\<close>

lemma init_bit: "(ucast (drop_bit 31 (w :: u32)) :: u8) = 0 \<longleftrightarrow> \<not> bit w 31"
proof -
  have "(ucast (drop_bit 31 w) :: u8) = of_bool (bit w 31)"
  proof (rule bit_word_eqI)
    fix n assume "n < LENGTH(8)"
    have "bit w (31 + n) \<Longrightarrow> n = 0" using bit_imp_le_length [of w "31 + n"] by simp
    then show "bit (ucast (drop_bit 31 w) :: u8) n = bit (of_bool (bit w 31) :: u8) n"
      using \<open>n < LENGTH(8)\<close> by (cases n) (auto simp: bit_simps)
  qed
  then show ?thesis by simp
qed

definition init_round :: "'h platform \<Rightarrow> u64 \<Rightarrow> nat \<Rightarrow> unit \<Rightarrow> ('h machine, unit + unit) prog" where
  "init_round E a start = (\<lambda>_.
       bnd (gets (\<lambda>m. ucast (drop_bit 31 (ioread32be a m)) :: u8)) (\<lambda>init.
       if init = 0 then ret (Inl ())
       else bnd (gets clock) (\<lambda>now.
            if now - start \<ge> INIT_TIMEOUT_MS then throw (Runtime_error ''Init Timeout'')
            else andthen (modify (elapse E 20)) (ret (Inr ())))))"

lemma init_round_run:
  "init_round E a start u m =
    (if \<not> bit (ioread32be a m) 31 then Some (Inr (Inl ()), m)
     else if start + INIT_TIMEOUT_MS \<le> clock m then Some (Inl (Runtime_error ''Init Timeout''), m)
     else Some (Inr (Inr ()), elapse E 20 m))"
  by (auto simp: init_round_def prog_simps init_bit)

lemma init_wait_run: "init_wait E a m = loop (init_round E a (clock m)) () m"
  by (simp add: init_wait_def prog_simps init_round_def [abs_def])

lemma init_wait_ok:
  assumes "sleeps E"
  shows "\<exists>r t. init_wait E a m = Some (r, t) \<and> (case r of
     Inr _ \<Rightarrow> \<not> bit (ioread32be a t) 31
   | Inl e \<Rightarrow> e = Runtime_error ''Init Timeout'' \<and> bit (ioread32be a t) 31 \<and> clock m + INIT_TIMEOUT_MS \<le> clock t)"
proof -
  let ?start = "clock m"
  have "\<exists>r t. loop (init_round E a ?start) () m = Some (r, t)"
  proof (rule loop_returns [where I = "\<lambda>_ _. True" and f = "\<lambda>_ m. ?start + INIT_TIMEOUT_MS - clock m"])
    fix x m x' t
    assume "init_round E a ?start x m = Some (Inr (Inr x'), t)"
    then have "clock m < ?start + INIT_TIMEOUT_MS" "t = elapse E 20 m"
      by (auto simp: init_round_run split: if_splits)
    moreover have "clock m + 20 \<le> clock (elapse E 20 m)" using assms by (simp add: sleeps_def)
    ultimately show "True \<and> ?start + INIT_TIMEOUT_MS - clock t < ?start + INIT_TIMEOUT_MS - clock m" by simp
  qed (simp_all add: init_round_run)
  then obtain r t where run: "loop (init_round E a ?start) () m = Some (r, t)" by blast
  have "case r of Inr _ \<Rightarrow> \<not> bit (ioread32be a t) 31
   | Inl e \<Rightarrow> e = Runtime_error ''Init Timeout'' \<and> bit (ioread32be a t) 31 \<and> ?start + INIT_TIMEOUT_MS \<le> clock t"
    by (rule loop_rule [OF run, where I = "\<lambda>_ _. True"]) (auto simp: init_round_run split: if_splits)
  with run show ?thesis by (auto simp: init_wait_run)
qed

end
