(* ===== verification/Server_Properties.thy ===== *)
theory Server_Properties
  imports Driver_Samples Shutdown Server_Main Server_Facts Pci_Facts
begin

text \<open>
  The properties of the server around the driver: its two threads, the PCI device it looks for
  and maps, and the objects it hands to its clients. The inputs they are applied to are small
  instances of the services, all of which succeed.
\<close>

section \<open>The two threads\<close>

definition sample_irqs :: "u64 irq_services" where
  "sample_irqs = \<lparr>irq_cap_alloc = (\<lambda>m. (Some 1, m)), irq_create = (\<lambda>c m. (0, m)), irq_bind_thread = (\<lambda>c t m. (0, m)),
     icu_bind = (\<lambda>i n c m. (0, m)), icu_msi_info = (\<lambda>i n s m. ((0, \<lparr>msi_addr = 0xfee00000, msi_data = 0x30\<rparr>), m)),
     icu_unmask = (\<lambda>i n m. (0, m)), irq_receive = (\<lambda>c m. m), irq_detach = (\<lambda>c m. m), icu_msi_flag = 0x80000000\<rparr>"

definition sample_irqh_args :: IRQH_Args where
  "sample_irqh_args = make_irqh_args sample_irqs 3 0xa00000 0 2"

definition sample_threads :: "main_pc \<Rightarrow> handler_pc \<Rightarrow> u64 threads" where
  "sample_threads mp hp = \<lparr>t_ctx = sample_ctx, t_active = (mp \<notin> {Main_Joining, Main_Teardown, Main_Done}), t_eq = 5,
     t_frame = (if mp = Main_In_Create then Some sample_irqh_args else None), t_main = mp, t_handler = hp, t_died = None\<rparr>"

text \<open>
  C34: the order of the two threads. Whatever they do and however their steps interleave, from
  the start of the server or from any state in this order: the handler thread exists exactly
  when \<open>setup_event_queue\<close> has got that far, \<open>opt.active\<close> is set exactly from there to the
  shutdown, the arguments of the handler exist exactly while \<open>create_msix_thread\<close> has not
  returned, and the main thread tears down, and has finished, only if the handler has ended.
\<close>

theorem threads_invariant:
  assumes "threads_ok s" "reaches E I self args s t"
  shows "threads_ok (threads_start c) \<and> threads_ok t"
proof
  show "threads_ok (threads_start c)" by (rule threads_start_ok)
  show "threads_ok t"
    using assms(2,1) by (induction rule: rtranclp_induct) (auto intro: thread_step_ok)
qed

lemma sample_shutdown_step:
  "main_step E args (sample_threads Main_Serving hp) (sample_threads Main_Joining hp)"
  using Main_Goes [of "sample_threads Main_Serving hp" E args "\<lambda>s. s\<lparr>t_active := False, t_main := Main_Joining\<rparr>" sample_ctx]
  by (simp add: sample_threads_def main_waits_def ret_def)

lemma threads_invariant_witness:
  "threads_ok (threads_start sample_ctx) \<and> threads_ok (sample_threads Main_Joining (Handler_Loop 1 5))"
proof (rule threads_invariant)
  show "threads_ok (sample_threads Main_Serving (Handler_Loop 1 5))" by (simp add: threads_ok_def sample_threads_def)
  show "reaches bump_platform sample_irqs 0 sample_irqh_args (sample_threads Main_Serving (Handler_Loop 1 5))
      (sample_threads Main_Joining (Handler_Loop 1 5))"
    by (rule r_into_rtranclp) (simp add: thread_step_def sample_shutdown_step)
qed

text \<open>
  C35: the shutdown comes to its end. It may begin at any moment of the handler's loop, also
  while the handler waits, looks at its queue or provides pages. If sleeping takes time and the
  page pool is in order, then every execution from the moment \<open>active\<close> is cleared has at most
  seven steps, in which the handler finishes the round it is in and begins no other; and where
  there is no further step, the program has died of an error, or the handler has ended and
  \<open>teardown_hca\<close> has run. The handler's wait has a timeout; so no interleaving, no answer of the
  device and no call can keep the shutdown from ending.
\<close>

theorem shutdown_ends:
  fixes s :: "'h threads"
  assumes "sleeps E" "threads_ok s" "t_main s = Main_Serving"
    and "pool_inv pr (mem_page_pool (t_ctx s)) bs" "finite (dom (p_data (mem_page_pool (t_ctx s))))"
    and "main_step E args s u" "(thread_step E I self args ^^ n) u t"
  shows "n \<le> 7 \<and> (0 < n \<longrightarrow> (\<forall>irq eq. t_handler t \<noteq> Handler_Wait irq eq))
    \<and> ((\<forall>v. \<not> thread_step E I self args t v) \<longrightarrow>
        t_died t \<noteq> None \<or> t_main t = Main_Done \<and> t_handler t = Handler_Ended)"
  using shutdown_begins [OF assms(1-6)] shutdown_run [OF assms(1) _ assms(7)] shutdown_stuck [OF assms(1), of t I self args]
  by (fastforce simp: shutting_down_def threads_ok_def)

lemma shutdown_ends_witness:
  "\<exists>t. (thread_step bump_platform sample_irqs 0 sample_irqh_args ^^ 1) (sample_threads Main_Joining (Handler_Wait 1 5)) t
    \<and> t_handler t = Handler_Check 1 5 \<and> (1 :: nat) \<le> 7"
proof -
  let ?s = "sample_threads Main_Joining (Handler_Wait 1 5)"
  let ?t = "?s\<lparr>t_ctx := sample_ctx\<lparr>mach := irq_receive sample_irqs 1 bump_machine\<rparr>, t_handler := Handler_Check 1 5\<rparr>"
  have "handler_step bump_platform sample_irqs 0 ?s ?t"
    using handler_goes [of ?s bump_platform sample_irqs 0 "Inr (Handler_Check 1 5)" "sample_ctx\<lparr>mach := irq_receive sample_irqs 1 bump_machine\<rparr>"]
    by (simp add: sample_threads_def handler_runs_def on_mach_def prog_simps)
  then have run: "(thread_step bump_platform sample_irqs 0 sample_irqh_args ^^ 1) ?s ?t" by (simp only: relpowp_1 thread_step_def) simp
  have "(1 :: nat) \<le> 7"
    using shutdown_ends [OF bump_sleeps _ _ _ _ sample_shutdown_step run, of None "[0]"] page_pool1_pool_inv
    by (simp add: sample_threads_def threads_ok_def page_pool1_def page_pool_simps)
  with run show ?thesis by auto
qed



section \<open>The PCI device\<close>

text \<open>
  C37: sizing a 64-bit register window. If the two base address registers hold the address
  \<open>base\<close> with the flags \<open>f\<close>, and answer the sizing of a window of \<open>2 ^ k\<close> bytes as the PCI
  specification says, with ones from bit \<open>k\<close> on, then the address and the size computed are
  \<open>base\<close> and \<open>2 ^ k\<close>.
\<close>

theorem bar_range_correct:
  assumes "base AND 0xf = 0" "f AND 0xfffffff0 = 0" "f AND 4 \<noteq> 0" "4 \<le> k"
  shows "bar_range (ucast base OR f) (ucast (NOT (mask k :: u64)) OR f)
    (ucast (drop_bit 32 base)) (ucast (drop_bit 32 (NOT (mask k :: u64)))) = (base, 2 ^ k)"
  by (rule bar_range_64 [OF assms])

lemma bar_range_correct_witness:
  "bar_range 0x3200000c 0xfe00000c 0x12 0xffffffff = (0x1232000000, 0x2000000)"
proof -
  have e: "ucast (0x1232000000 :: u64) OR 0xc = (0x3200000c :: u32)" "ucast (NOT (mask 25 :: u64)) OR 0xc = (0xfe00000c :: u32)"
    "ucast (drop_bit 32 (0x1232000000 :: u64)) = (0x12 :: u32)" "ucast (drop_bit 32 (NOT (mask 25 :: u64))) = (0xffffffff :: u32)"
    by (simp_all add: mask_eq_exp_minus_1 word_eq_iff_unsigned)
  from bar_range_correct [of "0x1232000000" "0xc" 25, unfolded e] show ?thesis by simp
qed

text \<open>
  C38: the search for a capability. In a configuration space that does not change meanwhile, a
  list of capabilities that ends is searched to its end: the result is the first capability
  with the id, or 0. A list that leads into a cycle without the id is searched for ever.
\<close>

theorem get_pci_cap_correct:
  assumes "config_bytes V dev rd m"
  shows "(cap_list rd 0x34 ps \<longrightarrow> get_pci_cap V dev target m =
      Some (Inr (case find (\<lambda>p. rd p = ucast target) ps of None \<Rightarrow> 0 | Some p \<Rightarrow> p), m))
    \<and> (rd 0x34 AND 0xfc \<in> S \<and> (\<forall>p\<in>S. p \<noteq> 0 \<and> rd p \<noteq> ucast target \<and> rd (p + 1) AND 0xfc \<in> S) \<longrightarrow>
        get_pci_cap V dev target m = None)"
  using get_pci_cap_run [OF assms, of ps target] get_pci_cap_cyclic [OF assms, of S target] by blast

text \<open>A device with three capabilities at 0x40, 0x60 and 0x9c, and one whose list is a cycle.\<close>

definition sample_vbus :: "(u32 \<Rightarrow> u32) \<Rightarrow> u64 vbus" where
  "sample_vbus rd = \<lparr>next_device = (\<lambda>m. ((-1, 0), m)), cfg_read = (\<lambda>d r w m. ((0, if r = 6 \<and> w = 16 then 0x10 else rd r), m)),
     cfg_write = (\<lambda>d r v w m. (0, m)), bar_attach = (\<lambda>d s b m. ((0, b), m)), num_resources = (\<lambda>d m. ((0, 0), m)),
     get_resource = (\<lambda>d i m. ((0, \<lparr>vr_type = 0, vr_start = 0\<rparr>), m)), dma_cap_slot = (\<lambda>m. (Some 1, m)),
     dma_space_create = (\<lambda>c m. (0, m)), assign_dma_domain = (\<lambda>d s c m. (0, m)), icu_by_hid = (\<lambda>d m. ((0, 1), m)),
     icu_cap_slot = (\<lambda>m. (Some 2, m)), icu_vicu = (\<lambda>i c m. (0, m)), icu_info = (\<lambda>c m. (0, m)), dma_domain_type = 2,
     src_dev_handle = 0x8000000000000000\<rparr>"

definition three_caps :: "u32 \<Rightarrow> u32" where
  "three_caps r = (if r = 0x34 then 0x40 else if r = 0x40 then 1 else if r = 0x41 then 0x60 else if r = 0x60 then 0x10
     else if r = 0x61 then 0x9c else if r = 0x9c then 0x11 else 0)"

definition cyclic_caps :: "u32 \<Rightarrow> u32" where
  "cyclic_caps r = (if r = 0x34 \<or> r = 0x61 then 0x40 else if r = 0x40 then 1 else if r = 0x41 then 0x60
     else if r = 0x60 then 0x10 else 0)"

lemma sample_config: "config_bytes (sample_vbus rd) d rd m"
  by (simp add: config_bytes_def sample_vbus_def)

lemma get_pci_cap_correct_witness:
  "get_pci_cap (sample_vbus three_caps) 1 0x11 bump_machine = Some (Inr 0x9c, bump_machine)
    \<and> get_pci_cap (sample_vbus cyclic_caps) 1 0x11 bump_machine = None"
  using get_pci_cap_correct [OF sample_config [of three_caps 1 bump_machine], of "[0x40, 0x60, 0x9c]" "0x11" "{}"]
    get_pci_cap_correct [OF sample_config [of cyclic_caps 1 bump_machine], of "[]" "0x11" "{0x40, 0x60}"]
  by (simp add: three_caps_def cyclic_caps_def)

section \<open>The objects of the server\<close>



text \<open>
  C39: a work queue object serves requests until it is told to terminate. Every request before
  that is answered, from the object alone: \<open>get_sq\<close> with the receive queue's capability, the
  same as \<open>get_rq\<close>. The first \<open>terminate\<close> ends the loop; then, and only then, the object is
  unregistered, its memory unmapped and its capability freed, in this order.
\<close>

theorem wq_serve_correct:
  "wq_serve S rs (w, m) = Some (Inr (map (wq_reply w) (takeWhile (\<lambda>r. r \<noteq> WQ_terminate) rs), WQ_terminate \<in> set rs),
     (w, if WQ_terminate \<in> set rs then ds_cap_free S (wi_rq w) (snd (ds_detach S (wi_rq_addr w) (unregister_obj S m))) else m))"
  using wq.serve_run [of S rs w m] by (simp add: wq_shutdown_def)



end
