(* ===== verification/Spec2Isabelle.thy ===== *)
theory Spec2Isabelle
  imports Command_Properties Memory_Properties Queue_Properties Driver_Properties Server_Properties
begin

text \<open>
  l4rdma: a user-space driver for Mellanox ConnectX network cards on the L4Re microkernel.

  \<^bold>\<open>The program.\<close> The server (\<open>src/server/src/main.cc\<close>) finds its PCI device on a virtual bus and
  maps its registers (\<open>device.cc\<close>), allocates DMA memory (\<open>mem.cc\<close>) for a command queue and two
  mailboxes (\<open>cmd.cc\<close>) and brings the device up by a sequence of commands (\<open>driver.cc\<close>). It lends
  the device memory pages from a pool (\<open>pool.h\<close>, \<open>mem.cc\<close>), creates an event queue (\<open>event.cc\<close>,
  \<open>queue.cc\<close>, \<open>uar.cc\<close>) with an MSI-X interrupt (\<open>interrupt.cc\<close>), and starts a thread that answers
  the device's requests for pages. The main thread then serves clients (\<open>server_interface.cc\<close>),
  with one thread per work or completion queue object (\<open>wq_interface.cc\<close>, \<open>cq_interface.cc\<close>), until
  it is told to stop; it joins the handler and tears the device down.

  \<^bold>\<open>How it is modelled.\<close> A function of the program is a computation \<open>('s, 'a) prog\<close> (\<open>Hca_Prelude\<close>):
  from a state to a value or an error with the state reached, or \<open>None\<close> if it does not return.
  Every raise, failed system call and step that C++ gives no meaning to (an index outside an
  array, a null or dangling pointer, an empty map node) is an error value; a loop that may run
  for ever is the least fixed point \<open>loop\<close>. Integers keep their width and wrap around. Memory
  that devices can see is a map from addresses to 32-bit words (\<open>machine\<close>, in \<open>Device_IO\<close>), and
  register structures are addressed by index. Objects that the program links by pointers
  (blocks and elements of a pool) live in a heap of blocks; a pointer to an element is the pair
  of its block and its place.

  What is not part of the program is a parameter: the record \<open>platform\<close> (L4Re's memory
  services, \<open>malloc\<close>, uninitialised stack memory, and \<open>elapse\<close>, what the device does while the
  program sleeps), the records \<open>irq_services\<close>, \<open>vbus\<close> and \<open>server_services\<close>. The only assumption
  on time is \<open>sleeps\<close>, that a sleep is not shorter than asked for. The device acts only while
  the driver sleeps or waits for an interrupt. A theorem that needs more of a parameter says so in a premise.

  \<^bold>\<open>Theories, in the order of the program's parts.\<close>

  \<^item> \<open>Hca_Prelude\<close>: computations, loops, their invariants (\<open>keeps\<close>) and termination (\<open>returns\<close>),
    words. \<open>Device_IO\<close>: \<open>device.h\<close>, big-endian register access, with the laws of register memory
    as a locale. \<open>Sample_Platform\<close>: a concrete platform for examples.
  \<^item> \<open>Pool\<close>: \<open>pool.h\<close>. \<open>Pool_Invariant\<close>: the invariant, as doubly linked blocks in the heap and
    their occupancy; \<open>Pool_Correct\<close>: refinement of first-fit allocation, in a locale whose
    parameters are the two callbacks of a pool.
  \<^item> \<open>Mem\<close>, \<open>Mem_Correct\<close>: \<open>mem.h\<close>, \<open>mem.cc\<close>, the page pool with its index by physical address.
    \<open>Uar\<close>: \<open>uar.h\<close>, \<open>uar.cc\<close>. \<open>Memory_Properties\<close>: C11 to C18.
  \<^item> \<open>Queue\<close>, \<open>Queue_Pool\<close>, \<open>Queue_Correct\<close>: \<open>queue.h\<close>, \<open>queue.cc\<close>, rings and the pools of queues.
    \<open>Queue_Properties\<close>: C19 and C20.
  \<^item> \<open>Opcode\<close>, \<open>Cmd\<close>: \<open>cmd.h\<close>, \<open>cmd.cc\<close>. \<open>Cmd_Mail\<close> (mailboxes as chains of blocks), \<open>Cmd_Poll\<close>
    (waiting for a command), \<open>Cmd_Create\<close> (what is written), \<open>Cmd_Decode\<close> (the device's view:
    decoding an entry), \<open>Cmd_Output\<close> (reading the output). \<open>Command_Properties\<close>: C1 to C10.
  \<^item> \<open>Driver_Context\<close>, \<open>Driver_Init\<close>: \<open>driver.h\<close>, \<open>driver.cc\<close>. \<open>execute\<close> stands for the three calls
    \<open>create_cqe\<close>, \<open>ring_doorbell\<close>, \<open>validate_cqe\<close> that every command is executed with; its lines
    are those of one of its many uses. \<open>Event\<close>: \<open>event.h\<close>, \<open>event.cc\<close>. \<open>Work_Completion\<close>: \<open>cq.cc\<close>,
    \<open>wq.cc\<close>. \<open>Interrupt\<close>: \<open>interrupt.cc\<close>.
  \<^item> \<open>Driver_Correct\<close>: the command interface as a locale, with its frame. \<open>Driver_Pages\<close>: pages
    lent to the device. \<open>Driver_Device\<close>: driver and device together, for a device that completes
    its commands. \<open>Driver_Facts\<close>: interface version, reclaiming, events, teardown.
    \<open>Event_Correct\<close>: \<open>create_eq\<close> from the allocation to the queue in the index.
    \<open>Handler_Correct\<close>: a round of the handler, from the interrupt to the pages lent.
    \<open>Page_Returns\<close>: the calls on pages, and the teardown, come to an end.
    \<open>Driver_Samples\<close>, \<open>Driver_Properties\<close>: C21 to C33.
  \<^item> \<open>Threads\<close>: the main thread (\<open>main_next\<close>, \<open>main_step\<close>) and the handler (\<open>handler_next\<close>,
    \<open>handler_step\<close>), one step per call or access to what they share, and \<open>thread_step\<close>, their
    interleaving. The handler's test of \<open>active\<close>, its wait, the look at the entry, the reading of it
    and the answer are separate steps. What the two share is the record \<open>threads\<close>, with the stack
    frame of \<open>create_msix_thread\<close>, whose arguments cannot be read after that function has
    returned. \<open>Shutdown\<close>: the rounds of the handler, and the shutdown, made of these steps.
    \<open>Pci\<close>, \<open>Pci_Facts\<close>: \<open>device.cc\<close>.
    \<open>Server\<close>, \<open>Server_Facts\<close>: the objects of the server and, as a
    locale, the contract both kinds share. \<open>Server_Main\<close>: the start of \<open>main\<close>.
    \<open>Server_Properties\<close>: C34 to C40.

  \<^bold>\<open>What is shown.\<close> The command protocol is a round trip in both directions: the device decodes
  what the driver encodes, chains of mailbox blocks included, and the driver reads what the
  device stores; waiting ends. The allocator refines an abstract first-fit allocator, the page
  pool's index stays exact, and \<open>provide_pages\<close> lends the device exactly the pages it names to it.
  The two threads keep their order (C34), a round of the handler is what its steps make up
  (C36), and once the shutdown has begun the program ends, whatever the handler was doing and
  whatever the device answers (C35).
  Where the code does not do this, the theorem says what it does instead: stale list
  heads (C13), shared UAR pages (C18), overruns (C5, C20, C28), a list of addresses sent by half (C31),
  events read again (C29), a version check without effect (C25), a teardown that fails (C33), a
  an endless search (C38), a failure that is never reported (C40).
  Queues are built only where \<open>malloc\<close> returns twice what it was asked for: C19 and C31 hold for
  every \<open>malloc\<close> and say in which case the list of pages is overrun, and by C20 that is every
  case of a \<open>malloc\<close> that returns just what was asked for.

  \<^bold>\<open>Bounds.\<close> Lengths of commands are at most \<open>2 ^ 26\<close> words, above which the code's byte lengths
  wrap around in 32 bits; pages of a queue at most \<open>2 ^ 20\<close>, so that their size fits in 32 bits;
  a page request less than \<open>2 ^ 31\<close>. There is no fuel: every loop is either structural, over a
  list of indices, or \<open>loop\<close>, whose end is proved where it is claimed. The shutdown has at most seven steps: five of a handler
  that was about to wait, and two of the main thread.

  \<^bold>\<open>Not modelled.\<close> Console output and \<open>debug_cmd\<close>, which only prints; the read-back of the queue's address
  for that output; the mutex of a pool, which makes its calls atomic here; data races between the
  two threads inside a call of the driver (both execute commands on the same queue without a
  lock), as a step of \<open>Threads\<close> is a whole call; a handler thread that reads its arguments after
  \<open>create_msix_thread\<close> has returned ends the program, as all undefined behaviour does here; the kernel, the bus and the generated RPC code,
  which are parameters; \<open>RQC\<close>, \<open>SQC\<close> and some masks, which are declared but not used; the test
  client, which only calls the server.
\<close>

end
